(* ===== verification/Infra_Prelude.thy ===== *)
theory Infra_Prelude
  imports Main
    "HOL-Library.State_Monad"
    "HOL-Library.Sublist"
    "HOL-Library.AList"
    "HOL-Library.Char_ord"
    "HOL-Library.List_Lexorder"
    "HOL-Library.Multiset"
begin

text \<open>
  The prelude of the Infraforge development. It fixes how Go is read in HOL and holds the
  generic lemmas every component shares:

  \<^item> effects: every effectful function is a value of the state monad over a world type, \<open>wp\<close> is
    the weakest precondition its laws are stated with, and \<open>keeps I v G m\<close> says that \<open>m\<close> keeps the
    invariant \<open>I\<close> and the view \<open>v\<close> and that its result satisfies \<open>G\<close>; \<open>'a go\<close> adds the outcome
    \<open>Panic\<close>, and \<open>on_part\<close> runs a computation on a part of a world;
  \<^item> errors: \<open>goerr\<close> is a Go \<open>error\<close> value, with \<open>errors_is\<close> (\<open>errors.Is\<close>) and
    \<open>err_msg\<close> (\<open>err.Error()\<close>);
  \<^item> strings: a Go string is a byte string, so \<open>string\<close>; the functions of package
    \<open>strings\<close> that the sources call.

  Integers are in \<open>Go_Numbers\<close>, text and white space in \<open>Go_Text\<close>, maps in \<open>Go_Map\<close>.
\<close>

named_theorems go_simps \<open>unfolding rules for the Go primitives\<close>
named_theorems wp_rules \<open>weakest-precondition rules of the state monad\<close>

section \<open>Effects: the state monad and its weakest preconditions\<close>

definition wp :: "('w, 'a) state \<Rightarrow> ('a \<Rightarrow> 'w \<Rightarrow> bool) \<Rightarrow> 'w \<Rightarrow> bool" where
  "wp m Q w = (case run_state m w of (a, w') \<Rightarrow> Q a w')"

lemma wp_return [simp, wp_rules]: "wp (State_Monad.return a) Q = Q a"
  by (simp add: wp_def fun_eq_iff)

lemma wp_bind [simp, wp_rules]: "wp (State_Monad.bind m f) Q = wp m (\<lambda>a. wp (f a) Q)"
  by (simp add: wp_def fun_eq_iff split: prod.splits)

lemma wp_if [simp, wp_rules]:
  "wp (if b then m else n) Q w = (if b then wp m Q w else wp n Q w)"
  by simp

lemma wp_case_sum [wp_rules]:
  "wp (case x of Inl a \<Rightarrow> f a | Inr b \<Rightarrow> g b) Q w =
   (case x of Inl a \<Rightarrow> wp (f a) Q w | Inr b \<Rightarrow> wp (g b) Q w)"
  by (simp split: sum.split)

lemma wp_case_option [wp_rules]:
  "wp (case x of None \<Rightarrow> m | Some b \<Rightarrow> g b) Q w =
   (case x of None \<Rightarrow> wp m Q w | Some b \<Rightarrow> wp (g b) Q w)"
  by (simp split: option.split)

lemma wp_mono: "wp m P w \<Longrightarrow> (\<And>a w'. P a w' \<Longrightarrow> Q a w') \<Longrightarrow> wp m Q w"
  by (simp add: wp_def split: prod.splits)

lemma wp_any: "(\<And>a w'. Q a w') \<Longrightarrow> wp m Q w"
  by (simp add: wp_def split: prod.splits)

lemma wp_case_prod [wp_rules]:
  "wp (case x of (a, b) \<Rightarrow> f a b) Q w = (case x of (a, b) \<Rightarrow> wp (f a b) Q w)"
  by (simp split: prod.split)

lemma wp_runI: "(\<And>a w'. run_state m w = (a, w') \<Longrightarrow> Q a w') \<Longrightarrow> wp m Q w"
  by (simp add: wp_def split: prod.splits)

lemma wp_run: "run_state m w = (a, w') \<Longrightarrow> wp m Q w = Q a w'"
  by (simp add: wp_def)

lemma wp_runD: "wp m Q w \<Longrightarrow> run_state m w = (a, w') \<Longrightarrow> Q a w'"
  by (simp add: wp_def)

lemma wp_conj: "wp m (\<lambda>a w'. P a w' \<and> Q a w') w \<longleftrightarrow> wp m P w \<and> wp m Q w"
  by (simp add: wp_def split: prod.splits)

text \<open>
  A call that may also panic: a nil dereference ends the process, so what follows the call in
  the source is not run.
\<close>

datatype 'a go = Ret 'a | Panic

lemma wp_case_go [wp_rules]:
  "wp (case x of Ret a \<Rightarrow> f a | Panic \<Rightarrow> m) Q w = (case x of Ret a \<Rightarrow> wp (f a) Q w | Panic \<Rightarrow> wp m Q w)"
  by (simp split: go.split)

text \<open>
  \<open>x, err := f(); if err != nil { return err }\<close>: go on with the value, hand an error or a panic
  back.
\<close>

definition try_bind :: "('w, ('e + 'a) go) state \<Rightarrow> ('a \<Rightarrow> ('w, ('e + 'b) go) state) \<Rightarrow> ('w, ('e + 'b) go) state" where
  "try_bind m f =
     do {
       x \<leftarrow> m;
       (case x of
          Panic \<Rightarrow> State_Monad.return Panic
        | Ret r \<Rightarrow> (case r of Inl e \<Rightarrow> State_Monad.return (Ret (Inl e)) | Inr a \<Rightarrow> f a))
     }"

lemma wp_try_bind [simp, wp_rules]:
  "wp (try_bind m f) Q = wp m (\<lambda>x w'. case x of Panic \<Rightarrow> Q Panic w'
     | Ret r \<Rightarrow> (case r of Inl e \<Rightarrow> Q (Ret (Inl e)) w' | Inr a \<Rightarrow> wp (f a) Q w'))"
  by (simp add: try_bind_def fun_eq_iff wp_def split: go.split sum.split prod.split)

text \<open>\<open>keeps I v G m\<close>: running \<open>m\<close> keeps the invariant and the view, and its result satisfies \<open>G\<close>.\<close>

definition keeps :: "('w \<Rightarrow> bool) \<Rightarrow> ('w \<Rightarrow> 'v) \<Rightarrow> ('a \<Rightarrow> bool) \<Rightarrow> ('w, 'a) state \<Rightarrow> bool" where
  "keeps I v G m \<longleftrightarrow> (\<forall>w. I w \<longrightarrow> wp m (\<lambda>a w'. I w' \<and> v w' = v w \<and> G a) w)"

abbreviation any_result :: "'a \<Rightarrow> bool" where "any_result \<equiv> \<lambda>_. True"

named_theorems keeps_intros \<open>how \<open>keeps\<close> passes through the monad\<close>

lemma keepsD: "keeps I v G m \<Longrightarrow> I w \<Longrightarrow> wp m (\<lambda>a w'. I w' \<and> v w' = v w \<and> G a) w"
  by (simp add: keeps_def)

lemma keeps_return [keeps_intros]: "G a \<Longrightarrow> keeps I v G (State_Monad.return a)"
  by (simp add: keeps_def)

lemma keeps_bind [keeps_intros]:
  assumes "keeps I v G m" "\<And>a. G a \<Longrightarrow> keeps I v H (f a)"
  shows "keeps I v H (State_Monad.bind m f)"
  unfolding keeps_def wp_bind
proof (intro allI impI)
  fix w assume "I w"
  have "wp (f a) (\<lambda>b w'. I w' \<and> v w' = v w \<and> H b) w1" if "I w1 \<and> v w1 = v w \<and> G a" for a w1
    by (rule wp_mono [OF keepsD [OF assms(2)]]) (use that in auto)
  then show "wp m (\<lambda>a. wp (f a) (\<lambda>b w'. I w' \<and> v w' = v w \<and> H b)) w"
    by (intro wp_mono [OF keepsD [OF assms(1) \<open>I w\<close>]])
qed

lemma keeps_bind_any:
  "keeps I v any_result m \<Longrightarrow> (\<And>a. keeps I v H (f a)) \<Longrightarrow> keeps I v H (State_Monad.bind m f)"
  by (rule keeps_bind)

lemma keeps_if [keeps_intros]:
  "(b \<Longrightarrow> keeps I v G m) \<Longrightarrow> (\<not> b \<Longrightarrow> keeps I v G n) \<Longrightarrow> keeps I v G (if b then m else n)"
  by simp

lemma keeps_case_option [keeps_intros]:
  "(x = None \<Longrightarrow> keeps I v G m) \<Longrightarrow> (\<And>a. x = Some a \<Longrightarrow> keeps I v G (f a)) \<Longrightarrow>
     keeps I v G (case x of None \<Rightarrow> m | Some a \<Rightarrow> f a)"
  by (simp split: option.split)

lemma keeps_case_sum [keeps_intros]:
  "(\<And>a. x = Inl a \<Longrightarrow> keeps I v G (f a)) \<Longrightarrow> (\<And>a. x = Inr a \<Longrightarrow> keeps I v G (g a)) \<Longrightarrow>
     keeps I v G (case x of Inl a \<Rightarrow> f a | Inr a \<Rightarrow> g a)"
  by (simp split: sum.split)

lemma keeps_case_go [keeps_intros]:
  "(\<And>a. x = Ret a \<Longrightarrow> keeps I v G (f a)) \<Longrightarrow> (x = Panic \<Longrightarrow> keeps I v G m) \<Longrightarrow>
     keeps I v G (case x of Ret a \<Rightarrow> f a | Panic \<Rightarrow> m)"
  by (simp split: go.split)

lemma keeps_case_prod [keeps_intros]:
  "(\<And>a b. x = (a, b) \<Longrightarrow> keeps I v G (f a b)) \<Longrightarrow> keeps I v G (case x of (a, b) \<Rightarrow> f a b)"
  by (simp split: prod.split)

lemma keeps_weaken: "keeps I v G m \<Longrightarrow> (\<And>a. G a \<Longrightarrow> H a) \<Longrightarrow> keeps I v H m"
  unfolding keeps_def by (auto intro: wp_mono)

text \<open>A part of a view that is kept is kept, and so is whatever depends on the view only.\<close>

lemma keeps_image: "keeps I v G m \<Longrightarrow> (\<And>w. u w = h (v w)) \<Longrightarrow> keeps I u G m"
  unfolding keeps_def by (auto intro: wp_mono)

lemma keeps_also: "keeps I v G m \<Longrightarrow> (\<And>w. P w \<longleftrightarrow> Q (v w)) \<Longrightarrow> keeps (\<lambda>w. I w \<and> P w) v G m"
  unfolding keeps_def by (auto intro: wp_mono)

lemma wp_also:
  assumes "\<And>w. I w \<Longrightarrow> I0 w" "\<And>w. P w \<longleftrightarrow> P0 (v w)" "keeps I0 v any_result m" "I w \<and> P w"
    and "I w \<Longrightarrow> wp m (\<lambda>a w'. I w' \<and> Q a w') w"
  shows "wp m (\<lambda>a w'. (I w' \<and> P w') \<and> Q a w') w"
proof -
  from assms(1,4) have "I0 w" by blast
  from keepsD [OF assms(3) this] assms(2,4,5) show ?thesis by (auto simp: wp_def split: prod.splits)
qed

text \<open>A result of a fallible call whose error and value, if any, satisfy \<open>E\<close> and \<open>G\<close>.\<close>

definition outcome :: "('e \<Rightarrow> bool) \<Rightarrow> ('a \<Rightarrow> bool) \<Rightarrow> ('e + 'a) go \<Rightarrow> bool" where
  "outcome E G x \<longleftrightarrow> (case x of Panic \<Rightarrow> True | Ret (Inl e) \<Rightarrow> E e | Ret (Inr a) \<Rightarrow> G a)"

lemma outcome_simps [simp]: "outcome E G Panic" "outcome E G (Ret (Inl e)) = E e" "outcome E G (Ret (Inr a)) = G a"
  by (simp_all add: outcome_def)

lemma keeps_try_bind [keeps_intros]:
  assumes "keeps I v (outcome E G) m" "\<And>a. G a \<Longrightarrow> keeps I v (outcome E H) (f a)"
  shows "keeps I v (outcome E H) (try_bind m f)"
  unfolding try_bind_def
  by (rule keeps_bind [OF assms(1)]) (auto intro!: keeps_intros assms(2) split: go.split sum.split)

text \<open>An operation on one component of a product world, used to build a world out of parts.\<close>

definition on_part :: "('w \<Rightarrow> 'p) \<Rightarrow> ('p \<Rightarrow> 'w \<Rightarrow> 'w) \<Rightarrow> ('p, 'a) state \<Rightarrow> ('w, 'a) state" where
  "on_part get upd m = State (\<lambda>w. case run_state m (get w) of (a, p) \<Rightarrow> (a, upd p w))"

lemma run_state_on_part [simp]:
  "run_state (on_part get upd m) w = (case run_state m (get w) of (a, p) \<Rightarrow> (a, upd p w))"
  by (simp add: on_part_def)

lemma wp_on_part [simp, wp_rules]:
  "wp (on_part get upd m) Q w = wp m (\<lambda>a p. Q a (upd p w)) (get w)"
  by (simp add: wp_def split: prod.splits)

section \<open>Errors\<close>

text \<open>
  The sentinel errors the sources compare against with \<open>errors.Is\<close>: \<open>store.ErrNotFound\<close>,
  \<open>provisioner.ErrTransient\<close>, \<open>redis.Nil\<close> and the two errors of a done context.
\<close>

datatype sentinel = ErrNotFound | ErrTransient | RedisNil | CtxCanceled | CtxDeadlineExceeded | ErrServerClosed

fun sentinel_msg :: "sentinel \<Rightarrow> string" where
  "sentinel_msg ErrNotFound = ''job not found''"
| "sentinel_msg ErrTransient = ''transient error''"
| "sentinel_msg RedisNil = ''redis: nil''"
| "sentinel_msg CtxCanceled = ''context canceled''"
| "sentinel_msg CtxDeadlineExceeded = ''context deadline exceeded''"
| "sentinel_msg ErrServerClosed = ''http: Server closed''"

text \<open>
  An error is a sentinel, an error made from a text (\<open>errors.New\<close>, or \<open>fmt.Errorf\<close> with no
  \<open>%w\<close>), or a text that wraps another error (\<open>fmt.Errorf\<close> with \<open>%w\<close>).
\<close>

datatype goerr = Sentinel sentinel | NewErr string | WrapErr string goerr

primrec err_msg :: "goerr \<Rightarrow> string" where
  "err_msg (Sentinel s) = sentinel_msg s"
| "err_msg (NewErr m) = m"
| "err_msg (WrapErr m e) = m"

primrec errors_is :: "goerr \<Rightarrow> sentinel \<Rightarrow> bool" where
  "errors_is (Sentinel s) t = (s = t)"
| "errors_is (NewErr m) t = False"
| "errors_is (WrapErr m e) t = errors_is e t"

text \<open>\<open>fmt.Errorf("<prefix>: %w", err)\<close>.\<close>

definition errorf_w :: "string \<Rightarrow> goerr \<Rightarrow> goerr" where
  "errorf_w pre e = WrapErr (pre @ '': '' @ err_msg e) e"

lemma errors_is_errorf_w [simp]: "errors_is (errorf_w pre e) t = errors_is e t"
  by (simp add: errorf_w_def)

lemma err_msg_errorf_w [simp]: "err_msg (errorf_w pre e) = pre @ '': '' @ err_msg e"
  by (simp add: errorf_w_def)

section \<open>Strings\<close>

text \<open>\<open>strings.Contains s p\<close>.\<close>

fun contains :: "string \<Rightarrow> string \<Rightarrow> bool" where
  "contains [] p = (p = [])"
| "contains (c # s) p = (prefix p (c # s) \<or> contains s p)"

lemma contains_iff: "contains s p \<longleftrightarrow> (\<exists>a b. s = a @ p @ b)"
proof (induction s)
  case Nil
  then show ?case by simp
next
  case (Cons c s)
  have "(\<exists>a b. c # s = a @ p @ b) \<longleftrightarrow> prefix p (c # s) \<or> (\<exists>a b. s = a @ p @ b)"
    by (metis append_Cons append_Nil append_eq_Cons_conv prefixE prefixI)
  with Cons show ?case by simp
qed

lemma contains_append: "contains s p \<Longrightarrow> contains (a @ s @ b) p"
  unfolding contains_iff by (metis append.assoc)

text \<open>\<open>strings.TrimPrefix\<close>; \<open>strings.HasPrefix s p\<close> is \<open>prefix p s\<close>.\<close>

definition trim_prefix :: "string \<Rightarrow> string \<Rightarrow> string" where
  "trim_prefix s p = (if prefix p s then drop (length p) s else s)"

lemma trim_prefix_append [simp]: "trim_prefix (p @ s) p = s"
  by (simp add: trim_prefix_def)

text \<open>
  \<open>strings.ToLower\<close>. On a string of ASCII bytes it maps \<open>A\<close>..\<open>Z\<close>; on any other string it runs
  \<open>unicode.ToLower\<close> over the decoded runes, whose tables are the argument \<open>uni\<close>.
\<close>

definition ascii_lower :: "char \<Rightarrow> char" where
  "ascii_lower c = (if 65 \<le> (of_char c :: nat) \<and> (of_char c :: nat) \<le> 90
                    then char_of ((of_char c :: nat) + 32) else c)"

definition is_ascii :: "string \<Rightarrow> bool" where
  "is_ascii s = list_all (\<lambda>c. (of_char c :: nat) < 128) s"

definition to_lower :: "(string \<Rightarrow> string) \<Rightarrow> string \<Rightarrow> string" where
  "to_lower uni s = (if is_ascii s then map ascii_lower s else uni s)"

lemma to_lower_ascii: "is_ascii s \<Longrightarrow> to_lower uni s = map ascii_lower s"
  by (simp add: to_lower_def)

end
