(* ===== verification/Go_Numbers.thy ===== *)
theory Go_Numbers
  imports Infra_Prelude
begin

text \<open>
  Go's \<open>int\<close> on a 64-bit platform and its decimal text: \<open>wrap64\<close> is the wrap-around of signed
  64-bit arithmetic, \<open>uint32_of\<close> the conversion \<open>uint32(x)\<close>, \<open>show_int\<close> the verb \<open>%d\<close>,
  \<open>atoi\<close> is \<open>strconv.Atoi\<close> and \<open>sscanf_d\<close> is \<open>fmt.Sscanf(v, "%d", &x)\<close>. The lemmas are
  the two round trips, injectivity, and that a number's text holds no colon.
\<close>

section \<open>Signed 64-bit integers\<close>

definition int64_range :: "int \<Rightarrow> bool" where
  "int64_range i \<longleftrightarrow> - (2 ^ 63) \<le> i \<and> i < 2 ^ 63"

definition wrap64 :: "int \<Rightarrow> int" where
  "wrap64 i = (i + 2 ^ 63) mod 2 ^ 64 - 2 ^ 63"

definition uint32_of :: "int \<Rightarrow> int" where
  "uint32_of i = i mod 2 ^ 32"

lemma wrap64_id: "int64_range i \<Longrightarrow> wrap64 i = i"
  by (simp add: wrap64_def int64_range_def mod_pos_pos_trivial)

lemma wrap64_range: "int64_range (wrap64 i)"
proof -
  have "0 \<le> (i + 2 ^ 63) mod 2 ^ 64" and "(i + 2 ^ 63) mod 2 ^ 64 < (2 ^ 64 :: int)"
    by simp_all
  then show ?thesis unfolding wrap64_def int64_range_def by simp
qed

lemma wrap64_Suc: "int64_range i \<Longrightarrow> i + 1 < 2 ^ 63 \<Longrightarrow> wrap64 (i + 1) = i + 1"
  by (rule wrap64_id) (simp add: int64_range_def)

lemma uint32_of_id: "0 \<le> i \<Longrightarrow> i < 2 ^ 32 \<Longrightarrow> uint32_of i = i"
  by (simp add: uint32_of_def)

section \<open>Decimal text\<close>

fun show_nat :: "nat \<Rightarrow> string" where
  "show_nat n = (if n < 10 then [char_of (48 + n)]
                 else show_nat (n div 10) @ [char_of (48 + n mod 10)])"

declare show_nat.simps [simp del]

definition show_int :: "int \<Rightarrow> string" where
  "show_int i = (if i < 0 then CHR ''-'' # show_nat (nat (- i)) else show_nat (nat i))"

definition is_digit :: "char \<Rightarrow> bool" where
  "is_digit c \<longleftrightarrow> 48 \<le> (of_char c :: nat) \<and> (of_char c :: nat) \<le> 57"

definition digits_val :: "string \<Rightarrow> nat" where
  "digits_val s = foldl (\<lambda>a c. 10 * a + (of_char c - 48)) 0 s"

text \<open>An unsigned digit string, negated or not, if it fits in 64 signed bits.\<close>

definition digits_int :: "bool \<Rightarrow> string \<Rightarrow> int option" where
  "digits_int neg s =
     (if s = [] \<or> \<not> list_all is_digit s then None
      else let v = (if neg then - int (digits_val s) else int (digits_val s))
           in if int64_range v then Some v else None)"

fun atoi :: "string \<Rightarrow> int option" where
  "atoi [] = None"
| "atoi (c # s) =
     (if c = CHR ''-'' then digits_int True s
      else if c = CHR ''+'' then digits_int False s
      else digits_int False (c # s))"

definition is_blank :: "char \<Rightarrow> bool" where
  "is_blank c \<longleftrightarrow> (of_char c :: nat) \<in> {9, 11, 12, 13, 32}"

definition sscanf_d :: "string \<Rightarrow> int option" where
  "sscanf_d v =
     (case dropWhile is_blank v of
        [] \<Rightarrow> None
      | c # s \<Rightarrow>
          if c = CHR ''-'' then digits_int True (takeWhile is_digit s)
          else if c = CHR ''+'' then digits_int False (takeWhile is_digit s)
          else digits_int False (takeWhile is_digit (c # s)))"

subsection \<open>What the decimal text looks like\<close>

lemma of_char_digit: "d < 10 \<Longrightarrow> (of_char (char_of (48 + d) :: char) :: nat) = 48 + d"
  by (simp add: of_char_of)

lemma show_nat_digits: "list_all is_digit (show_nat n)"
proof (induction n rule: show_nat.induct)
  case (1 n)
  have "is_digit (char_of (48 + d))" if "d < 10" for d :: nat
    using that by (simp add: is_digit_def of_char_digit)
  with 1 show ?case
    by (subst show_nat.simps) simp
qed

lemma show_nat_nonempty [simp]: "show_nat n \<noteq> []"
  by (subst show_nat.simps) simp

lemma digits_val_snoc: "digits_val (s @ [c]) = 10 * digits_val s + (of_char c - 48)"
  by (simp add: digits_val_def)

lemma digits_val_show_nat [simp]: "digits_val (show_nat n) = n"
proof (induction n rule: show_nat.induct)
  case (1 n)
  show ?case
  proof (cases "n < 10")
    case True
    then show ?thesis
      by (subst show_nat.simps) (simp add: digits_val_def of_char_digit)
  next
    case False
    with 1 have "digits_val (show_nat (n div 10)) = n div 10" by simp
    with False show ?thesis
      by (subst show_nat.simps) (simp add: digits_val_snoc of_char_digit)
  qed
qed

lemma show_nat_hd_digit: "is_digit (hd (show_nat n))"
  using show_nat_digits [of n] by (cases "show_nat n") auto

lemma digit_not_sign [simp]: "is_digit CHR ''-'' = False" "is_digit CHR ''+'' = False"
  "is_digit CHR '':'' = False"
  by (simp_all add: is_digit_def)

lemma digit_not_blank: "is_digit c \<Longrightarrow> \<not> is_blank c"
  by (auto simp: is_digit_def is_blank_def)

lemma digits_int_show_nat:
  "digits_int neg (show_nat n) =
     (let v = (if neg then - int n else int n) in if int64_range v then Some v else None)"
  by (simp add: digits_int_def show_nat_digits)

lemma show_int_no_colon: "CHR '':'' \<notin> set (show_int i)"
  using show_nat_digits [of "nat i"] show_nat_digits [of "nat (- i)"]
  by (auto simp: show_int_def list_all_iff)

subsection \<open>Round trips\<close>

lemma atoi_digits: "is_digit c \<Longrightarrow> atoi (c # s) = digits_int False (c # s)"
  by auto

lemma show_nat_Cons: obtains c s where "show_nat n = c # s" "is_digit c"
  using show_nat_nonempty [of n] show_nat_hd_digit [of n] by (cases "show_nat n") auto

lemma atoi_show_int: "int64_range i \<Longrightarrow> atoi (show_int i) = Some i"
proof (cases "i < 0")
  case True
  assume "int64_range i"
  with True show ?thesis by (simp add: show_int_def digits_int_show_nat)
next
  case False
  assume "int64_range i"
  obtain c s where "show_nat (nat i) = c # s" "is_digit c" by (rule show_nat_Cons)
  with False \<open>int64_range i\<close> show ?thesis
    using digits_int_show_nat [of False "nat i"] by (simp add: show_int_def atoi_digits del: atoi.simps)
qed

lemma takeWhile_digits [simp]: "takeWhile is_digit (show_nat n) = show_nat n"
  using show_nat_digits [of n] by (simp add: takeWhile_eq_all_conv list_all_iff)

lemma sscanf_show_int: "int64_range i \<Longrightarrow> sscanf_d (show_int i) = Some i"
proof (cases "i < 0")
  case True
  assume "int64_range i"
  with True show ?thesis
    by (simp add: show_int_def sscanf_d_def is_blank_def digits_int_show_nat)
next
  case False
  assume "int64_range i"
  obtain c s where cs: "show_nat (nat i) = c # s" "is_digit c" by (rule show_nat_Cons)
  have "\<forall>x\<in>set s. is_digit x"
    using cs show_nat_digits [of "nat i"] by (simp add: list_all_iff)
  with cs False \<open>int64_range i\<close> digits_int_show_nat [of False "nat i"] show ?thesis
    by (auto simp: show_int_def sscanf_d_def digit_not_blank takeWhile_eq_all_conv [THEN iffD2])
qed

lemma digits_val_show_int: "digits_val (show_int i) = nat i" if "0 \<le> i"
  using that by (simp add: show_int_def)

lemma show_int_inject [simp]: "show_int i = show_int j \<longleftrightarrow> i = j"
proof
  assume eq: "show_int i = show_int j"
  have neg: "hd (show_int k) = CHR ''-'' \<longleftrightarrow> k < 0" for k
    using show_nat_hd_digit [of "nat k"] by (auto simp: show_int_def)
  from eq neg [of i] neg [of j] have same: "i < 0 \<longleftrightarrow> j < 0" by simp
  show "i = j"
  proof (cases "i < 0")
    case True
    with eq same have "show_nat (nat (- i)) = show_nat (nat (- j))" by (simp add: show_int_def)
    then have "nat (- i) = nat (- j)" by (metis digits_val_show_nat)
    with True same show ?thesis by simp
  next
    case False
    with eq same have "nat i = nat j" by (metis digits_val_show_int linorder_not_le)
    with False same show ?thesis by simp
  qed
qed simp

text \<open>
  A text followed by a colon and a number can be split again: the number holds no colon.
\<close>

lemma last_colon_split:
  assumes "a @ CHR '':'' # b = c @ CHR '':'' # d"
    and "CHR '':'' \<notin> set b" and "CHR '':'' \<notin> set d"
  shows "a = c \<and> b = d"
proof -
  have tail: "takeWhile (\<lambda>x. x \<noteq> CHR '':'') (rev (x @ CHR '':'' # y)) = rev y"
    if "CHR '':'' \<notin> set y" for x y :: string
  proof -
    have "takeWhile (\<lambda>x. x \<noteq> CHR '':'') (rev y @ CHR '':'' # rev x) = rev y @ []"
      using that by (subst takeWhile_append2) auto
    then show ?thesis by simp
  qed
  from tail [OF assms(2), of a] tail [OF assms(3), of c] assms(1) have "b = d" by simp
  with assms(1) show ?thesis by simp
qed

end
