(* ===== verification/Go_Text.thy ===== *)
theory Go_Text
  imports Go_Numbers
begin

text \<open>
  Which byte strings are UTF-8 text (\<open>utf8.ValidString\<close>). Go strings are bytes, but a string
  that passes through \<open>encoding/json\<close> only comes back unchanged when it is valid UTF-8, so this
  predicate is part of what it means for a record to be storable. The lemmas: ASCII is valid,
  valid text is closed under concatenation, and so is every text the worker composes. Also the
  functions of package \<open>strings\<close> that cut at white space, and \<open>hex.EncodeToString\<close>.
\<close>

definition byte_in :: "nat \<Rightarrow> nat \<Rightarrow> char \<Rightarrow> bool" where
  "byte_in lo hi c \<longleftrightarrow> lo \<le> of_char c \<and> of_char c \<le> hi"

fun bytes_in :: "(nat \<times> nat) list \<Rightarrow> string \<Rightarrow> bool" where
  "bytes_in [] s \<longleftrightarrow> True"
| "bytes_in (r # rs) [] \<longleftrightarrow> False"
| "bytes_in ((lo, hi) # rs) (c # s) \<longleftrightarrow> byte_in lo hi c \<and> bytes_in rs s"

text \<open>The rows of the table of well-formed sequences (package \<open>unicode/utf8\<close>).\<close>

definition utf8_rows :: "(nat \<times> nat) list list" where
  "utf8_rows =
     [[(0x00, 0x7F)],
      [(0xC2, 0xDF), (0x80, 0xBF)],
      [(0xE0, 0xE0), (0xA0, 0xBF), (0x80, 0xBF)],
      [(0xE1, 0xEC), (0x80, 0xBF), (0x80, 0xBF)],
      [(0xED, 0xED), (0x80, 0x9F), (0x80, 0xBF)],
      [(0xEE, 0xEF), (0x80, 0xBF), (0x80, 0xBF)],
      [(0xF0, 0xF0), (0x90, 0xBF), (0x80, 0xBF), (0x80, 0xBF)],
      [(0xF1, 0xF3), (0x80, 0xBF), (0x80, 0xBF), (0x80, 0xBF)],
      [(0xF4, 0xF4), (0x80, 0x8F), (0x80, 0xBF), (0x80, 0xBF)]]"

text \<open>The width of the first rune; 0 when the text does not start with one.\<close>

definition rune_width :: "string \<Rightarrow> nat" where
  "rune_width s = (case find (\<lambda>row. bytes_in row s) utf8_rows of None \<Rightarrow> 0 | Some row \<Rightarrow> length row)"

function utf8_valid :: "string \<Rightarrow> bool" where
  "utf8_valid s = (if s = [] then True else if rune_width s = 0 then False
                   else utf8_valid (drop (rune_width s) s))"
  by auto
termination
  by (relation "measure length") auto

declare utf8_valid.simps [simp del]

lemma utf8_valid_Nil [simp]: "utf8_valid []"
  by (simp add: utf8_valid.simps)

lemma bytes_in_length: "bytes_in row s \<Longrightarrow> length row \<le> length s"
  by (induction row s rule: bytes_in.induct) auto

lemma bytes_in_append: "bytes_in row s \<Longrightarrow> bytes_in row (s @ t)"
  by (induction row s rule: bytes_in.induct) auto

text \<open>
  The rows exclude each other: which row a text starts with is decided by its first byte, so the
  row of a text stays the row of every extension.
\<close>

lemma byte_in_clash: "byte_in lo hi c \<Longrightarrow> byte_in lo' hi' c \<Longrightarrow> hi < lo' \<or> hi' < lo \<Longrightarrow> False"
  by (auto simp: byte_in_def)

lemma rows_heads: "row \<in> set utf8_rows \<Longrightarrow> row' \<in> set utf8_rows \<Longrightarrow> row \<noteq> row' \<Longrightarrow>
    snd (hd row) < fst (hd row') \<or> snd (hd row') < fst (hd row)"
  by (auto simp: utf8_rows_def)

lemma rows_nonempty: "row \<in> set utf8_rows \<Longrightarrow> row \<noteq> []"
  by (auto simp: utf8_rows_def)

lemma rows_unique:
  assumes "row \<in> set utf8_rows" "row' \<in> set utf8_rows" "bytes_in row s" "bytes_in row' s"
  shows "row = row'"
proof (rule ccontr)
  assume "row \<noteq> row'"
  obtain lo hi rs lo' hi' rs' where r: "row = (lo, hi) # rs" "row' = (lo', hi') # rs'"
    using rows_nonempty [OF assms(1)] rows_nonempty [OF assms(2)]
    by (metis neq_Nil_conv surj_pair)
  with assms(3,4) obtain c where "byte_in lo hi c" "byte_in lo' hi' c" by (cases s) auto
  moreover have "hi < lo' \<or> hi' < lo" using rows_heads [OF assms(1,2) \<open>row \<noteq> row'\<close>] r by simp
  ultimately show False by (rule byte_in_clash)
qed

lemma find_row: "row \<in> set utf8_rows \<Longrightarrow> bytes_in row s \<Longrightarrow> find (\<lambda>row. bytes_in row s) utf8_rows = Some row"
proof -
  assume row: "row \<in> set utf8_rows" "bytes_in row s"
  then obtain row' where f: "find (\<lambda>row. bytes_in row s) utf8_rows = Some row'"
    by (cases "find (\<lambda>row. bytes_in row s) utf8_rows") (auto simp: find_None_iff)
  then have "row' \<in> set utf8_rows" "bytes_in row' s" by (auto simp: find_Some_iff)
  with row f show ?thesis by (simp add: rows_unique)
qed

lemma rune_width_append: "rune_width s \<noteq> 0 \<Longrightarrow> rune_width (s @ t) = rune_width s"
proof -
  assume "rune_width s \<noteq> 0"
  then obtain row where f: "find (\<lambda>row. bytes_in row s) utf8_rows = Some row"
    by (auto simp: rune_width_def split: option.splits)
  then have "row \<in> set utf8_rows" "bytes_in row s" by (auto simp: find_Some_iff)
  then show ?thesis using f by (simp add: rune_width_def find_row [OF _ bytes_in_append])
qed

lemma rune_width_le: "rune_width s \<le> length s"
proof (cases "find (\<lambda>row. bytes_in row s) utf8_rows")
  case (Some row)
  then have "bytes_in row s" by (auto simp: find_Some_iff)
  with Some show ?thesis by (simp add: rune_width_def bytes_in_length)
qed (simp add: rune_width_def)

lemma utf8_valid_append [simp]:
  "utf8_valid s \<Longrightarrow> utf8_valid t \<Longrightarrow> utf8_valid (s @ t)"
proof (induction s rule: utf8_valid.induct)
  case (1 s)
  show ?case
  proof (cases "s = []")
    case False
    with 1(2) have w: "rune_width s \<noteq> 0" and v: "utf8_valid (drop (rune_width s) s)"
      by (auto simp: utf8_valid.simps [of s] split: if_splits)
    from 1(1) [OF False w v 1(3)] show ?thesis using False w
      by (simp add: utf8_valid.simps [of "s @ t"] rune_width_append rune_width_le)
  qed (use 1 in simp)
qed

lemma utf8_valid_ascii: "is_ascii s \<Longrightarrow> utf8_valid s"
proof (induction s)
  case (Cons c s)
  then have c: "(of_char c :: nat) < 128" and s: "utf8_valid s" by (simp_all add: is_ascii_def)
  from c have "bytes_in [(0x00, 0x7F)] (c # s)" by (simp add: byte_in_def)
  then have "rune_width (c # s) = 1"
    by (simp add: rune_width_def find_row [of "[(0x00, 0x7F)]"] utf8_rows_def)
  with s show ?case by (simp add: utf8_valid.simps [of "c # s"])
qed simp

lemma show_int_ascii: "is_ascii (show_int i)"
proof -
  have "is_ascii s" if "list_all is_digit s" for s
    using that by (auto simp: is_ascii_def is_digit_def list_all_iff)
  from this [OF show_nat_digits] show ?thesis by (simp add: show_int_def is_ascii_def)
qed

lemma utf8_valid_show_int [simp]: "utf8_valid (show_int i)"
  by (rule utf8_valid_ascii [OF show_int_ascii])

section \<open>White space\<close>

text \<open>
  The runes of \<open>unicode.IsSpace\<close> in UTF-8. No encoding is part of another and their first bytes
  occur in the middle of no rune, so looking for them byte by byte finds the runes.
\<close>

definition utf8_spaces :: "string list" where
  "utf8_spaces =
     map (\<lambda>n. [char_of n]) [9, 10, 11, 12, 13, 32 :: nat] @
     map (map char_of)
       ([[0xC2, 0x85], [0xC2, 0xA0], [0xE1, 0x9A, 0x80], [0xE2, 0x80, 0xA8], [0xE2, 0x80, 0xA9],
         [0xE2, 0x80, 0xAF], [0xE2, 0x81, 0x9F], [0xE3, 0x80, 0x80]] @
        map (\<lambda>n. [0xE2, 0x80, n]) [0x80 ..< 0x8B :: nat])"

definition space_width :: "string \<Rightarrow> nat" where
  "space_width s = (case find (\<lambda>sp. prefix sp s) utf8_spaces of None \<Rightarrow> 0 | Some sp \<Rightarrow> length sp)"

definition back_width :: "string \<Rightarrow> nat" where
  "back_width s = (case find (\<lambda>sp. prefix (rev sp) s) utf8_spaces of None \<Rightarrow> 0 | Some sp \<Rightarrow> length sp)"

function trim_with :: "(string \<Rightarrow> nat) \<Rightarrow> string \<Rightarrow> string" where
  "trim_with wd s = (if s = [] \<or> wd s = 0 then s else trim_with wd (drop (wd s) s))"
  by auto
termination
  by (relation "measure (length \<circ> snd)") auto

declare trim_with.simps [simp del]

text \<open>\<open>strings.TrimSpace\<close>: from the left, then, on the reversed bytes, from the right.\<close>

definition trim_space :: "string \<Rightarrow> string" where
  "trim_space s = rev (trim_with back_width (rev (trim_with space_width s)))"

text \<open>\<open>strings.Fields\<close>: the maximal runs without white space; \<open>acc\<close> is the run being read.\<close>

function fields_from :: "string \<Rightarrow> string \<Rightarrow> string list" where
  "fields_from acc s =
     (case s of
        [] \<Rightarrow> if acc = [] then [] else [acc]
      | c # r \<Rightarrow>
          if space_width s = 0 then fields_from (acc @ [c]) r
          else if acc = [] then fields_from [] (drop (space_width s) s)
          else acc # fields_from [] (drop (space_width s) s))"
  by pat_completeness auto
termination
  by (relation "measure (length \<circ> snd)") auto

declare fields_from.simps [simp del]

definition strings_fields :: "string \<Rightarrow> string list" where
  "strings_fields s = fields_from [] s"

lemma fields_from_nonempty: "[] \<notin> set (fields_from acc s)"
proof (induction acc s rule: fields_from.induct)
  case (1 acc s)
  then show ?case by (subst fields_from.simps) (auto split: list.splits)
qed

text \<open>A text with no white space is trimmed to itself and is one field.\<close>

definition solid :: "string \<Rightarrow> bool" where
  "solid s = list_all (\<lambda>c. 33 \<le> (of_char c :: nat) \<and> (of_char c :: nat) < 128) s"

lemma space_heads: "list_all (\<lambda>sp. sp \<noteq> [] \<and> \<not> (33 \<le> (of_char (hd sp) :: nat) \<and> (of_char (hd sp) :: nat) < 128)) utf8_spaces"
  by (simp add: utf8_spaces_def of_char_of upt_rec)

lemma space_width_solid:
  assumes "solid (c # s)"
  shows "space_width (c # s @ t) = 0"
proof -
  have "\<not> prefix sp (c # s @ t)" if "sp \<in> set utf8_spaces" for sp
  proof
    assume "prefix sp (c # s @ t)"
    moreover from that space_heads have "sp \<noteq> []" "\<not> (33 \<le> (of_char (hd sp) :: nat) \<and> (of_char (hd sp) :: nat) < 128)"
      by (auto simp: list_all_iff)
    ultimately show False using assms by (cases sp) (auto simp: solid_def)
  qed
  then have "find (\<lambda>sp. prefix sp (c # s @ t)) utf8_spaces = None" by (simp add: find_None_iff)
  then show ?thesis by (simp add: space_width_def)
qed

lemma fields_from_solid:
  "solid s \<Longrightarrow> fields_from acc (s @ t) = fields_from (acc @ s) t"
proof (induction s arbitrary: acc)
  case (Cons c s)
  then have "space_width (c # s @ t) = 0" by (intro space_width_solid)
  with Cons show ?case by (subst fields_from.simps) (simp add: solid_def)
qed simp

subsection \<open>Cutting valid text at a rune\<close>

lemma utf8_valid_drop: "utf8_valid a \<Longrightarrow> utf8_valid (a @ b) \<Longrightarrow> utf8_valid b"
proof (induction a rule: utf8_valid.induct)
  case (1 a)
  show ?case
  proof (cases "a = []")
    case False
    with 1(2) have w: "rune_width a \<noteq> 0" and v: "utf8_valid (drop (rune_width a) a)"
      by (auto simp: utf8_valid.simps [of a] split: if_splits)
    from 1(3) False w have "utf8_valid (drop (rune_width a) a @ b)"
      by (simp add: utf8_valid.simps [of "a @ b"] rune_width_append rune_width_le split: if_splits)
    with 1(1) [OF False w v] show ?thesis .
  qed (use 1 in simp)
qed

definition continuation :: "char \<Rightarrow> bool" where
  "continuation c = byte_in 0x80 0xBF c"

lemma rows_tails: "row \<in> set utf8_rows \<Longrightarrow> \<forall>(lo, hi) \<in> set (tl row). 0x80 \<le> lo \<and> hi \<le> 0xBF"
  by (auto simp: utf8_rows_def)

lemma bytes_in_split:
  "bytes_in row (a @ b) \<Longrightarrow> length row \<le> length a \<Longrightarrow> bytes_in row a"
  by (induction row a rule: bytes_in.induct) auto

lemma bytes_in_nth: "bytes_in row s \<Longrightarrow> i < length row \<Longrightarrow> byte_in (fst (row ! i)) (snd (row ! i)) (s ! i)"
proof (induction row s arbitrary: i rule: bytes_in.induct)
  case (3 lo hi rs c s)
  then show ?case by (cases i) auto
qed auto

lemma find_SomeD: "find P xs = Some x \<Longrightarrow> x \<in> set xs \<and> P x"
  by (induction xs) (auto split: if_splits)

lemma utf8_valid_take:
  assumes "utf8_valid (a @ b)" "b = [] \<or> \<not> continuation (hd b)"
  shows "utf8_valid a"
  using assms(1)
proof (induction a rule: length_induct)
  case (1 a)
  show ?case
  proof (cases "a = []")
    case False
    with 1(2) have w: "rune_width (a @ b) \<noteq> 0" and v: "utf8_valid (drop (rune_width (a @ b)) (a @ b))"
      by (auto simp: utf8_valid.simps [of "a @ b"] split: if_splits)
    then obtain row where row: "row \<in> set utf8_rows" "bytes_in row (a @ b)" "rune_width (a @ b) = length row"
      by (auto simp: rune_width_def dest: find_SomeD split: option.splits)
    show ?thesis
    proof (cases "length row \<le> length a")
      case True
      have wa: "rune_width a = length row"
        using find_row [OF row(1) bytes_in_split [OF row(2) True]] by (simp add: rune_width_def)
      have "length row \<noteq> 0" using w row(3) by simp
      with v row(3) True 1(1) False have "utf8_valid (drop (length row) a)" by simp
      with wa False \<open>length row \<noteq> 0\<close> show ?thesis by (simp add: utf8_valid.simps [of a])
    next
      case over: False
      then have b: "b \<noteq> []" using bytes_in_length [OF row(2)] by auto
      have "row ! length a \<in> set (tl row)"
        using over False by (cases row) (auto simp: nth_Cons split: nat.split)
      with rows_tails [OF row(1)] have "0x80 \<le> fst (row ! length a)" "snd (row ! length a) \<le> 0xBF" by auto
      with bytes_in_nth [OF row(2), of "length a"] over b have "continuation (hd b)"
        by (auto simp: continuation_def byte_in_def nth_append hd_conv_nth)
      with assms(2) b show ?thesis by simp
    qed
  qed simp
qed

lemma spaces_valid: "list_all (\<lambda>sp. utf8_valid sp \<and> sp \<noteq> [] \<and> \<not> continuation (hd sp)) utf8_spaces"
  by code_simp

lemma trim_left_valid: "utf8_valid s \<Longrightarrow> utf8_valid (trim_with space_width s)"
proof (induction space_width s rule: trim_with.induct)
  case (1 s)
  show ?case
  proof (cases "s = [] \<or> space_width s = 0")
    case False
    then obtain sp where sp: "sp \<in> set utf8_spaces" "prefix sp s" "space_width s = length sp"
      by (auto simp: space_width_def dest: find_SomeD split: option.splits)
    then obtain r where s: "s = sp @ r" by (auto simp: prefix_def)
    have "utf8_valid r" using utf8_valid_drop [of sp r] sp(1) spaces_valid 1(2) by (auto simp: s list_all_iff)
    with 1(1) [OF False] sp(3) s False show ?thesis by (subst trim_with.simps) simp
  qed (use 1 in \<open>auto simp: trim_with.simps\<close>)
qed

lemma trim_right_valid: "utf8_valid (rev s) \<Longrightarrow> utf8_valid (rev (trim_with back_width s))"
proof (induction back_width s rule: trim_with.induct)
  case (1 s)
  show ?case
  proof (cases "s = [] \<or> back_width s = 0")
    case False
    then obtain sp where sp: "sp \<in> set utf8_spaces" "prefix (rev sp) s" "back_width s = length sp"
      by (auto simp: back_width_def dest: find_SomeD split: option.splits)
    then obtain r where s: "s = rev sp @ r" by (auto simp: prefix_def)
    have "utf8_valid (rev r)"
      using utf8_valid_take [of "rev r" sp] sp(1) spaces_valid 1(2) by (auto simp: s list_all_iff)
    with 1(1) [OF False] sp(3) s False show ?thesis by (subst trim_with.simps) simp
  qed (use 1 in \<open>auto simp: trim_with.simps\<close>)
qed

lemma utf8_valid_trim_space [simp]: "utf8_valid s \<Longrightarrow> utf8_valid (trim_space s)"
  unfolding trim_space_def by (rule trim_right_valid) (simp add: trim_left_valid)

section \<open>Hexadecimal\<close>

definition hex_digit :: "nat \<Rightarrow> char" where
  "hex_digit n = (if n < 10 then char_of (48 + n) else char_of (87 + n))"

definition hex_encode :: "nat list \<Rightarrow> string" where
  "hex_encode bs = concat (map (\<lambda>b. [hex_digit (b div 16 mod 16), hex_digit (b mod 16)]) bs)"

definition is_hex :: "char \<Rightarrow> bool" where
  "is_hex c \<longleftrightarrow> 48 \<le> (of_char c :: nat) \<and> (of_char c :: nat) \<le> 57 \<or> 97 \<le> (of_char c :: nat) \<and> (of_char c :: nat) \<le> 102"

lemma hex_encode_length: "length (hex_encode bs) = 2 * length bs"
  by (induction bs) (simp_all add: hex_encode_def)

lemma hex_digit_range: "n < 16 \<Longrightarrow> is_hex (hex_digit n)"
  by (auto simp: hex_digit_def is_hex_def of_char_of)

lemma hex_encode_hex: "list_all is_hex (hex_encode bs)"
  by (induction bs) (simp_all add: hex_encode_def hex_digit_range)

lemma hex_digit_inject: "a < 16 \<Longrightarrow> b < 16 \<Longrightarrow> hex_digit a = hex_digit b \<longleftrightarrow> a = b"
proof
  assume ab: "a < 16" "b < 16" and eq: "hex_digit a = hex_digit b"
  have v: "(of_char (hex_digit n) :: nat) = (if n < 10 then 48 + n else 87 + n)" if "n < 16" for n
    using that by (simp add: hex_digit_def of_char_of)
  from arg_cong [OF eq, of "of_char :: char \<Rightarrow> nat"] v ab show "a = b" by (auto split: if_splits)
qed simp

lemma hex_encode_inject:
  "list_all (\<lambda>b. b < 256) bs \<Longrightarrow> list_all (\<lambda>b. b < 256) cs \<Longrightarrow> hex_encode bs = hex_encode cs \<longleftrightarrow> bs = cs"
proof (induction bs arbitrary: cs)
  case Nil
  then show ?case by (cases cs) (simp_all add: hex_encode_def)
next
  case (Cons b bs)
  show ?case
  proof (cases cs)
    case Nil
    then show ?thesis by (simp add: hex_encode_def)
  next
    case (Cons c cs')
    from Cons.prems \<open>cs = c # cs'\<close> have "b div 16 < 16" "c div 16 < 16"
      by (simp_all add: div_less_iff_less_mult)
    then have "b div 16 mod 16 = c div 16 mod 16 \<and> b mod 16 = c mod 16 \<longleftrightarrow> b = c"
      by (metis div_mult_mod_eq mod_less)
    with Cons.IH [of cs'] Cons.prems Cons show ?thesis
      by (simp add: hex_encode_def hex_digit_inject) blast
  qed
qed

lemma hex_solid: "list_all is_hex s \<Longrightarrow> solid s \<and> is_ascii s"
  by (auto simp: list_all_iff is_hex_def solid_def is_ascii_def)

end
