(* ===== verification/Job_Model.thy ===== *)
theory Job_Model
  imports Go_Text
begin

text \<open>
  The types of \<open>internal/model\<close>: what the broker, the queue, the worker and the control plane
  share. \<open>Status\<close>, \<open>ResourceType\<close> and \<open>Action\<close> are named string types in the source (a record
  read back from Redis may hold any string), so they are strings here too, with the source's
  constants. The documented life cycle is the relation \<open>lifecycle_doc\<close>; what the handlers
  really do to a status is stated in the worker's and the broker's theories. \<open>job_ok\<close> says which
  jobs a JSON text can carry.
\<close>

section \<open>Status and resource type\<close>

type_synonym status = string
type_synonym resourceType = string

definition StatusPending :: status where "StatusPending = ''pending''"
definition StatusProvisioning :: status where "StatusProvisioning = ''provisioning''"
definition StatusReady :: status where "StatusReady = ''ready''"
definition StatusFailed :: status where "StatusFailed = ''failed''"
definition StatusDeleting :: status where "StatusDeleting = ''deleting''"
definition StatusDeleted :: status where "StatusDeleted = ''deleted''"
definition ResourcePostgres :: resourceType where "ResourcePostgres = ''postgres''"

lemmas status_defs = StatusPending_def StatusProvisioning_def StatusReady_def StatusFailed_def
  StatusDeleting_def StatusDeleted_def

lemma statuses_distinct:
  "distinct [StatusPending, StatusProvisioning, StatusReady, StatusFailed, StatusDeleting,
     StatusDeleted]"
  by (simp add: status_defs)

lemma status_neq [simp]:
  "StatusPending \<noteq> StatusProvisioning" "StatusPending \<noteq> StatusReady" "StatusPending \<noteq> StatusFailed"
  "StatusPending \<noteq> StatusDeleting" "StatusPending \<noteq> StatusDeleted"
  "StatusProvisioning \<noteq> StatusPending" "StatusProvisioning \<noteq> StatusReady"
  "StatusProvisioning \<noteq> StatusFailed" "StatusProvisioning \<noteq> StatusDeleting"
  "StatusProvisioning \<noteq> StatusDeleted"
  "StatusReady \<noteq> StatusPending" "StatusReady \<noteq> StatusProvisioning" "StatusReady \<noteq> StatusFailed"
  "StatusReady \<noteq> StatusDeleting" "StatusReady \<noteq> StatusDeleted"
  "StatusFailed \<noteq> StatusPending" "StatusFailed \<noteq> StatusProvisioning" "StatusFailed \<noteq> StatusReady"
  "StatusFailed \<noteq> StatusDeleting" "StatusFailed \<noteq> StatusDeleted"
  "StatusDeleting \<noteq> StatusPending" "StatusDeleting \<noteq> StatusProvisioning"
  "StatusDeleting \<noteq> StatusReady" "StatusDeleting \<noteq> StatusFailed" "StatusDeleting \<noteq> StatusDeleted"
  "StatusDeleted \<noteq> StatusPending" "StatusDeleted \<noteq> StatusProvisioning"
  "StatusDeleted \<noteq> StatusReady" "StatusDeleted \<noteq> StatusFailed" "StatusDeleted \<noteq> StatusDeleting"
  using statuses_distinct by auto

section \<open>Requests, jobs and endpoints\<close>

text \<open>A time is the number of nanoseconds since the Unix epoch (UTC).\<close>

type_synonym time = int
type_synonym duration = int

abbreviation millisecond :: duration where "millisecond \<equiv> 1000000"
abbreviation second :: duration where "second \<equiv> 1000000000"
abbreviation minute :: duration where "minute \<equiv> 60000000000"

record provisionRequest =
  req_ServiceName :: string
  req_Resource :: resourceType

record connectionInfo =
  conn_Host :: string
  conn_Port :: int
  conn_Username :: string
  conn_Password :: string
  conn_Database :: string

record httpEndpoint =
  http_Host :: string
  http_Port :: int

record job =
  job_ID :: string
  job_ServiceName :: string
  job_Resource :: resourceType
  job_Status :: status
  job_Detail :: string
  job_Attempts :: int
  job_Connection :: "connectionInfo option"
  job_HTTP :: "httpEndpoint option"
  job_CreatedAt :: time
  job_UpdatedAt :: time

section \<open>Jobs that JSON can carry\<close>

text \<open>
  \<open>encoding/json\<close> writes and reads back a job unchanged when its texts are UTF-8 (anything else is
  replaced by U+FFFD), its integers are Go integers, and its times have a year of at most four
  digits (\<open>Time.MarshalJSON\<close> refuses others).
\<close>

definition time_ok :: "time \<Rightarrow> bool" where
  "time_ok t \<longleftrightarrow> - 62167219200 * second \<le> t \<and> t < 253402300800 * second"

definition conn_ok :: "connectionInfo \<Rightarrow> bool" where
  "conn_ok c \<longleftrightarrow> utf8_valid (conn_Host c) \<and> int64_range (conn_Port c) \<and> utf8_valid (conn_Username c) \<and>
     utf8_valid (conn_Password c) \<and> utf8_valid (conn_Database c)"

definition http_ok :: "httpEndpoint \<Rightarrow> bool" where
  "http_ok h \<longleftrightarrow> utf8_valid (http_Host h) \<and> int64_range (http_Port h)"

definition job_ok :: "job \<Rightarrow> bool" where
  "job_ok j \<longleftrightarrow> utf8_valid (job_ID j) \<and> utf8_valid (job_ServiceName j) \<and> utf8_valid (job_Resource j) \<and>
     utf8_valid (job_Status j) \<and> utf8_valid (job_Detail j) \<and> int64_range (job_Attempts j) \<and>
     pred_option conn_ok (job_Connection j) \<and> pred_option http_ok (job_HTTP j) \<and>
     time_ok (job_CreatedAt j) \<and> time_ok (job_UpdatedAt j)"

lemma utf8_valid_status [simp]:
  "utf8_valid StatusPending" "utf8_valid StatusProvisioning" "utf8_valid StatusReady"
  "utf8_valid StatusFailed" "utf8_valid StatusDeleting" "utf8_valid StatusDeleted"
  by (rule utf8_valid_ascii, simp add: status_defs is_ascii_def)+

text \<open>The updates the program makes keep a job storable.\<close>

lemma job_ok_updates [simp]:
  "job_ok j \<Longrightarrow> int64_range a \<Longrightarrow> job_ok (j\<lparr>job_Attempts := a\<rparr>)"
  "job_ok j \<Longrightarrow> utf8_valid s \<Longrightarrow> job_ok (j\<lparr>job_Status := s\<rparr>)"
  "job_ok j \<Longrightarrow> utf8_valid d \<Longrightarrow> job_ok (j\<lparr>job_Detail := d\<rparr>)"
  "job_ok j \<Longrightarrow> time_ok t \<Longrightarrow> job_ok (j\<lparr>job_UpdatedAt := t\<rparr>)"
  "job_ok j \<Longrightarrow> pred_option conn_ok c \<Longrightarrow> job_ok (j\<lparr>job_Connection := c\<rparr>)"
  "job_ok j \<Longrightarrow> pred_option http_ok h \<Longrightarrow> job_ok (j\<lparr>job_HTTP := h\<rparr>)"
  by (simp_all add: job_ok_def)

section \<open>The documented life cycle\<close>

text \<open>The diagram in the comment on \<open>Status\<close>.\<close>

inductive lifecycle_doc :: "status \<Rightarrow> status \<Rightarrow> bool" where
  start: "lifecycle_doc StatusPending StatusProvisioning"
| done_: "lifecycle_doc StatusProvisioning StatusReady"
| fail: "lifecycle_doc StatusProvisioning StatusFailed"
| teardown: "lifecycle_doc StatusReady StatusDeleting"
| gone: "lifecycle_doc StatusDeleting StatusDeleted"

inductive_simps lifecycle_doc_iff: "lifecycle_doc s t"

lemma deleted_is_final: "\<not> lifecycle_doc StatusDeleted s"
  by (simp add: lifecycle_doc_iff)

end
