(* ===== verification/Go_Map.thy ===== *)
theory Go_Map
  imports Infra_Prelude
begin

text \<open>
  Go's built-in map as an association list with distinct keys. A \<open>range\<close> loop visits the
  entries in an order Go leaves open, so every definition that ranges over a map takes that
  order as an argument \<open>rng\<close>, a function that permutes the entries (\<open>range_order\<close>). What a
  component promises must hold for every such \<open>rng\<close>.
\<close>

type_synonym ('k, 'v) gomap = "('k \<times> 'v) list"

definition gm_wf :: "('k, 'v) gomap \<Rightarrow> bool" where
  "gm_wf m = distinct (map fst m)"

definition gm_get :: "('k, 'v) gomap \<Rightarrow> 'k \<Rightarrow> 'v option" where
  "gm_get m = map_of m"

definition gm_put :: "'k \<Rightarrow> 'v \<Rightarrow> ('k, 'v) gomap \<Rightarrow> ('k, 'v) gomap" where
  "gm_put k v m = AList.update k v m"

definition gm_del :: "'k \<Rightarrow> ('k, 'v) gomap \<Rightarrow> ('k, 'v) gomap" where
  "gm_del k m = AList.delete k m"

definition range_order :: "(('k, 'v) gomap \<Rightarrow> ('k, 'v) gomap) \<Rightarrow> bool" where
  "range_order rng = (\<forall>m. mset (rng m) = mset m)"

lemma range_order_id [simp]: "range_order (\<lambda>m. m)" "range_order id" "range_order rev"
  by (simp_all add: range_order_def)

lemma gm_wf_empty [simp]: "gm_wf []"
  by (simp add: gm_wf_def)

lemma gm_get_empty [simp]: "gm_get [] k = None"
  by (simp add: gm_get_def)

lemma gm_wf_put [simp]: "gm_wf m \<Longrightarrow> gm_wf (gm_put k v m)"
  by (simp add: gm_wf_def gm_put_def distinct_update)

lemma gm_wf_del [simp]: "gm_wf m \<Longrightarrow> gm_wf (gm_del k m)"
  by (simp add: gm_wf_def gm_del_def distinct_delete)

lemma gm_get_put [simp]: "gm_get (gm_put k v m) = (gm_get m)(k \<mapsto> v)"
  by (simp add: gm_get_def gm_put_def update_conv' fun_eq_iff)

lemma gm_get_del [simp]: "gm_get (gm_del k m) = (gm_get m)(k := None)"
  by (simp add: gm_get_def gm_del_def delete_conv' fun_eq_iff)

lemma gm_put_nonempty [simp]: "gm_put k v m \<noteq> []"
  by (simp add: gm_put_def)

lemma gm_put_put [simp]: "gm_put k v (gm_put k u m) = gm_put k v m"
  by (simp add: gm_put_def)

lemma gm_del_empty [simp]: "gm_del k [] = []"
  by (simp add: gm_del_def)

lemma gm_get_set: "gm_wf m \<Longrightarrow> gm_get m k = Some v \<longleftrightarrow> (k, v) \<in> set m"
  by (simp add: gm_wf_def gm_get_def)

lemma gm_dom: "dom (gm_get m) = fst ` set m"
  by (simp add: gm_get_def dom_map_of_conv_image_fst)

lemma gm_len_card: "gm_wf m \<Longrightarrow> length m = card (dom (gm_get m))"
  by (metis distinct_card gm_dom gm_wf_def image_set length_map)

lemma gm_finite_dom [simp]: "finite (dom (gm_get m))"
  by (simp add: gm_dom)

lemma gm_empty_iff: "m = [] \<longleftrightarrow> gm_get m = Map.empty"
  by (cases m) (auto simp: gm_get_def fun_eq_iff)

lemma range_order_set: "range_order rng \<Longrightarrow> set (rng m) = set m"
  by (metis range_order_def mset_eq_setD)

lemma range_order_length: "range_order rng \<Longrightarrow> length (rng m) = length m"
  by (metis range_order_def size_mset)

lemma range_order_mset_map: "range_order rng \<Longrightarrow> mset (map f (rng m)) = mset (map f m)"
  by (simp add: range_order_def)

lemma range_order_wf: "range_order rng \<Longrightarrow> gm_wf (rng m) = gm_wf m"
  by (metis gm_wf_def mset_eq_imp_distinct_iff range_order_mset_map)

text \<open>Ranging over a map and sorting what the loop collects forgets the order of the range.\<close>

lemma sort_range:
  fixes f :: "'k \<times> 'v \<Rightarrow> 'b::linorder"
  assumes "range_order rng"
  shows "sort (map f (rng m)) = sort (map f m)"
proof (rule properties_for_sort)
  show "mset (sort (map f m)) = mset (map f (rng m))"
    using range_order_mset_map [OF assms, of f m] by simp
qed simp

lemma gm_get_range: "range_order rng \<Longrightarrow> gm_wf m \<Longrightarrow> gm_get (rng m) = gm_get m"
  using range_order_wf [of rng m] range_order_set [of rng m] map_of_inject_set [of "rng m" m]
  by (simp add: gm_get_def gm_wf_def)

text \<open>Two maps with the same entries have the same sorted keys.\<close>

lemma sort_keys_cong:
  fixes m n :: "('k::linorder, 'v) gomap"
  assumes "gm_wf m" "gm_wf n" "dom (gm_get m) = dom (gm_get n)"
  shows "sort (map fst m) = sort (map fst n)"
proof (rule sorted_distinct_set_unique)
  show "set (sort (map fst m)) = set (sort (map fst n))"
    using assms(3) by (simp add: gm_dom)
qed (use assms in \<open>simp_all add: gm_wf_def\<close>)

lemma set_sort_keys [simp]: "set (sort (map fst m)) = dom (gm_get (m :: ('k::linorder, 'v) gomap))"
  by (simp add: gm_dom)

end
