(* ===== verification/Interfaces.thy ===== *)
theory Interfaces
  imports Job_Model Go_Map
begin

text \<open>
  The Go interfaces between the packages, each as a record of functions over a world type
  \<open>'w\<close>: \<open>store.Store\<close>, \<open>queue.Queue\<close>, \<open>provisioner.Provisioner\<close>, \<open>xdsclient.Client\<close>. A value of
  such a record is an implementation. The clock, the random source and the context are the
  record \<open>sys_if\<close>. What the packages on either side may rely on is stated by locales in the
  theories of the packages that define the interfaces.
\<close>

section \<open>Store\<close>

record 'w store_if =
  store_Put :: "job \<Rightarrow> ('w, goerr option) state"
  store_Get :: "string \<Rightarrow> ('w, goerr + job) state"
  store_List :: "('w, goerr + job list) state"

section \<open>Queue\<close>

type_synonym action = string

definition ActionProvision :: action where "ActionProvision = ''provision''"
definition ActionDeprovision :: action where "ActionDeprovision = ''deprovision''"

lemma action_neq [simp]: "ActionProvision \<noteq> ActionDeprovision" "ActionDeprovision \<noteq> ActionProvision"
  "ActionProvision \<noteq> []" "ActionDeprovision \<noteq> []"
  by (simp_all add: ActionProvision_def ActionDeprovision_def)

record message =
  msg_ID :: string
  msg_JobID :: string
  msg_Action :: action

record deadEntry =
  de_StreamID :: string
  de_JobID :: string
  de_Action :: action
  de_Detail :: string
  de_Attempts :: int
  de_Timestamp :: time

record 'w queue_if =
  queue_Enqueue :: "string \<Rightarrow> action \<Rightarrow> ('w, goerr option) state"
  queue_Dequeue :: "string \<Rightarrow> duration \<Rightarrow> ('w, goerr + message option) state"
  queue_Reclaim :: "string \<Rightarrow> duration \<Rightarrow> int \<Rightarrow> ('w, goerr + message list) state"
  queue_Ack :: "message \<Rightarrow> ('w, goerr option) state"
  queue_DeadLetter :: "message \<Rightarrow> string \<Rightarrow> int \<Rightarrow> ('w, goerr option) state"
  queue_ListDead :: "int \<Rightarrow> ('w, goerr + deadEntry list) state"

section \<open>Provisioner\<close>

text \<open>
  \<open>Result\<close> holds two pointers and \<open>Provision\<close> returns a pointer next to an error, so each of
  the three may be nil. \<open>Provision\<close> may also end in a panic.
\<close>

record result =
  res_Connection :: "connectionInfo option"
  res_HTTP :: "httpEndpoint option"

record 'w prov_if =
  prov_Provision :: "job \<Rightarrow> ('w, (result option \<times> goerr option) go) state"
  prov_Deprovision :: "job \<Rightarrow> ('w, goerr option) state"

section \<open>The control plane's client\<close>

record 'w xds_if =
  xds_Register :: "string \<Rightarrow> string \<Rightarrow> int \<Rightarrow> ('w, goerr option) state"
  xds_Unregister :: "string \<Rightarrow> string \<Rightarrow> int \<Rightarrow> ('w, goerr option) state"

section \<open>Runtime: clock, randomness, context\<close>

record 'w sys_if =
  sys_now :: "('w, time) state"
  sys_rand :: "nat \<Rightarrow> ('w, nat list) state"
  sys_ctx_err :: "('w, goerr option) state"
  sys_sleep :: "duration \<Rightarrow> ('w, unit) state"

section \<open>Observing calls\<close>

text \<open>
  An event is one call on an interface with its result. Wrapping an implementation so that it
  writes its calls down lets the order of calls be stated, whatever the implementation is.
\<close>

datatype event =
    EvGet string
  | EvPut job "goerr option"
  | EvEnqueue string action "goerr option"
  | EvAck message "goerr option"
  | EvDeadLetter message string int "goerr option"
  | EvProvision job "result option" "goerr option"
  | EvProvisionPanic job
  | EvDeprovision job "goerr option"
  | EvRegister string string int
  | EvUnregister string string int

definition logged :: "('a \<Rightarrow> event) \<Rightarrow> ('w, 'a) state \<Rightarrow> ('w \<times> event list, 'a) state" where
  "logged ev m = State (\<lambda>(w, tr). case run_state m w of (a, w') \<Rightarrow> (a, (w', tr @ [ev a])))"

definition unlogged :: "('w, 'a) state \<Rightarrow> ('w \<times> event list, 'a) state" where
  "unlogged m = State (\<lambda>(w, tr). case run_state m w of (a, w') \<Rightarrow> (a, (w', tr)))"

lemma wp_logged [simp, wp_rules]:
  "wp (logged ev m) Q s = wp m (\<lambda>a w'. Q a (w', snd s @ [ev a])) (fst s)"
  by (simp add: wp_def logged_def split: prod.splits)

lemma wp_unlogged [simp, wp_rules]: "wp (unlogged m) Q s = wp m (\<lambda>a w'. Q a (w', snd s)) (fst s)"
  by (simp add: wp_def unlogged_def split: prod.splits)

definition traced_store :: "'w store_if \<Rightarrow> ('w \<times> event list) store_if" where
  "traced_store st =
     \<lparr>store_Put = (\<lambda>j. logged (EvPut j) (store_Put st j)),
      store_Get = (\<lambda>id. logged (\<lambda>_. EvGet id) (store_Get st id)),
      store_List = unlogged (store_List st)\<rparr>"

definition traced_queue :: "'w queue_if \<Rightarrow> ('w \<times> event list) queue_if" where
  "traced_queue q =
     \<lparr>queue_Enqueue = (\<lambda>id a. logged (EvEnqueue id a) (queue_Enqueue q id a)),
      queue_Dequeue = (\<lambda>c b. unlogged (queue_Dequeue q c b)),
      queue_Reclaim = (\<lambda>c d n. unlogged (queue_Reclaim q c d n)),
      queue_Ack = (\<lambda>m. logged (EvAck m) (queue_Ack q m)),
      queue_DeadLetter = (\<lambda>m d n. logged (EvDeadLetter m d n) (queue_DeadLetter q m d n)),
      queue_ListDead = (\<lambda>n. unlogged (queue_ListDead q n))\<rparr>"

definition prov_event :: "job \<Rightarrow> (result option \<times> goerr option) go \<Rightarrow> event" where
  "prov_event j x = (case x of Ret (r, e) \<Rightarrow> EvProvision j r e | Panic \<Rightarrow> EvProvisionPanic j)"

lemma prov_event_simps [simp]:
  "prov_event j (Ret (r, e)) = EvProvision j r e" "prov_event j Panic = EvProvisionPanic j"
  by (simp_all add: prov_event_def)

definition traced_prov :: "'w prov_if \<Rightarrow> ('w \<times> event list) prov_if" where
  "traced_prov p =
     \<lparr>prov_Provision = (\<lambda>j. logged (prov_event j) (prov_Provision p j)),
      prov_Deprovision = (\<lambda>j. logged (EvDeprovision j) (prov_Deprovision p j))\<rparr>"

definition traced_xds :: "'w xds_if \<Rightarrow> ('w \<times> event list) xds_if" where
  "traced_xds x =
     \<lparr>xds_Register = (\<lambda>s h p. logged (\<lambda>_. EvRegister s h p) (xds_Register x s h p)),
      xds_Unregister = (\<lambda>s h p. logged (\<lambda>_. EvUnregister s h p) (xds_Unregister x s h p))\<rparr>"

definition traced_sys :: "'w sys_if \<Rightarrow> ('w \<times> event list) sys_if" where
  "traced_sys y =
     \<lparr>sys_now = unlogged (sys_now y), sys_rand = (\<lambda>n. unlogged (sys_rand y n)),
      sys_ctx_err = unlogged (sys_ctx_err y), sys_sleep = (\<lambda>d. unlogged (sys_sleep y d))\<rparr>"

lemmas traced_defs = traced_store_def traced_queue_def traced_prov_def traced_xds_def traced_sys_def

subsection \<open>Observing changes nothing\<close>

text \<open>\<open>sim m mt\<close>: \<open>mt\<close> does what \<open>m\<close> does and only appends to the trace.\<close>

definition sim :: "('w, 'a) state \<Rightarrow> ('w \<times> event list, 'a) state \<Rightarrow> bool" where
  "sim m mt \<longleftrightarrow> (\<forall>w tr. \<exists>new. run_state mt (w, tr) =
     (fst (run_state m w), (snd (run_state m w), tr @ new)))"

named_theorems sim_intros \<open>how the simulation passes through the monad\<close>

lemma sim_return [sim_intros]: "sim (State_Monad.return a) (State_Monad.return a)"
  by (simp add: sim_def)

lemma sim_bind [sim_intros]:
  assumes "sim m mt" "\<And>a. sim (f a) (ft a)"
  shows "sim (State_Monad.bind m f) (State_Monad.bind mt ft)"
  unfolding sim_def
proof (intro allI)
  fix w tr
  obtain a w1 where m: "run_state m w = (a, w1)" by fastforce
  from assms(1) m obtain new1 where "run_state mt (w, tr) = (a, (w1, tr @ new1))"
    unfolding sim_def by (metis fst_conv snd_conv)
  moreover from assms(2) obtain new2 where "run_state (ft a) (w1, tr @ new1) =
      (fst (run_state (f a) w1), (snd (run_state (f a) w1), (tr @ new1) @ new2))"
    unfolding sim_def by blast
  ultimately have "run_state (State_Monad.bind mt ft) (w, tr) =
      (fst (run_state (f a) w1), (snd (run_state (f a) w1), tr @ new1 @ new2))" by simp
  with m show "\<exists>new. run_state (State_Monad.bind mt ft) (w, tr) =
      (fst (run_state (State_Monad.bind m f) w), (snd (run_state (State_Monad.bind m f) w), tr @ new))"
    by simp
qed

lemma sim_if [sim_intros]:
  "(b \<Longrightarrow> sim m mt) \<Longrightarrow> (\<not> b \<Longrightarrow> sim n nt) \<Longrightarrow> sim (if b then m else n) (if b then mt else nt)"
  by simp

lemma sim_case_sum [sim_intros]:
  "(\<And>a. sim (f a) (ft a)) \<Longrightarrow> (\<And>b. sim (g b) (gt b)) \<Longrightarrow>
     sim (case x of Inl a \<Rightarrow> f a | Inr b \<Rightarrow> g b) (case x of Inl a \<Rightarrow> ft a | Inr b \<Rightarrow> gt b)"
  by (simp split: sum.split)

lemma sim_case_option [sim_intros]:
  "sim m mt \<Longrightarrow> (\<And>b. sim (g b) (gt b)) \<Longrightarrow>
     sim (case x of None \<Rightarrow> m | Some b \<Rightarrow> g b) (case x of None \<Rightarrow> mt | Some b \<Rightarrow> gt b)"
  by (simp split: option.split)

lemma sim_case_prod [sim_intros]:
  "(\<And>a b. sim (f a b) (ft a b)) \<Longrightarrow> sim (case x of (a, b) \<Rightarrow> f a b) (case x of (a, b) \<Rightarrow> ft a b)"
  by (simp split: prod.split)

lemma sim_case_go [sim_intros]:
  "(\<And>a. sim (f a) (ft a)) \<Longrightarrow> sim m mt \<Longrightarrow>
     sim (case x of Ret a \<Rightarrow> f a | Panic \<Rightarrow> m) (case x of Ret a \<Rightarrow> ft a | Panic \<Rightarrow> mt)"
  by (simp split: go.split)

lemma sim_logged [sim_intros]: "sim m (logged ev m)"
  by (simp add: sim_def logged_def split: prod.splits)

lemma sim_unlogged [sim_intros]: "sim m (unlogged m)"
  by (simp add: sim_def unlogged_def split: prod.splits)

lemma sim_run:
  assumes "sim m mt" "run_state mt (w, tr) = (a, (w', tr'))"
  shows "run_state m w = (a, w')"
proof -
  from assms obtain new where "(a, (w', tr')) = (fst (run_state m w), (snd (run_state m w), tr @ new))"
    unfolding sim_def by metis
  then show ?thesis by (simp add: prod_eq_iff)
qed

end
