(* ===== verification/Provisioner.thy ===== *)
theory Provisioner
  imports Interfaces
begin

text \<open>
  \<open>internal/provisioner\<close>: \<open>Classify\<close> and the \<open>Shell\<close> provisioner, which drives the docker command
  line. What a command prints, and what the readiness probe answers, is the record \<open>docker_if\<close>, an
  argument, as are the decoder of \<open>docker inspect\<close>'s output, \<open>strconv.Quote\<close> and the tables of
  \<open>unicode.ToLower\<close>. The two polling loops take a bound on their rounds (\<open>sh_rounds\<close> where they are
  called), with \<open>None\<close> for a loop that has not ended, which \<open>Provision\<close> shows as the loop's timeout;
  how many rounds are enough for this never to happen is shown in \<open>Provisioner_Laws\<close>. A nil \<open>*inspect\<close> is
  \<open>None\<close>, and reading it is a panic.
\<close>

section \<open>Classification of errors\<close>

definition transientPatterns :: "string list" where
  "transientPatterns =
     [''cannot connect to the docker daemon'', ''context deadline exceeded'', ''i/o timeout'',
      ''connection refused'', ''network is unreachable'', ''no such host'',
      ''temporary failure in name resolution'', ''docker daemon'']"

definition Classify :: "(string \<Rightarrow> string) \<Rightarrow> goerr option \<Rightarrow> goerr option" where
  "Classify uni err =
     (case err of
        None \<Rightarrow> None
      | Some e \<Rightarrow>
          (let s = to_lower uni (err_msg e)
           in if list_ex (contains s) transientPatterns
              then Some (WrapErr (sentinel_msg ErrTransient @ '': '' @ err_msg e) (Sentinel ErrTransient))
              else Some e))"

section \<open>Docker and the probe\<close>

text \<open>
  The outcome of a command: what it printed, its standard error where it was kept apart, and the
  error of \<open>exec\<close>, with whether that error is an \<open>*exec.ExitError\<close>.
\<close>

record cmd_out =
  co_out :: string
  co_stderr :: string
  co_err :: "goerr option"
  co_exit :: bool

record binding =
  HostIp :: string
  HostPort :: string

record inspect =
  in_Running :: bool
  in_Env :: "string list"
  in_Ports :: "(string, binding list) gomap"

record 'w docker_if =
  dk_Output :: "string list \<Rightarrow> ('w, cmd_out) state"
  dk_CombinedOutput :: "string list \<Rightarrow> ('w, cmd_out) state"
  dk_Run :: "string list \<Rightarrow> ('w, goerr option) state"
  hc_Get :: "string \<Rightarrow> ('w, (goerr + int) go) state"

record 'w shell =
  sh_postgresImage :: string
  sh_echoImage :: string
  sh_docker :: "'w docker_if"
  sh_sys :: "'w sys_if"
  sh_decode :: "string \<Rightarrow> goerr + inspect list"
  sh_quote :: "string \<Rightarrow> string"
  sh_lower :: "string \<Rightarrow> string"
  sh_rounds :: nat

definition NewShell ::
  "'w docker_if \<Rightarrow> 'w sys_if \<Rightarrow> (string \<Rightarrow> goerr + inspect list) \<Rightarrow> (string \<Rightarrow> string) \<Rightarrow>
   (string \<Rightarrow> string) \<Rightarrow> nat \<Rightarrow> 'w shell" where
  "NewShell D Y dec qu uni n =
     \<lparr>sh_postgresImage = ''postgres:16-alpine'', sh_echoImage = ''infraforge/echo:dev'', sh_docker = D,
      sh_sys = Y, sh_decode = dec, sh_quote = qu, sh_lower = uni, sh_rounds = n\<rparr>"

text \<open>\<open>fmt.Errorf("<pre>: %w: %s", err, suf)\<close>.\<close>

definition errorf_ws :: "string \<Rightarrow> goerr \<Rightarrow> string \<Rightarrow> goerr" where
  "errorf_ws pre e suf = WrapErr (pre @ '': '' @ err_msg e @ '': '' @ suf) e"

section \<open>Names and credentials\<close>

definition postgresName :: "job \<Rightarrow> string" where
  "postgresName j = ''infraforge-pg-'' @ job_ID j"

definition httpName :: "job \<Rightarrow> string" where
  "httpName j = ''infraforge-svc-'' @ job_ID j"

text \<open>
  \<open>sanitize\<close> keeps some ASCII characters and drops the rest, so going over the bytes of the lower-cased
  name does what the source's loop over its runes does.
\<close>

definition is_ident :: "char \<Rightarrow> bool" where
  "is_ident c \<longleftrightarrow> 97 \<le> (of_char c :: nat) \<and> (of_char c :: nat) \<le> 122 \<or> is_digit c \<or> c = CHR ''_''"

fun sanitize_loop :: "string \<Rightarrow> string \<Rightarrow> string" where
  "sanitize_loop b [] = b"
| "sanitize_loop b (r # s) =
     (let b' = (if is_ident r then b @ [r]
                else if r = CHR ''-'' \<or> r = CHR '' '' then b @ [CHR ''_''] else b)
      in if length b' \<ge> 32 then b' else sanitize_loop b' s)"

definition sanitize :: "(string \<Rightarrow> string) \<Rightarrow> string \<Rightarrow> string" where
  "sanitize uni s =
     (let b = sanitize_loop [] (to_lower uni s) in if length b = 0 then ''app'' else b)"

definition randHex :: "'w sys_if \<Rightarrow> nat \<Rightarrow> ('w, string) state" where
  "randHex Y n = do { b \<leftarrow> sys_rand Y n; State_Monad.return (hex_encode b) }"

record creds =
  cr_user :: string
  cr_pass :: string
  cr_db :: string

definition newCreds :: "'w shell \<Rightarrow> job \<Rightarrow> ('w, creds) state" where
  "newCreds p j =
     do {
       u \<leftarrow> randHex (sh_sys p) 8;
       w \<leftarrow> randHex (sh_sys p) 16;
       State_Monad.return \<lparr>cr_user = ''u_'' @ u, cr_pass = w,
         cr_db = ''app_'' @ sanitize (sh_lower p) (job_ServiceName j)\<rparr>
     }"

section \<open>Inspecting containers\<close>

definition dockerInspect :: "'w shell \<Rightarrow> string \<Rightarrow> ('w, (goerr + inspect option \<times> bool) go) state" where
  "dockerInspect p name =
     do {
       c \<leftarrow> dk_Output (sh_docker p) [''inspect'', name];
       State_Monad.return (Ret
         (case co_err c of
            Some err \<Rightarrow>
              (let stderr = (if co_exit c then co_stderr c else [])
               in if co_exit c \<and> contains (to_lower (sh_lower p) stderr) ''no such''
                  then Inr (None, False)
                  else Inl (errorf_ws (''docker inspect '' @ name) err (trim_space stderr)))
          | None \<Rightarrow>
              (case sh_decode p (co_out c) of
                 Inl err \<Rightarrow> Inl (errorf_w ''decode inspect'' err)
               | Inr arr \<Rightarrow> (case arr of [] \<Rightarrow> Inr (None, False) | i # _ \<Rightarrow> Inr (Some i, True)))))
     }"

definition dockerStart :: "'w shell \<Rightarrow> string \<Rightarrow> ('w, (goerr + unit) go) state" where
  "dockerStart p name =
     do {
       c \<leftarrow> dk_CombinedOutput (sh_docker p) [''start'', name];
       State_Monad.return (Ret
         (case co_err c of
            Some err \<Rightarrow> Inl (errorf_ws ''docker start'' err (trim_space (co_out c)))
          | None \<Rightarrow> Inr ()))
     }"

text \<open>The error of \<open>strconv.Atoi\<close>: out of range for a signed digit string, else bad syntax.\<close>

definition atoi_reason :: "string \<Rightarrow> string" where
  "atoi_reason s =
     (let ds = (case s of c # r \<Rightarrow> if c = CHR ''-'' \<or> c = CHR ''+'' then r else s | [] \<Rightarrow> s)
      in if ds \<noteq> [] \<and> list_all is_digit ds then ''value out of range'' else ''invalid syntax'')"

definition atoi_error :: "(string \<Rightarrow> string) \<Rightarrow> string \<Rightarrow> goerr" where
  "atoi_error qu s = NewErr (''strconv.Atoi: parsing '' @ qu s @ '': '' @ atoi_reason s)"

definition hostPortOf :: "'w shell \<Rightarrow> inspect option \<Rightarrow> string \<Rightarrow> (goerr + string \<times> int) go" where
  "hostPortOf p info internalPort =
     (case info of
        None \<Rightarrow> Panic
      | Some i \<Rightarrow> Ret
          (case gm_get (in_Ports i) internalPort of
             None \<Rightarrow> Inl (NewErr (''no host port mapping for '' @ internalPort))
           | Some [] \<Rightarrow> Inl (NewErr (''no host port mapping for '' @ internalPort))
           | Some (b # _) \<Rightarrow>
               (case atoi (HostPort b) of
                  None \<Rightarrow> Inl (errorf_w (''invalid host port '' @ sh_quote p (HostPort b))
                            (atoi_error (sh_quote p) (HostPort b)))
                | Some port \<Rightarrow>
                    (let host = HostIp b
                     in Inr (if host = [] \<or> host = ''0.0.0.0'' then ''127.0.0.1'' else host, port)))))"

definition scan_env :: "string \<times> string \<times> string \<Rightarrow> string \<Rightarrow> string \<times> string \<times> string" where
  "scan_env = (\<lambda>(user, pass, db) e.
     if prefix ''POSTGRES_USER='' e then (trim_prefix e ''POSTGRES_USER='', pass, db)
     else if prefix ''POSTGRES_PASSWORD='' e then (user, trim_prefix e ''POSTGRES_PASSWORD='', db)
     else if prefix ''POSTGRES_DB='' e then (user, pass, trim_prefix e ''POSTGRES_DB='')
     else (user, pass, db))"

definition connectionFromInspect :: "'w shell \<Rightarrow> inspect option \<Rightarrow> (goerr + connectionInfo) go" where
  "connectionFromInspect p info =
     (case hostPortOf p info ''5432/tcp'' of
        Panic \<Rightarrow> Panic
      | Ret (Inl err) \<Rightarrow> Ret (Inl err)
      | Ret (Inr (host, port)) \<Rightarrow>
          (case foldl scan_env ([], [], []) (case info of None \<Rightarrow> [] | Some i \<Rightarrow> in_Env i) of
             (user, pass, db) \<Rightarrow>
               Ret (Inr \<lparr>conn_Host = host, conn_Port = port, conn_Username = user, conn_Password = pass,
                         conn_Database = db\<rparr>)))"

section \<open>Waiting for readiness\<close>

definition pg_timeout_error :: "string \<Rightarrow> goerr" where
  "pg_timeout_error name = NewErr (''pg_isready timed out for '' @ name)"

definition pg_ready_args :: "string \<Rightarrow> string \<Rightarrow> string \<Rightarrow> string list" where
  "pg_ready_args name user db =
     [''exec'', name, ''pg_isready'', ''-U'', user, ''-d'', db, ''-h'', ''127.0.0.1'', ''-q'']"

fun waitForPostgres_loop :: "nat \<Rightarrow> 'w shell \<Rightarrow> string \<Rightarrow> string \<Rightarrow> string \<Rightarrow> time \<Rightarrow>
    ('w, goerr option option) state" where
  "waitForPostgres_loop 0 p name user db dl = State_Monad.return None"
| "waitForPostgres_loop (Suc n) p name user db dl =
     do {
       e \<leftarrow> sys_ctx_err (sh_sys p);
       (case e of
          Some err \<Rightarrow> State_Monad.return (Some (Some err))
        | None \<Rightarrow> do {
            t \<leftarrow> sys_now (sh_sys p);
            (if t > dl then State_Monad.return (Some (Some (pg_timeout_error name)))
             else do {
               r \<leftarrow> dk_Run (sh_docker p) (pg_ready_args name user db);
               (case r of
                  None \<Rightarrow> State_Monad.return (Some None)
                | Some _ \<Rightarrow> do {
                    _ \<leftarrow> sys_sleep (sh_sys p) (500 * millisecond);
                    waitForPostgres_loop n p name user db dl
                  })
             })
          })
     }"

text \<open>
  The \<open>select\<close> at the end of the loop body waits for the timer or the context; a context that is done
  is returned at the top of the next round, as the source returns it at once.
\<close>

definition waitForPostgres :: "nat \<Rightarrow> 'w shell \<Rightarrow> string \<Rightarrow> string \<Rightarrow> string \<Rightarrow> duration \<Rightarrow>
    ('w, goerr option option) state" where
  "waitForPostgres n p name user db timeout =
     do { t \<leftarrow> sys_now (sh_sys p); waitForPostgres_loop n p name user db (t + timeout) }"

definition health_url :: "string \<Rightarrow> int \<Rightarrow> string \<Rightarrow> string" where
  "health_url host port path = ''http://'' @ host @ '':'' @ show_int port @ path"

definition http_timeout_error :: "string \<Rightarrow> goerr" where
  "http_timeout_error url = NewErr (''http readiness timed out for '' @ url)"

fun waitForHTTP_loop :: "nat \<Rightarrow> 'w shell \<Rightarrow> string \<Rightarrow> time \<Rightarrow> ('w, goerr option go option) state" where
  "waitForHTTP_loop 0 p url dl = State_Monad.return None"
| "waitForHTTP_loop (Suc n) p url dl =
     do {
       e \<leftarrow> sys_ctx_err (sh_sys p);
       (case e of
          Some err \<Rightarrow> State_Monad.return (Some (Ret (Some err)))
        | None \<Rightarrow> do {
            t \<leftarrow> sys_now (sh_sys p);
            (if t > dl then State_Monad.return (Some (Ret (Some (http_timeout_error url))))
             else do {
               r \<leftarrow> hc_Get (sh_docker p) url;
               (case r of
                  Panic \<Rightarrow> State_Monad.return (Some Panic)
                | Ret resp \<Rightarrow>
                    if resp = Inr 200 then State_Monad.return (Some (Ret None))
                    else do {
                      _ \<leftarrow> sys_sleep (sh_sys p) (200 * millisecond);
                      waitForHTTP_loop n p url dl
                    })
             })
          })
     }"

definition waitForHTTP :: "nat \<Rightarrow> 'w shell \<Rightarrow> string \<Rightarrow> int \<Rightarrow> string \<Rightarrow> duration \<Rightarrow>
    ('w, goerr option go option) state" where
  "waitForHTTP n p host port path timeout =
     do { t \<leftarrow> sys_now (sh_sys p); waitForHTTP_loop n p (health_url host port path) (t + timeout) }"

section \<open>Provision and Deprovision\<close>

text \<open>The two waits as the callers use them, with an error or a panic handed on.\<close>

definition await_postgres :: "'w shell \<Rightarrow> string \<Rightarrow> string \<Rightarrow> string \<Rightarrow> ('w, (goerr + unit) go) state" where
  "await_postgres p name user db =
     do {
       r \<leftarrow> waitForPostgres (sh_rounds p) p name user db (30 * second);
       State_Monad.return (Ret
         (case r of
            None \<Rightarrow> Inl (pg_timeout_error name)
          | Some None \<Rightarrow> Inr ()
          | Some (Some err) \<Rightarrow> Inl err))
     }"

definition await_http :: "'w shell \<Rightarrow> string \<Rightarrow> int \<Rightarrow> ('w, (goerr + unit) go) state" where
  "await_http p host port =
     do {
       r \<leftarrow> waitForHTTP (sh_rounds p) p host port ''/health'' (15 * second);
       State_Monad.return
         (case r of
            None \<Rightarrow> Ret (Inl (http_timeout_error (health_url host port ''/health'')))
          | Some Panic \<Rightarrow> Panic
          | Some (Ret None) \<Rightarrow> Ret (Inr ())
          | Some (Ret (Some err)) \<Rightarrow> Ret (Inl err))
     }"

definition wrap_error :: "string \<Rightarrow> (goerr + 'a) go \<Rightarrow> (goerr + 'a) go" where
  "wrap_error pre x = (case x of Ret (Inl e) \<Rightarrow> Ret (Inl (errorf_w pre e)) | _ \<Rightarrow> x)"

definition postgres_run_args :: "'w shell \<Rightarrow> job \<Rightarrow> creds \<Rightarrow> string list" where
  "postgres_run_args p j c =
     [''run'', ''-d'', ''--name'', postgresName j, ''-p'', ''127.0.0.1::5432'',
      ''-e'', ''POSTGRES_USER='' @ cr_user c, ''-e'', ''POSTGRES_PASSWORD='' @ cr_pass c,
      ''-e'', ''POSTGRES_DB='' @ cr_db c, ''--label'', ''infraforge=true'',
      ''--label'', ''infraforge.job='' @ job_ID j, ''--label'', ''infraforge.service='' @ job_ServiceName j,
      ''--label'', ''infraforge.kind=postgres'', ''--restart'', ''unless-stopped'', sh_postgresImage p]"

definition http_run_args :: "'w shell \<Rightarrow> job \<Rightarrow> string list" where
  "http_run_args p j =
     [''run'', ''-d'', ''--name'', httpName j, ''-p'', ''127.0.0.1::8080'',
      ''-e'', ''SERVICE_NAME='' @ job_ServiceName j, ''-e'', ''JOB_ID='' @ job_ID j,
      ''--label'', ''infraforge=true'',
      ''--label'', ''infraforge.job='' @ job_ID j, ''--label'', ''infraforge.service='' @ job_ServiceName j,
      ''--label'', ''infraforge.kind=http'', ''--restart'', ''unless-stopped'', sh_echoImage p]"

text \<open>
  The container that exists already: start it if it is stopped, and look again. The second look may
  find nothing, which leaves a nil pointer.
\<close>

definition ensure_running :: "'w shell \<Rightarrow> string \<Rightarrow> inspect option \<Rightarrow> ('w, (goerr + inspect option) go) state" where
  "ensure_running p name info =
     (case info of
        None \<Rightarrow> State_Monad.return Panic
      | Some i \<Rightarrow>
          if in_Running i then State_Monad.return (Ret (Inr info))
          else try_bind (dockerStart p name) (\<lambda>_.
               try_bind (dockerInspect p name) (\<lambda>(info', _).
               State_Monad.return (Ret (Inr info')))))"

text \<open>Making a new container and waiting for it.\<close>

definition create_postgres :: "'w shell \<Rightarrow> job \<Rightarrow> creds \<Rightarrow> ('w, (goerr + connectionInfo) go) state" where
  "create_postgres p j c =
     do {
       out \<leftarrow> dk_CombinedOutput (sh_docker p) (postgres_run_args p j c);
       (case co_err out of
          Some err \<Rightarrow>
            State_Monad.return (Ret (Inl (errorf_ws ''docker run postgres'' err (trim_space (co_out out)))))
        | None \<Rightarrow>
            try_bind (dockerInspect p (postgresName j)) (\<lambda>(info, _).
            try_bind (State_Monad.return (connectionFromInspect p info)) (\<lambda>conn.
            try_bind (do { r \<leftarrow> await_postgres p (postgresName j) (cr_user c) (cr_db c);
                           State_Monad.return (wrap_error ''postgres not ready'' r) }) (\<lambda>_.
            State_Monad.return (Ret (Inr
              (conn\<lparr>conn_Username := cr_user c, conn_Password := cr_pass c, conn_Database := cr_db c\<rparr>)))))))
     }"

definition provisionPostgres :: "'w shell \<Rightarrow> job \<Rightarrow> ('w, (goerr + connectionInfo) go) state" where
  "provisionPostgres p j =
     (let name = postgresName j in
      try_bind (dockerInspect p name) (\<lambda>(info, ok).
        if ok
        then try_bind (ensure_running p name info) (\<lambda>info'.
             try_bind (State_Monad.return (connectionFromInspect p info')) (\<lambda>conn.
             try_bind (await_postgres p name (conn_Username conn) (conn_Database conn)) (\<lambda>_.
             State_Monad.return (Ret (Inr conn)))))
        else do { c \<leftarrow> newCreds p j; create_postgres p j c }))"

definition echo_missing :: "'w shell \<Rightarrow> string \<Rightarrow> bool" where
  "echo_missing p out =
     (let s = to_lower (sh_lower p) out
      in contains s ''no such image'' \<or> contains s ''pull access denied'' \<or> contains s ''manifest unknown'')"

definition create_http :: "'w shell \<Rightarrow> job \<Rightarrow> ('w, (goerr + httpEndpoint) go) state" where
  "create_http p j =
     do {
       out \<leftarrow> dk_CombinedOutput (sh_docker p) (http_run_args p j);
       (case co_err out of
          Some err \<Rightarrow>
            State_Monad.return (Ret (Inl
              (if echo_missing p (co_out out)
               then errorf_w (''image '' @ sh_echoImage p @
                      '' not present locally; build it once with `make build-echo`'') err
               else errorf_ws ''docker run echo'' err (trim_space (co_out out)))))
        | None \<Rightarrow>
            try_bind (dockerInspect p (httpName j)) (\<lambda>(info, _).
            try_bind (State_Monad.return (hostPortOf p info ''8080/tcp'')) (\<lambda>(host, port).
            try_bind (do { r \<leftarrow> await_http p host port;
                           State_Monad.return (wrap_error ''echo not ready'' r) }) (\<lambda>_.
            State_Monad.return (Ret (Inr \<lparr>http_Host = host, http_Port = port\<rparr>))))))
     }"

definition provisionHTTP :: "'w shell \<Rightarrow> job \<Rightarrow> ('w, (goerr + httpEndpoint) go) state" where
  "provisionHTTP p j =
     (let name = httpName j in
      try_bind (dockerInspect p name) (\<lambda>(info, ok).
        if ok
        then try_bind (ensure_running p name info) (\<lambda>info'.
             try_bind (State_Monad.return (hostPortOf p info' ''8080/tcp'')) (\<lambda>(host, port).
             try_bind (await_http p host port) (\<lambda>_.
             State_Monad.return (Ret (Inr \<lparr>http_Host = host, http_Port = port\<rparr>)))))
        else create_http p j))"

definition Shell_Provision :: "'w shell \<Rightarrow> job \<Rightarrow> ('w, (result option \<times> goerr option) go) state" where
  "Shell_Provision p j =
     do {
       c \<leftarrow> provisionPostgres p j;
       (case c of
          Panic \<Rightarrow> State_Monad.return Panic
        | Ret (Inl err) \<Rightarrow>
            State_Monad.return (Ret (None, Classify (sh_lower p) (Some (errorf_w ''postgres'' err))))
        | Ret (Inr conn) \<Rightarrow> do {
            h \<leftarrow> provisionHTTP p j;
            State_Monad.return
              (case h of
                 Panic \<Rightarrow> Panic
               | Ret (Inl err) \<Rightarrow> Ret (None, Classify (sh_lower p) (Some (errorf_w ''http'' err)))
               | Ret (Inr ep) \<Rightarrow> Ret (Some \<lparr>res_Connection = Some conn, res_HTTP = Some ep\<rparr>, None))
          })
     }"

definition Shell_Deprovision :: "'w shell \<Rightarrow> job \<Rightarrow> ('w, goerr option) state" where
  "Shell_Deprovision p j =
     do {
       c \<leftarrow> dk_Output (sh_docker p) [''ps'', ''-aq'', ''-f'', ''label=infraforge.job='' @ job_ID j];
       (case co_err c of
          Some err \<Rightarrow> State_Monad.return (Some (errorf_w ''docker ps'' err))
        | None \<Rightarrow>
            (let ids = strings_fields (co_out c) in
             if length ids = 0 then State_Monad.return None
             else do {
               out \<leftarrow> dk_CombinedOutput (sh_docker p) ([''rm'', ''-f''] @ ids);
               State_Monad.return
                 (case co_err out of
                    Some err \<Rightarrow> Some (errorf_ws ''docker rm -f'' err (trim_space (co_out out)))
                  | None \<Rightarrow> None)
             }))
     }"

definition shell_prov :: "'w shell \<Rightarrow> 'w prov_if" where
  "shell_prov p = \<lparr>prov_Provision = Shell_Provision p, prov_Deprovision = Shell_Deprovision p\<rparr>"

end
