(* ===== verification/Provisioner_Laws.thy ===== *)
theory Provisioner_Laws
  imports Provisioner
begin

text \<open>
  What the provisioner's pure parts promise (classification, names, the database identifier,
  credentials read back from a container) and that its two polling loops end.
\<close>

section \<open>Classification\<close>

definition looks_transient :: "(string \<Rightarrow> string) \<Rightarrow> goerr \<Rightarrow> bool" where
  "looks_transient uni e \<longleftrightarrow> (\<exists>p \<in> set transientPatterns. contains (to_lower uni (err_msg e)) p)"

lemma Classify_Some:
  "Classify uni (Some e) =
     (if looks_transient uni e
      then Some (WrapErr (''transient error: '' @ err_msg e) (Sentinel ErrTransient)) else Some e)"
  by (simp add: Classify_def looks_transient_def list_ex_iff Let_def)

lemma Classify_None [simp]: "Classify uni None = None"
  by (simp add: Classify_def)

lemma Classify_transient:
  "\<exists>e'. Classify uni (Some e) = Some e' \<and>
     (errors_is e' ErrTransient \<longleftrightarrow> looks_transient uni e \<or> errors_is e ErrTransient)"
  by (simp add: Classify_Some)

section \<open>Names\<close>

lemma names_inject:
  "postgresName j = postgresName k \<longleftrightarrow> job_ID j = job_ID k" "httpName j = httpName k \<longleftrightarrow> job_ID j = job_ID k"
  "postgresName j \<noteq> httpName k" "httpName k \<noteq> postgresName j"
  by (simp_all add: postgresName_def httpName_def)

lemma sanitize_loop_spec:
  assumes "list_all is_ident b" "length b < 32"
  shows "list_all is_ident (sanitize_loop b s) \<and> length (sanitize_loop b s) \<le> 32"
  using assms
proof (induction b s rule: sanitize_loop.induct)
  case (2 b r s)
  have "is_ident CHR ''_''" by (simp add: is_ident_def)
  with 2 show ?case by (auto simp: Let_def)
qed simp

lemma sanitize_spec:
  "sanitize uni s \<noteq> [] \<and> length (sanitize uni s) \<le> 32 \<and> list_all is_ident (sanitize uni s)"
  using sanitize_loop_spec [of "[]" "to_lower uni s"]
  by (simp add: sanitize_def Let_def is_ident_def)

text \<open>On a name that is an identifier already nothing is changed but the length.\<close>

lemma sanitize_loop_ident:
  "list_all is_ident s \<Longrightarrow> length b < 32 \<Longrightarrow> sanitize_loop b s = take 32 (b @ s)"
  by (induction s arbitrary: b) (auto simp: Let_def take_Cons')

section \<open>Credentials read back from a container\<close>

definition pg_var :: "string \<Rightarrow> bool" where
  "pg_var e \<longleftrightarrow> prefix ''POSTGRES_USER='' e \<or> prefix ''POSTGRES_PASSWORD='' e \<or> prefix ''POSTGRES_DB='' e"

definition pg_env :: "creds \<Rightarrow> string list" where
  "pg_env c = [''POSTGRES_USER='' @ cr_user c, ''POSTGRES_PASSWORD='' @ cr_pass c, ''POSTGRES_DB='' @ cr_db c]"

lemma scan_env_other: "\<not> pg_var e \<Longrightarrow> scan_env x e = x"
  by (simp add: pg_var_def scan_env_def split: prod.split)

lemma scan_env_var:
  "scan_env (u, w, d) (''POSTGRES_USER='' @ v) = (v, w, d)"
  "scan_env (u, w, d) (''POSTGRES_PASSWORD='' @ v) = (u, v, d)"
  "scan_env (u, w, d) (''POSTGRES_DB='' @ v) = (u, w, v)"
  by (simp_all add: scan_env_def trim_prefix_def)

text \<open>
  A container whose environment has the three variables, among others, hands the credentials back.
\<close>

lemma foldl_scan_env_filter: "foldl scan_env x env = foldl scan_env x (filter pg_var env)"
  by (induction env arbitrary: x) (simp_all add: scan_env_other)

lemma scan_env_creds:
  "filter pg_var env = pg_env c \<Longrightarrow> foldl scan_env ([], [], []) env = (cr_user c, cr_pass c, cr_db c)"
  by (subst foldl_scan_env_filter) (simp add: pg_env_def scan_env_var del: append.simps)

lemma connectionFromInspect_creds:
  assumes "hostPortOf p (Some i) ''5432/tcp'' = Ret (Inr (host, port))" "filter pg_var (in_Env i) = pg_env c"
  shows "connectionFromInspect p (Some i) =
    Ret (Inr \<lparr>conn_Host = host, conn_Port = port, conn_Username = cr_user c, conn_Password = cr_pass c,
              conn_Database = cr_db c\<rparr>)"
  using assms by (simp add: connectionFromInspect_def scan_env_creds)

lemma connectionFromInspect_nil: "connectionFromInspect p None = Panic"
  by (simp add: connectionFromInspect_def hostPortOf_def)

section \<open>The polling loops end\<close>

text \<open>
  Both loops are the same polling loop: leave when the context is done, when the deadline has passed
  or when the probe succeeds, else sleep \<open>d\<close> and try again.
\<close>

fun poll :: "nat \<Rightarrow> 'w sys_if \<Rightarrow> time \<Rightarrow> duration \<Rightarrow> (goerr \<Rightarrow> 'r) \<Rightarrow> 'r \<Rightarrow> ('w, 'r option) state \<Rightarrow>
    ('w, 'r option) state" where
  "poll 0 Y dl d stop late probe = State_Monad.return None"
| "poll (Suc n) Y dl d stop late probe =
     do {
       e \<leftarrow> sys_ctx_err Y;
       (case e of
          Some err \<Rightarrow> State_Monad.return (Some (stop err))
        | None \<Rightarrow> do {
            t \<leftarrow> sys_now Y;
            (if t > dl then State_Monad.return (Some late)
             else do {
               r \<leftarrow> probe;
               (case r of
                  Some x \<Rightarrow> State_Monad.return (Some x)
                | None \<Rightarrow> do { _ \<leftarrow> sys_sleep Y d; poll n Y dl d stop late probe })
             })
          })
     }"

definition pg_probe :: "'w shell \<Rightarrow> string \<Rightarrow> string \<Rightarrow> string \<Rightarrow> ('w, goerr option option) state" where
  "pg_probe p name user db =
     do { r \<leftarrow> dk_Run (sh_docker p) (pg_ready_args name user db);
          State_Monad.return (case r of None \<Rightarrow> Some None | Some _ \<Rightarrow> None) }"

definition http_probe :: "'w shell \<Rightarrow> string \<Rightarrow> ('w, goerr option go option) state" where
  "http_probe p url =
     do { r \<leftarrow> hc_Get (sh_docker p) url;
          State_Monad.return
            (case r of Panic \<Rightarrow> Some Panic | Ret resp \<Rightarrow> if resp = Inr 200 then Some (Ret None) else None) }"

lemma case_fold:
  "(case (case r of None \<Rightarrow> Some a | Some _ \<Rightarrow> None) of Some x \<Rightarrow> f x | None \<Rightarrow> m) = (case r of None \<Rightarrow> f a | Some _ \<Rightarrow> m)"
  by (simp split: option.split)

lemma case_fold_go:
  "(case (case r of Panic \<Rightarrow> Some Panic | Ret resp \<Rightarrow> if resp = Inr 200 then Some (Ret None) else None) of
      Some x \<Rightarrow> f x | None \<Rightarrow> m) =
   (case r of Panic \<Rightarrow> f Panic | Ret resp \<Rightarrow> if resp = Inr 200 then f (Ret None) else m)"
  by (simp split: go.split)

lemma waitForPostgres_poll:
  "waitForPostgres_loop n p name user db dl =
     poll n (sh_sys p) dl (500 * millisecond) Some (Some (pg_timeout_error name)) (pg_probe p name user db)"
  by (induction n)
     (simp_all only: waitForPostgres_loop.simps poll.simps pg_probe_def State_Monad.bind_assoc
       State_Monad.bind_left_identity case_fold)

lemma waitForHTTP_poll:
  "waitForHTTP_loop n p url dl =
     poll n (sh_sys p) dl (200 * millisecond) (\<lambda>err. Ret (Some err)) (Ret (Some (http_timeout_error url))) (http_probe p url)"
  by (induction n)
     (simp_all only: waitForHTTP_loop.simps poll.simps http_probe_def State_Monad.bind_assoc
       State_Monad.bind_left_identity case_fold_go)

text \<open>
  What the loops rely on: the clock never runs backwards, a sleep takes at least its time unless the
  context ends meanwhile, and a context that has ended says so.
\<close>

locale ticking =
  fixes Y :: "'w sys_if" and clock :: "'w \<Rightarrow> time" and cancelled :: "'w \<Rightarrow> bool" and inv :: "'w \<Rightarrow> bool"
  assumes t_now: "inv w \<Longrightarrow> wp (sys_now Y) (\<lambda>t w'. inv w' \<and> clock w \<le> t \<and> t \<le> clock w') w"
    and t_ctx: "inv w \<Longrightarrow> wp (sys_ctx_err Y) (\<lambda>e w'. inv w' \<and> clock w \<le> clock w' \<and> (cancelled w \<longrightarrow> e \<noteq> None)) w"
    and t_sleep: "inv w \<Longrightarrow> wp (sys_sleep Y d) (\<lambda>_ w'. inv w' \<and> (clock w + d \<le> clock w' \<or> cancelled w')) w"
begin

definition patient :: "('w, 'a) state \<Rightarrow> bool" where
  "patient m \<longleftrightarrow> (\<forall>w. inv w \<longrightarrow> wp m (\<lambda>_ w'. inv w' \<and> clock w \<le> clock w') w)"

text \<open>Enough rounds: one more than it takes to sleep past the deadline.\<close>

definition enough :: "nat \<Rightarrow> duration \<Rightarrow> time \<Rightarrow> 'w \<Rightarrow> bool" where
  "enough n d dl w \<longleftrightarrow> n > 0 \<and> (cancelled w \<or> (int n - 1) * d > dl - clock w)"

lemma enough_round:
  assumes "enough (Suc n) d dl w" "clock w \<le> dl" "clock w \<le> clock w1" "\<not> cancelled w"
    and "clock w1 + d \<le> clock w2 \<or> cancelled w2" "d > 0"
  shows "enough n d dl w2"
proof -
  from assms(1,4) have n: "int n * d > dl - clock w" by (simp add: enough_def)
  with assms(2) have "int n * d > 0" by linarith
  with assms(6) have "n > 0" by (simp add: zero_less_mult_iff)
  moreover have "(int n - 1) * d > dl - clock w2" if "clock w1 + d \<le> clock w2"
    using that n assms(3) by (simp add: left_diff_distrib)
  ultimately show ?thesis using assms(5) by (auto simp: enough_def)
qed

lemma poll_ends:
  assumes "patient probe" "d > 0" "inv w" "enough n d dl w"
  shows "wp (poll n Y dl d stop late probe) (\<lambda>r w'. inv w' \<and> r \<noteq> None) w"
  using assms(3,4)
proof (induction n arbitrary: w)
  case 0
  then show ?case by (simp add: enough_def)
next
  case (Suc n)
  have sleep: "wp (sys_sleep Y d) (\<lambda>_. wp (poll n Y dl d stop late probe) (\<lambda>r w'. inv w' \<and> r \<noteq> None)) w3"
    if "inv w3" "clock w \<le> clock w3" "clock w \<le> dl" "\<not> cancelled w" for w3
    by (rule wp_mono [OF t_sleep [OF that(1)]])
       (use Suc.IH enough_round [OF Suc.prems(2) that(3,2,4) _ assms(2)] in blast)
  have probing: "wp probe (\<lambda>r. wp (case r of Some x \<Rightarrow> State_Monad.return (Some x)
        | None \<Rightarrow> do { _ \<leftarrow> sys_sleep Y d; poll n Y dl d stop late probe }) (\<lambda>r w'. inv w' \<and> r \<noteq> None)) w2"
    if "inv w2" "clock w \<le> clock w2" "clock w \<le> dl" "\<not> cancelled w" for w2
    by (rule wp_mono [OF assms(1) [unfolded patient_def, rule_format, OF that(1)]])
       (use that sleep in \<open>auto split: option.split\<close>)
  have "wp (sys_now Y) (\<lambda>t. wp (if t > dl then State_Monad.return (Some late)
       else do { r \<leftarrow> probe; (case r of Some x \<Rightarrow> State_Monad.return (Some x)
                | None \<Rightarrow> do { _ \<leftarrow> sys_sleep Y d; poll n Y dl d stop late probe }) })
       (\<lambda>r w'. inv w' \<and> r \<noteq> None)) w1"
    if "inv w1" "clock w \<le> clock w1" "\<not> cancelled w" for w1
    by (rule wp_mono [OF t_now [OF that(1)]]) (use that probing in auto)
  then show ?case
    by (simp add: wp_case_option del: wp_if not_None_eq)
       (rule wp_mono [OF t_ctx [OF Suc.prems(1)]], auto split: option.split)
qed

end

text \<open>The waits with the deadlines the source uses: 62 and 77 rounds are enough.\<close>

context ticking
begin

lemma waitForPostgres_ends:
  assumes "sh_sys p = Y" "patient (dk_Run (sh_docker p) (pg_ready_args name user db))" "inv w" "n \<ge> 62"
  shows "wp (waitForPostgres n p name user db (30 * second)) (\<lambda>r w'. inv w' \<and> r \<noteq> None) w"
proof -
  have "patient (pg_probe p name user db)"
    using assms(2) by (simp add: patient_def pg_probe_def)
  moreover have "enough n (500 * millisecond) (t + 30 * second) w1" if "t \<le> clock w1" for t w1
    using that assms(4) by (auto simp: enough_def)
  ultimately show ?thesis
    unfolding waitForPostgres_def assms(1) wp_bind waitForPostgres_poll
    by (intro wp_mono [OF t_now [OF assms(3)]] poll_ends) simp_all
qed

lemma waitForHTTP_ends:
  assumes "sh_sys p = Y" "\<And>url. patient (hc_Get (sh_docker p) url)" "inv w" "n \<ge> 77"
  shows "wp (waitForHTTP n p host port path (15 * second)) (\<lambda>r w'. inv w' \<and> r \<noteq> None) w"
proof -
  have "patient (http_probe p url)" for url
    using assms(2) by (simp add: patient_def http_probe_def)
  moreover have "enough n (200 * millisecond) (t + 15 * second) w1" if "t \<le> clock w1" for t w1
    using that assms(4) by (auto simp: enough_def)
  ultimately show ?thesis
    unfolding waitForHTTP_def assms(1) wp_bind waitForHTTP_poll
    by (intro wp_mono [OF t_now [OF assms(3)]] poll_ends) simp_all
qed

end

end
