(* ===== verification/Docker_Laws.thy ===== *)
theory Docker_Laws
  imports Provisioner_Laws
begin

text \<open>
  The contract of \<open>Provisioner\<close> (both calls are idempotent, and a job never gets two containers of a
  kind) for the \<open>Shell\<close> provisioner on a docker daemon that behaves as documented: the locale
  \<open>docker_host\<close>. Every command may fail; \<open>docker run\<close> may fail and still leave a container; \<open>docker inspect\<close> may
  answer \<open>no such\<close> for a container that is there, and the HTTP probe may panic. Nobody else adds, starts or removes
  containers of the job during a call.
\<close>

section \<open>What docker documents\<close>

record container =
  ct_id :: string
  ct_job :: string
  ct_info :: inspect

text \<open>The flags of \<open>docker run -d <flags> <image>\<close>.\<close>

fun flag_pairs :: "string list \<Rightarrow> (string \<times> string) list" where
  "flag_pairs (f # v # r) = (f, v) # flag_pairs r"
| "flag_pairs _ = []"

definition run_flags :: "string list \<Rightarrow> (string \<times> string) list" where
  "run_flags args = flag_pairs (drop 2 args)"

definition flag_values :: "string \<Rightarrow> string list \<Rightarrow> string list" where
  "flag_values f args = map snd (filter (\<lambda>x. fst x = f) (run_flags args))"

text \<open>
  A container made by these arguments carries their job label, and of the variables \<open>POSTGRES_USER\<close>,
  \<open>POSTGRES_PASSWORD\<close>, \<open>POSTGRES_DB\<close> those of the arguments, in order (the images set none of them).
\<close>

definition made_by :: "string list \<Rightarrow> container \<Rightarrow> bool" where
  "made_by args ct \<longleftrightarrow> (''infraforge.job='' @ ct_job ct) \<in> set (flag_values ''--label'' args) \<and>
     filter pg_var (in_Env (ct_info ct)) = filter pg_var (flag_values ''-e'' args)"

type_synonym containers = "string \<Rightarrow> container option"

definition said_no_such :: "'w shell \<Rightarrow> cmd_out \<Rightarrow> bool" where
  "said_no_such p c \<longleftrightarrow> co_exit c \<and> contains (to_lower (sh_lower p) (co_stderr c)) ''no such''"

definition removed :: "string set \<Rightarrow> containers \<Rightarrow> containers" where
  "removed ids m = (\<lambda>n. case m n of None \<Rightarrow> None | Some ct \<Rightarrow> if ct_id ct \<in> ids then None else Some ct)"

definition ids_unique :: "containers \<Rightarrow> bool" where
  "ids_unique m \<longleftrightarrow> (\<forall>n n' ct ct'. m n = Some ct \<longrightarrow> m n' = Some ct' \<longrightarrow> ct_id ct = ct_id ct' \<longrightarrow> n = n')"

locale docker_host =
  fixes p :: "'w shell" and cts :: "'w \<Rightarrow> containers" and inv :: "'w \<Rightarrow> bool"
  assumes unique: "inv w \<Longrightarrow> ids_unique (cts w)"
    and d_inspect: "inv w \<Longrightarrow> wp (dk_Output (sh_docker p) [''inspect'', name])
      (\<lambda>c w'. inv w' \<and> cts w' = cts w \<and>
         (co_err c = None \<longrightarrow> (\<exists>ct. cts w name = Some ct \<and> sh_decode p (co_out c) = Inr [ct_info ct]))) w"
    and d_run: "inv w \<Longrightarrow> args = ''run'' # ''-d'' # ''--name'' # name # rest \<Longrightarrow>
      wp (dk_CombinedOutput (sh_docker p) args)
      (\<lambda>c w'. inv w' \<and>
         (cts w' = cts w \<and> co_err c \<noteq> None \<or>
          (\<exists>ct. cts w name = None \<and> cts w' = (cts w)(name \<mapsto> ct) \<and> made_by args ct \<and>
             (co_err c = None \<longrightarrow> in_Running (ct_info ct))))) w"
    and d_start: "inv w \<Longrightarrow> wp (dk_CombinedOutput (sh_docker p) [''start'', name])
      (\<lambda>c w'. inv w' \<and>
         (cts w' = cts w \<and> co_err c \<noteq> None \<or>
          (\<exists>ct ct'. cts w name = Some ct \<and> cts w' = (cts w)(name \<mapsto> ct') \<and> ct_id ct' = ct_id ct \<and>
             ct_job ct' = ct_job ct \<and> in_Env (ct_info ct') = in_Env (ct_info ct) \<and> in_Running (ct_info ct')))) w"
    and d_ps: "inv w \<Longrightarrow> wp (dk_Output (sh_docker p) [''ps'', ''-aq'', ''-f'', ''label=infraforge.job='' @ i])
      (\<lambda>c w'. inv w' \<and> cts w' = cts w \<and>
         (co_err c = None \<longrightarrow>
            set (strings_fields (co_out c)) = ct_id ` {ct \<in> ran (cts w). ct_job ct = i})) w"
    and d_rm: "inv w \<Longrightarrow> wp (dk_CombinedOutput (sh_docker p) ([''rm'', ''-f''] @ ids))
      (\<lambda>c w'. inv w' \<and> (\<exists>X \<subseteq> set ids. cts w' = removed X (cts w) \<and> (co_err c = None \<longrightarrow> X = set ids))) w"
    and d_exec: "keeps inv cts any_result (dk_Run (sh_docker p) args)"
    and d_get: "keeps inv cts any_result (hc_Get (sh_docker p) url)"
    and d_now: "keeps inv cts any_result (sys_now (sh_sys p))"
    and d_rand: "keeps inv cts any_result (sys_rand (sh_sys p) len)"
    and d_ctx: "keeps inv cts any_result (sys_ctx_err (sh_sys p))"
    and d_sleep: "keeps inv cts any_result (sys_sleep (sh_sys p) d)"

text \<open>
  A host with clear answers: \<open>docker inspect\<close> says \<open>no such\<close> only of a container that is not there, and the request
  of the probe can be built (the source ignores the error of \<open>NewRequestWithContext\<close>), so that it does not panic.
\<close>

definition clear_answers :: "'w shell \<Rightarrow> ('w \<Rightarrow> containers) \<Rightarrow> ('w \<Rightarrow> bool) \<Rightarrow> bool" where
  "clear_answers p cts I \<longleftrightarrow>
     (\<forall>w name. I w \<longrightarrow> wp (dk_Output (sh_docker p) [''inspect'', name])
        (\<lambda>c _. co_err c \<noteq> None \<and> said_no_such p c \<longrightarrow> cts w name = None) w) \<and>
     (\<forall>url. keeps I cts (\<lambda>x. x \<noteq> Panic) (hc_Get (sh_docker p) url))"

section \<open>Waiting\<close>

lemma keeps_poll:
  assumes "keeps I v any_result (sys_ctx_err Y)" "keeps I v any_result (sys_now Y)"
    "keeps I v any_result (sys_sleep Y d)" "keeps I v any_result probe"
  shows "keeps I v any_result (poll n Y dl d stop late probe)"
  proof (induction n)
  case (Suc n)
  then show ?case unfolding poll.simps
    by (intro keeps_bind_any keeps_if keeps_case_option keeps_return TrueI assms)
qed (simp add: keeps_return)

text \<open>As before, with a condition that every answer of the probe and every other way out satisfies.\<close>

lemma keeps_poll_result:
  assumes "keeps I v any_result (sys_ctx_err Y)" "keeps I v any_result (sys_now Y)"
    "keeps I v any_result (sys_sleep Y d)" "keeps I v (pred_option G) probe" "G late" "\<And>e. G (stop e)"
  shows "keeps I v (pred_option G) (poll n Y dl d stop late probe)"
proof (induction n)
  case (Suc n)
  then show ?case unfolding poll.simps
    by (intro keeps_bind_any [OF assms(1)] keeps_bind_any [OF assms(2)] keeps_bind_any [OF assms(3)]
        keeps_bind [OF assms(4)] keeps_if keeps_case_option keeps_return) (simp_all add: assms)
qed (simp add: keeps_return)

section \<open>The parts of Provision\<close>

definition endpoint_of :: "'w shell \<Rightarrow> inspect option \<Rightarrow> (goerr + httpEndpoint) go" where
  "endpoint_of p info =
     (case hostPortOf p info ''8080/tcp'' of
        Panic \<Rightarrow> Panic | Ret (Inl e) \<Rightarrow> Ret (Inl e)
      | Ret (Inr (host, port)) \<Rightarrow> Ret (Inr \<lparr>http_Host = host, http_Port = port\<rparr>))"

text \<open>The container \<open>ct\<close> was kept: the same one, started if it was stopped.\<close>

definition kept :: "container \<Rightarrow> container \<Rightarrow> bool" where
  "kept ct ct' \<longleftrightarrow> ct_job ct' = ct_job ct \<and> (in_Running (ct_info ct) \<longrightarrow> ct' = ct)"

lemma kept_refl [simp]: "kept ct ct"
  by (simp add: kept_def)

context docker_host
begin

lemma frame:
  assumes "keeps inv cts G m" "inv w" "\<And>a w'. inv w' \<Longrightarrow> cts w' = cts w \<Longrightarrow> G a \<Longrightarrow> Q a w'"
  shows "wp m Q w"
  by (rule wp_mono [OF keepsD [OF assms(1,2)]]) (simp add: assms(3))

text \<open>A panic only on a host whose answers are not clear.\<close>

definition calm :: "'a go \<Rightarrow> bool" where
  "calm x \<longleftrightarrow> (x = Panic \<longrightarrow> \<not> clear_answers p cts inv)"

lemma calm_Ret [simp]: "calm (Ret a)"
  by (simp add: calm_def)

lemma dockerInspect_ok:
  assumes "inv w"
  shows "wp (dockerInspect p name) (\<lambda>x w'. inv w' \<and> cts w' = cts w \<and>
     (case x of Panic \<Rightarrow> False | Ret (Inl _) \<Rightarrow> True
      | Ret (Inr (info, ok)) \<Rightarrow> info = map_option ct_info (cts w name) \<and> ok = (cts w name \<noteq> None) \<or>
          \<not> clear_answers p cts inv \<and> info = None \<and> \<not> ok)) w"
proof -
  have "wp (dk_Output (sh_docker p) [''inspect'', name])
      (\<lambda>c _. clear_answers p cts inv \<and> co_err c \<noteq> None \<and> said_no_such p c \<longrightarrow> cts w name = None) w"
  proof (cases "clear_answers p cts inv")
    case True
    with assms have "wp (dk_Output (sh_docker p) [''inspect'', name])
        (\<lambda>c _. co_err c \<noteq> None \<and> said_no_such p c \<longrightarrow> cts w name = None) w" unfolding clear_answers_def by blast
    then show ?thesis by (rule wp_mono) simp
  qed (simp add: wp_any)
  from wp_conj [THEN iffD2, OF conjI, OF d_inspect [OF assms, of name] this] show ?thesis
    unfolding dockerInspect_def wp_bind wp_return
  proof (rule wp_mono, goal_cases)
    case (1 c w')
    show ?case
    proof (cases "co_err c")
      case None
      with 1 show ?thesis by auto
    next
      case (Some e)
      with 1 show ?thesis by (cases "said_no_such p c") (auto simp: said_no_such_def Let_def)
    qed
  qed
qed

lemma ensure_running_ok:
  assumes "inv w" "cts w name = Some ct"
  shows "wp (ensure_running p name (Some (ct_info ct))) (\<lambda>x w'. inv w' \<and>
     (\<exists>ct'. cts w' = (cts w)(name \<mapsto> ct') \<and> kept ct ct' \<and>
        (case x of Panic \<Rightarrow> False | Ret (Inl _) \<Rightarrow> True
         | Ret (Inr info) \<Rightarrow> info = Some (ct_info ct') \<and> in_Running (ct_info ct') \<or>
             \<not> clear_answers p cts inv \<and> info = None))) w"
proof (cases "in_Running (ct_info ct)")
  case True
  with assms show ?thesis by (auto simp: ensure_running_def map_upd_triv intro!: exI [of _ ct])
next
  case False
  let ?Q = "\<lambda>x w'. inv w' \<and> (\<exists>ct'. cts w' = (cts w)(name \<mapsto> ct') \<and> kept ct ct' \<and>
        (case x of Panic \<Rightarrow> False | Ret (Inl _) \<Rightarrow> True
         | Ret (Inr info) \<Rightarrow> info = Some (ct_info ct') \<and> in_Running (ct_info ct') \<or>
             \<not> clear_answers p cts inv \<and> info = None))"
  have look: "wp (try_bind (dockerInspect p name) (\<lambda>(info', _). State_Monad.return (Ret (Inr info')))) ?Q w1"
    if "inv w1" "cts w1 = (cts w)(name \<mapsto> ct')" "kept ct ct'" "in_Running (ct_info ct')" for w1 ct'
    unfolding wp_try_bind
    by (rule wp_mono [OF dockerInspect_ok [OF that(1)]])
       (use that in \<open>auto simp: wp_case_prod split: go.splits sum.splits\<close>)
  have same: "cts w = (cts w)(name \<mapsto> ct)" using assms(2) by (simp add: map_upd_triv)
  show ?thesis
    unfolding ensure_running_def option.case if_not_P [OF False] dockerStart_def try_bind_def [of "State_Monad.bind _ _"]
      wp_bind wp_return
    by (rule wp_mono [OF d_start [OF assms(1), of name]])
       (use False look same assms(2) in \<open>auto simp: kept_def wp_case_go wp_case_sum split: option.splits simp del: wp_try_bind\<close>)
qed

lemma await_postgres_ok: "keeps inv cts calm (await_postgres p name user db)"
proof -
  have "keeps inv cts any_result (pg_probe p name user db)"
    unfolding pg_probe_def by (intro keeps_bind_any d_exec keeps_return TrueI)
  then have "keeps inv cts any_result (waitForPostgres n p name user db t)" for n t
    unfolding waitForPostgres_def waitForPostgres_poll
    by (intro keeps_bind_any keeps_poll d_now d_ctx d_sleep)
  then show ?thesis
    unfolding await_postgres_def
    by (rule keeps_bind_any) (auto intro!: keeps_return split: option.split)
qed

lemma probe_calm: "keeps inv cts calm (hc_Get (sh_docker p) url)"
  using d_get [of url] by (cases "clear_answers p cts inv") (auto simp: calm_def clear_answers_def keeps_def)

lemma await_http_ok: "keeps inv cts calm (await_http p host port)"
proof -
  have "keeps inv cts (pred_option calm) (http_probe p url)" for url
    unfolding http_probe_def
    by (rule keeps_bind [OF probe_calm]) (auto intro!: keeps_return simp: calm_def split: go.split)
  then have "keeps inv cts (pred_option calm) (waitForHTTP n p host port path t)" for n path t
    unfolding waitForHTTP_def waitForHTTP_poll
    by (intro keeps_bind_any [OF d_now] keeps_poll_result d_now d_ctx d_sleep) simp_all
  then show ?thesis
    unfolding await_http_def
    by (rule keeps_bind) (auto intro!: keeps_return simp: calm_def split: option.split go.split)
qed

text \<open>
  \<open>provided name i f w x w'\<close>: no container but \<open>name\<close> was touched; what was there is kept, what is new
  carries the label of job \<open>i\<close>; and a value was returned only if the container now runs and shows it.
\<close>

definition provided :: "string \<Rightarrow> string \<Rightarrow> (inspect option \<Rightarrow> (goerr + 'a) go) \<Rightarrow> 'w \<Rightarrow> (goerr + 'a) go \<Rightarrow> 'w \<Rightarrow> bool" where
  "provided name i f w x w' \<longleftrightarrow> inv w' \<and> calm x \<and>
     (cts w' = cts w \<and> (\<forall>a. x \<noteq> Ret (Inr a)) \<or>
      (\<exists>ct'. cts w' = (cts w)(name \<mapsto> ct') \<and>
         (case cts w name of None \<Rightarrow> ct_job ct' = i | Some ct \<Rightarrow> kept ct ct') \<and>
         (\<forall>a. x = Ret (Inr a) \<longrightarrow> in_Running (ct_info ct') \<and> f (Some (ct_info ct')) = Ret (Inr a))))"

lemma provided_cong: "cts w1 = cts w \<Longrightarrow> provided name i f w = provided name i f w1"
  by (simp add: provided_def fun_eq_iff)

lemma provided_error: "inv w' \<Longrightarrow> cts w' = cts w \<Longrightarrow> provided name i f w (Ret (Inl e)) w'"
  by (simp add: provided_def)

lemma provided_new:
  "inv w' \<Longrightarrow> cts w' = (cts w)(name \<mapsto> ct') \<Longrightarrow> cts w name = None \<Longrightarrow> ct_job ct' = i \<Longrightarrow> calm x \<Longrightarrow>
     (\<And>a. x = Ret (Inr a) \<Longrightarrow> in_Running (ct_info ct') \<and> f (Some (ct_info ct')) = Ret (Inr a)) \<Longrightarrow>
     provided name i f w x w'"
  by (auto simp: provided_def)

lemma provided_kept:
  "inv w' \<Longrightarrow> cts w' = (cts w)(name \<mapsto> ct') \<Longrightarrow> cts w name = Some ct \<Longrightarrow> kept ct ct' \<Longrightarrow> calm x \<Longrightarrow>
     (\<And>a. x = Ret (Inr a) \<Longrightarrow> in_Running (ct_info ct') \<and> f (Some (ct_info ct')) = Ret (Inr a)) \<Longrightarrow>
     provided name i f w x w'"
  by (auto simp: provided_def)

text \<open>The common end of the reuse path: read the value off the container, wait, return it.\<close>

lemma reuse_ok:
  assumes "inv w" "cts w name = Some ct"
    and f: "\<And>i. f (Some i) \<noteq> Panic" "f None = Panic" and wait: "\<And>a. keeps inv cts calm (wait a)"
  shows "wp (try_bind (ensure_running p name (Some (ct_info ct))) (\<lambda>info'.
      try_bind (State_Monad.return (f info')) (\<lambda>a.
      try_bind (wait a) (\<lambda>_. State_Monad.return (Ret (Inr a)))))) (provided name i f w) w"
proof -
  have tail: "wp (try_bind (State_Monad.return (f (Some (ct_info ct')))) (\<lambda>a.
      try_bind (wait a) (\<lambda>_. State_Monad.return (Ret (Inr a))))) (provided name i f w) w1"
    if w1: "inv w1" "cts w1 = (cts w)(name \<mapsto> ct')" "kept ct ct'" "in_Running (ct_info ct')" for w1 ct'
  proof (cases "f (Some (ct_info ct'))")
    case (Ret r)
    show ?thesis
    proof (cases r)
      case (Inl e)
      with Ret w1 assms(2) show ?thesis by (auto intro: provided_kept)
    next
      case (Inr a)
      have "provided name i f w (Ret (Inr a)) w2" "provided name i f w (Ret (Inl e)) w2"
        "calm (Panic :: (goerr + unit) go) \<Longrightarrow> provided name i f w Panic w2"
        if "inv w2" "cts w2 = cts w1" for w2 e
        using that w1 Ret Inr by (auto intro!: provided_kept [OF _ _ assms(2) w1(3)] simp: calm_def)
      then show ?thesis
        unfolding Ret Inr wp_try_bind wp_return go.case sum.case
        by (intro frame [OF wait w1(1)]) (auto split: go.splits sum.splits simp: calm_def)
    qed
  qed (use f in simp)
  have gone: "provided name i f w Panic w1"
    if "inv w1" "cts w1 = (cts w)(name \<mapsto> ct')" "kept ct ct'" "\<not> clear_answers p cts inv" for w1 ct'
    using that by (intro provided_kept [OF _ _ assms(2)]) (auto simp: calm_def)
  have err: "provided name i f w (Ret (Inl e)) w1"
    if "inv w1" "cts w1 = (cts w)(name \<mapsto> ct')" "kept ct ct'" for w1 ct' e
    using that by (intro provided_kept [OF _ _ assms(2)]) auto
  have nil: "wp (try_bind (State_Monad.return (f None)) k) (provided name i f w) w1 = provided name i f w Panic w1"
    for k :: "'a \<Rightarrow> ('w, (goerr + 'a) go) state" and w1 by (simp add: f(2))
  show ?thesis
    unfolding wp_try_bind [of "ensure_running _ _ _"]
  proof (rule wp_mono [OF ensure_running_ok [OF assms(1,2)]], goal_cases)
    case (1 x w1)
    then obtain ct' where ct': "inv w1" "cts w1 = (cts w)(name \<mapsto> ct')" "kept ct ct'" and
      x: "case x of Panic \<Rightarrow> False | Ret (Inl _) \<Rightarrow> True
         | Ret (Inr info) \<Rightarrow> info = Some (ct_info ct') \<and> in_Running (ct_info ct') \<or>
             \<not> clear_answers p cts inv \<and> info = None" by blast
    show ?case using x tail [OF ct'] gone [OF ct'] err [OF ct'] nil
      by (auto split: go.splits sum.splits simp del: wp_try_bind)
  qed
qed

text \<open>The common end of the creation path, with the container \<open>ct'\<close> just made.\<close>

lemma fresh_ok:
  assumes w: "inv w1" "cts w name = None" "cts w1 = (cts w)(name \<mapsto> ct')" "ct_job ct' = i" "in_Running (ct_info ct')"
    and f: "f (Some (ct_info ct')) \<noteq> Panic" "f None = Panic" and wait: "\<And>a. keeps inv cts calm (wait a)"
    and g: "\<And>a. f (Some (ct_info ct')) = Ret (Inr a) \<Longrightarrow> g a = a"
  shows "wp (try_bind (dockerInspect p name) (\<lambda>(info', _).
      try_bind (State_Monad.return (f info')) (\<lambda>a.
      try_bind (wait a) (\<lambda>_. State_Monad.return (Ret (Inr (g a))))))) (provided name i f w) w1"
proof -
  have err: "provided name i f w (Ret (Inl e)) w2" if "inv w2" "cts w2 = cts w1" for w2 e
    using that w by (intro provided_new [of w2 w name ct']) auto
  have panic: "provided name i f w Panic w2" if "inv w2" "cts w2 = cts w1" "\<not> clear_answers p cts inv" for w2
    using that w by (intro provided_new [of w2 w name ct']) (auto simp: calm_def)
  have nil: "wp (try_bind (State_Monad.return (f None)) k) (provided name i f w) w2 = provided name i f w Panic w2" for k :: "'a \<Rightarrow> ('w, (goerr + 'a) go) state" and w2
    by (simp add: f(2))
  have val: "provided name i f w (Ret (Inr a)) w2"
    if "inv w2" "cts w2 = cts w1" "f (Some (ct_info ct')) = Ret (Inr a)" for w2 a
    using that w by (intro provided_new [of w2 w name ct']) auto
  have tail: "wp (try_bind (State_Monad.return (f (Some (ct_info ct')))) (\<lambda>a.
      try_bind (wait a) (\<lambda>_. State_Monad.return (Ret (Inr (g a)))))) (provided name i f w) w2"
    if w2: "inv w2" "cts w2 = cts w1" for w2
  proof (cases "f (Some (ct_info ct'))")
    case (Ret r)
    show ?thesis
    proof (cases r)
      case (Inr a)
      show ?thesis
        unfolding Ret Inr wp_try_bind wp_return go.case sum.case
        by (rule frame [OF wait w2(1)])
           (use w2 Ret Inr g err val panic in \<open>auto split: go.splits sum.splits simp: calm_def\<close>)
    qed (use Ret w2 err in simp)
  qed (use f in simp)
  show ?thesis
    unfolding wp_try_bind [of "dockerInspect _ _"]
    by (rule wp_mono [OF dockerInspect_ok [OF w(1)]])
       (use tail w err panic nil in \<open>auto split: go.splits sum.splits simp del: wp_try_bind\<close>)
qed

lemma hostPortOf_some: "hostPortOf p (Some i) k \<noteq> Panic"
  by (simp add: hostPortOf_def)

lemma connection_some: "connectionFromInspect p (Some i) \<noteq> Panic"
  using hostPortOf_some [of i "''5432/tcp''"]
  by (auto simp: connectionFromInspect_def split: go.split sum.split prod.split)

lemma endpoint_some: "endpoint_of p (Some i) \<noteq> Panic"
  using hostPortOf_some [of i "''8080/tcp''"]
  by (auto simp: endpoint_of_def split: go.split sum.split prod.split)

lemma nil_panics [simp]: "connectionFromInspect p None = Panic" "endpoint_of p None = Panic"
  by (simp_all add: connectionFromInspect_def endpoint_of_def hostPortOf_def)

lemma wrap_error_ok: "keeps inv cts calm m \<Longrightarrow>
    keeps inv cts calm (do { r \<leftarrow> m; State_Monad.return (wrap_error pre r) })"
  by (erule keeps_bind) (auto intro!: keeps_return simp: wrap_error_def calm_def split: go.splits sum.splits)

lemma made_by_job:
  "made_by (postgres_run_args p j c) ct \<Longrightarrow> ct_job ct = job_ID j \<and> filter pg_var (in_Env (ct_info ct)) = pg_env c"
  "made_by (http_run_args p j) ct \<Longrightarrow> ct_job ct = job_ID j"
  by (auto simp: made_by_def postgres_run_args_def http_run_args_def flag_values_def run_flags_def pg_env_def pg_var_def)

lemma connection_creds:
  "filter pg_var (in_Env i) = pg_env c \<Longrightarrow> connectionFromInspect p (Some i) = Ret (Inr conn) \<Longrightarrow>
     conn\<lparr>conn_Username := cr_user c, conn_Password := cr_pass c, conn_Database := cr_db c\<rparr> = conn"
  by (auto simp: connectionFromInspect_def scan_env_creds split: go.splits sum.splits)

lemma create_postgres_ok:
  assumes "inv w1" "cts w1 = cts w"
  shows "wp (create_postgres p j c) (provided (postgresName j) (job_ID j) (connectionFromInspect p) w) w1"
proof -
  let ?args = "postgres_run_args p j c"
  have args: "?args = ''run'' # ''-d'' # ''--name'' # postgresName j # drop 4 ?args"
    by (simp add: postgres_run_args_def)
  have made: "wp (try_bind (dockerInspect p (postgresName j)) (\<lambda>(info, _).
            try_bind (State_Monad.return (connectionFromInspect p info)) (\<lambda>conn.
            try_bind (do { r \<leftarrow> await_postgres p (postgresName j) (cr_user c) (cr_db c);
                           State_Monad.return (wrap_error ''postgres not ready'' r) }) (\<lambda>_.
            State_Monad.return (Ret (Inr
              (conn\<lparr>conn_Username := cr_user c, conn_Password := cr_pass c, conn_Database := cr_db c\<rparr>)))))))
      (provided (postgresName j) (job_ID j) (connectionFromInspect p) w) w2"
    if "inv w2" "cts w2 = (cts w)(postgresName j \<mapsto> ct)" "made_by ?args ct" "in_Running (ct_info ct)" "cts w (postgresName j) = None" for w2 ct
    using made_by_job(1) [OF that(3)] that
    by (intro fresh_ok wrap_error_ok await_postgres_ok connection_some)
       (auto intro: connection_creds)
  have failed: "provided (postgresName j) (job_ID j) (connectionFromInspect p) w (Ret (Inl e)) w2"
    if "inv w2" "cts w2 = (cts w)(postgresName j \<mapsto> ct)" "made_by ?args ct" "cts w (postgresName j) = None" for w2 ct e
    using made_by_job(1) [OF that(3)] that by (intro provided_new [of w2 w _ ct]) auto
  show ?thesis
    unfolding create_postgres_def wp_bind
    by (rule wp_mono [OF d_run [OF assms(1) args]])
       (use made failed assms in \<open>auto split: option.split simp del: wp_try_bind intro: provided_error\<close>)
qed

lemma newCreds_ok: "keeps inv cts any_result (newCreds p j)"
  unfolding newCreds_def randHex_def
  by (intro keeps_bind_any d_rand keeps_return TrueI)

lemma provisionPostgres_ok:
  assumes "inv w"
  shows "wp (provisionPostgres p j) (provided (postgresName j) (job_ID j) (connectionFromInspect p) w) w"
proof -
  let ?Q = "provided (postgresName j) (job_ID j) (connectionFromInspect p) w"
  have reuse: "wp (try_bind (ensure_running p (postgresName j) (Some (ct_info ct))) (\<lambda>info'.
             try_bind (State_Monad.return (connectionFromInspect p info')) (\<lambda>conn.
             try_bind (await_postgres p (postgresName j) (conn_Username conn) (conn_Database conn)) (\<lambda>_.
             State_Monad.return (Ret (Inr conn)))))) ?Q w1"
    if "inv w1" "cts w1 = cts w" "cts w (postgresName j) = Some ct" for w1 ct
    unfolding provided_cong [OF that(2)]
    by (rule reuse_ok) (use that connection_some await_postgres_ok in simp_all)
  have create: "wp (do { c \<leftarrow> newCreds p j; create_postgres p j c }) ?Q w1"
    if "inv w1" "cts w1 = cts w" for w1
    unfolding wp_bind
    by (rule frame [OF newCreds_ok that(1)]) (use that in \<open>auto intro: create_postgres_ok\<close>)
  show ?thesis
    unfolding provisionPostgres_def Let_def wp_try_bind [of "dockerInspect _ _"]
    by (rule wp_mono [OF dockerInspect_ok [OF assms]])
       (use reuse create in \<open>auto split: go.splits sum.splits simp del: wp_try_bind wp_bind intro: provided_error\<close>)
qed

lemma host_as_endpoint:
  "try_bind (State_Monad.return (hostPortOf p i ''8080/tcp'')) (\<lambda>(host, port).
     try_bind (m host port) (\<lambda>_. State_Monad.return (Ret (Inr \<lparr>http_Host = host, http_Port = port\<rparr>)))) =
   try_bind (State_Monad.return (endpoint_of p i)) (\<lambda>ep.
     try_bind (m (http_Host ep) (http_Port ep)) (\<lambda>_. State_Monad.return (Ret (Inr ep))))"
  by (simp add: try_bind_def [of "State_Monad.return _"] endpoint_of_def split: go.split sum.split prod.split)

lemma create_http_ok:
  assumes "inv w1" "cts w1 = cts w"
  shows "wp (create_http p j) (provided (httpName j) (job_ID j) (endpoint_of p) w) w1"
proof -
  let ?args = "http_run_args p j"
  have args: "?args = ''run'' # ''-d'' # ''--name'' # httpName j # drop 4 ?args"
    by (simp add: http_run_args_def)
  have made: "wp (try_bind (dockerInspect p (httpName j)) (\<lambda>(info, _).
            try_bind (State_Monad.return (endpoint_of p info)) (\<lambda>ep.
            try_bind (do { r \<leftarrow> await_http p (http_Host ep) (http_Port ep);
                           State_Monad.return (wrap_error ''echo not ready'' r) }) (\<lambda>_.
            State_Monad.return (Ret (Inr ep))))))
      (provided (httpName j) (job_ID j) (endpoint_of p) w) w2"
    if "inv w2" "cts w2 = (cts w)(httpName j \<mapsto> ct)" "made_by ?args ct" "in_Running (ct_info ct)" "cts w (httpName j) = None" for w2 ct
    using made_by_job(2) [OF that(3)] that
    by (intro fresh_ok [where g = "\<lambda>a. a"] wrap_error_ok await_http_ok endpoint_some) auto
  have failed: "provided (httpName j) (job_ID j) (endpoint_of p) w (Ret (Inl e)) w2"
    if "inv w2" "cts w2 = (cts w)(httpName j \<mapsto> ct)" "made_by ?args ct" "cts w (httpName j) = None" for w2 ct e
    using made_by_job(2) [OF that(3)] that by (intro provided_new [of w2 w _ ct]) auto
  show ?thesis
    unfolding create_http_def wp_bind host_as_endpoint
    by (rule wp_mono [OF d_run [OF assms(1) args]])
       (use made failed assms in \<open>auto split: option.split simp del: wp_try_bind intro: provided_error\<close>)
qed

lemma provisionHTTP_ok:
  assumes "inv w"
  shows "wp (provisionHTTP p j) (provided (httpName j) (job_ID j) (endpoint_of p) w) w"
proof -
  let ?Q = "provided (httpName j) (job_ID j) (endpoint_of p) w"
  have reuse: "wp (try_bind (ensure_running p (httpName j) (Some (ct_info ct))) (\<lambda>info'.
             try_bind (State_Monad.return (endpoint_of p info')) (\<lambda>ep.
             try_bind (await_http p (http_Host ep) (http_Port ep)) (\<lambda>_.
             State_Monad.return (Ret (Inr ep)))))) ?Q w1"
    if "inv w1" "cts w1 = cts w" "cts w (httpName j) = Some ct" for w1 ct
    unfolding provided_cong [OF that(2)]
    by (rule reuse_ok) (use that endpoint_some await_http_ok in simp_all)
  show ?thesis
    unfolding provisionHTTP_def Let_def wp_try_bind [of "dockerInspect _ _"] host_as_endpoint
    by (rule wp_mono [OF dockerInspect_ok [OF assms]])
       (use reuse create_http_ok in \<open>auto split: go.splits sum.splits simp del: wp_try_bind intro: provided_error\<close>)
qed

end

section \<open>Provision and Deprovision\<close>

text \<open>
  \<open>serves p m j r\<close>: both containers of the job run, and the result is what they show. \<open>grown j m m'\<close>:
  only the two containers of the job may be new or started, and new ones carry its label.
\<close>

definition serves :: "'w shell \<Rightarrow> containers \<Rightarrow> job \<Rightarrow> result \<Rightarrow> bool" where
  "serves p m j r \<longleftrightarrow>
     (\<exists>pg hs conn ep. m (postgresName j) = Some pg \<and> m (httpName j) = Some hs \<and>
        in_Running (ct_info pg) \<and> in_Running (ct_info hs) \<and>
        connectionFromInspect p (Some (ct_info pg)) = Ret (Inr conn) \<and>
        endpoint_of p (Some (ct_info hs)) = Ret (Inr ep) \<and>
        r = \<lparr>res_Connection = Some conn, res_HTTP = Some ep\<rparr>)"

definition grown :: "job \<Rightarrow> containers \<Rightarrow> containers \<Rightarrow> bool" where
  "grown j m m' \<longleftrightarrow>
     (\<forall>n. m' n = m n \<or>
        n \<in> {postgresName j, httpName j} \<and>
        (\<exists>ct'. m' n = Some ct' \<and> (case m n of None \<Rightarrow> ct_job ct' = job_ID j | Some ct \<Rightarrow> kept ct ct')))"

context docker_host
begin

lemma provided_grown:
  "provided n (job_ID j) f w x w' \<Longrightarrow> n \<in> {postgresName j, httpName j} \<Longrightarrow> grown j (cts w) (cts w')"
  by (auto simp: provided_def grown_def split: if_splits)

lemma grown_trans:
  "grown j m m1 \<Longrightarrow> grown j m1 m2 \<Longrightarrow> grown j m m2"
  unfolding grown_def
proof (rule allI, goal_cases)
  case (1 n)
  from 1(1) [rule_format, of n] 1(2) [rule_format, of n] show ?case
    by (cases "m n"; cases "m1 n") (auto simp: kept_def)
qed

lemma both_serve:
  assumes pg: "provided (postgresName j) (job_ID j) (connectionFromInspect p) w (Ret (Inr conn)) w1"
    and hs: "provided (httpName j) (job_ID j) (endpoint_of p) w1 (Ret (Inr ep)) w2"
  shows "serves p (cts w2) j \<lparr>res_Connection = Some conn, res_HTTP = Some ep\<rparr>"
proof -
  from pg obtain ct1 where 1: "cts w1 (postgresName j) = Some ct1" "in_Running (ct_info ct1)"
    "connectionFromInspect p (Some (ct_info ct1)) = Ret (Inr conn)" by (auto simp: provided_def)
  from hs obtain ct2 where 2: "cts w2 = (cts w1)(httpName j \<mapsto> ct2)" "in_Running (ct_info ct2)"
    "endpoint_of p (Some (ct_info ct2)) = Ret (Inr ep)" by (auto simp: provided_def)
  from 1 2 show ?thesis by (simp add: serves_def names_inject)
qed

lemma Shell_Provision_ok:
  assumes "inv w"
  shows "wp (Shell_Provision p j) (\<lambda>x w'. inv w' \<and> grown j (cts w) (cts w') \<and>
     (case x of Panic \<Rightarrow> \<not> clear_answers p cts inv
      | Ret (r, e) \<Rightarrow> (r = None \<and> e \<noteq> None) \<or> (e = None \<and> (\<exists>a. r = Some a \<and> serves p (cts w') j a)))) w"
    (is "wp _ ?Q w")
proof -
  have cls: "\<exists>e'. Classify (sh_lower p) (Some e) = Some e'" for e by (simp add: Classify_Some)
  have http: "?Q (case h of Panic \<Rightarrow> Panic
        | Ret (Inl err) \<Rightarrow> Ret (None, Classify (sh_lower p) (Some (errorf_w ''http'' err)))
        | Ret (Inr ep) \<Rightarrow> Ret (Some \<lparr>res_Connection = Some conn, res_HTTP = Some ep\<rparr>, None)) w2"
    if pg: "provided (postgresName j) (job_ID j) (connectionFromInspect p) w (Ret (Inr conn)) w1"
      and hs: "provided (httpName j) (job_ID j) (endpoint_of p) w1 h w2" for conn h w1 w2
  proof -
    have "grown j (cts w) (cts w2)"
      using grown_trans [OF provided_grown [OF pg] provided_grown [OF hs]] by simp
    moreover have "inv w2" "h = Panic \<longrightarrow> \<not> clear_answers p cts inv" using hs by (simp_all add: provided_def calm_def)
    ultimately show ?thesis
      using both_serve [OF pg] hs cls by (auto split: go.splits sum.splits)
  qed
  have rest: "wp (case c of Panic \<Rightarrow> State_Monad.return Panic
        | Ret (Inl err) \<Rightarrow> State_Monad.return (Ret (None, Classify (sh_lower p) (Some (errorf_w ''postgres'' err))))
        | Ret (Inr conn) \<Rightarrow> do { h \<leftarrow> provisionHTTP p j; State_Monad.return (case h of Panic \<Rightarrow> Panic
            | Ret (Inl err) \<Rightarrow> Ret (None, Classify (sh_lower p) (Some (errorf_w ''http'' err)))
            | Ret (Inr ep) \<Rightarrow> Ret (Some \<lparr>res_Connection = Some conn, res_HTTP = Some ep\<rparr>, None)) }) ?Q w1"
    if c: "provided (postgresName j) (job_ID j) (connectionFromInspect p) w c w1" for c w1
  proof (cases c)
    case (Ret r)
    have w1: "inv w1" "grown j (cts w) (cts w1)" using c provided_grown [OF c] by (simp_all add: provided_def)
    show ?thesis
    proof (cases r)
      case (Inl err)
      with Ret w1 cls show ?thesis by simp
    next
      case (Inr conn)
      from c Ret Inr have pg: "provided (postgresName j) (job_ID j) (connectionFromInspect p) w (Ret (Inr conn)) w1" by simp
      show ?thesis
        unfolding Ret Inr go.case sum.case wp_bind wp_return
        by (rule wp_mono [OF provisionHTTP_ok [OF w1(1)]]) (rule http [OF pg])
    qed
  qed (use c provided_grown [OF c] in \<open>simp add: provided_def calm_def\<close>)
  show ?thesis
    unfolding Shell_Provision_def wp_bind by (rule wp_mono [OF provisionPostgres_ok [OF assms]], rule rest)
qed

text \<open>Idempotence: where the job is served already, nothing changes and the same result comes back.\<close>

lemma serves_grown:
  assumes "serves p m j r" "grown j m m'"
  shows "m' = m"
proof
  fix n
  from assms show "m' n = m n" by (fastforce simp: serves_def grown_def kept_def)
qed

lemma serves_unique: "serves p m j r \<Longrightarrow> serves p m j r' \<Longrightarrow> r' = r"
  by (auto simp: serves_def)

lemma Shell_Provision_again:
  assumes "inv w" "clear_answers p cts inv" "serves p (cts w) j r"
  shows "wp (Shell_Provision p j) (\<lambda>x w'. inv w' \<and> cts w' = cts w \<and>
     ((\<exists>e. x = Ret (None, Some e)) \<or> x = Ret (Some r, None))) w"
proof (rule wp_mono [OF Shell_Provision_ok [OF assms(1), of j]], goal_cases)
  case (1 x w')
  with serves_grown [OF assms(3)] have "cts w' = cts w" by blast
  with 1 serves_unique [OF assms(3)] assms(2) show ?case by (auto split: go.splits)
qed

section \<open>Deprovision\<close>

lemma removed_job:
  assumes "ids_unique m" "X = ct_id ` {ct \<in> ran m. ct_job ct = i}"
  shows "removed X m n = (case m n of None \<Rightarrow> None | Some ct \<Rightarrow> if ct_job ct = i then None else Some ct)"
proof (cases "m n")
  case (Some ct)
  have "ct_id ct \<in> X \<longleftrightarrow> ct_job ct = i"
  proof
    assume "ct_id ct \<in> X"
    then obtain n' ct' where "m n' = Some ct'" "ct_job ct' = i" "ct_id ct' = ct_id ct"
      by (auto simp: assms(2) ran_def)
    with assms(1) Some show "ct_job ct = i" unfolding ids_unique_def by (metis option.inject)
  qed (use Some in \<open>auto simp: assms(2) ran_def\<close>)
  with Some show ?thesis by (simp add: removed_def)
qed (simp add: removed_def)

lemma Shell_Deprovision_ok:
  assumes "inv w"
  shows "wp (Shell_Deprovision p j) (\<lambda>e w'. inv w' \<and>
     (\<forall>n. cts w' n = cts w n \<or> cts w' n = None \<and> (\<exists>ct. cts w n = Some ct \<and> ct_job ct = job_ID j)) \<and>
     (e = None \<longrightarrow> (\<forall>n. cts w' n = (case cts w n of None \<Rightarrow> None
        | Some ct \<Rightarrow> if ct_job ct = job_ID j then None else Some ct)))) w" (is "wp _ ?Q w")
proof -
  let ?X = "ct_id ` {ct \<in> ran (cts w). ct_job ct = job_ID j}"
  note whole = removed_job [OF unique [OF assms] refl, of "job_ID j"]
  have part: "removed X (cts w) n = cts w n \<or>
      removed X (cts w) n = None \<and> (\<exists>ct. cts w n = Some ct \<and> ct_job ct = job_ID j)" if "X \<subseteq> ?X" for X n
    using whole [of n] that by (auto simp: removed_def split: option.splits if_splits)
  have rm: "wp (dk_CombinedOutput (sh_docker p) ([''rm'', ''-f''] @ ids)) (\<lambda>c.
       ?Q (case co_err c of Some err \<Rightarrow> Some (errorf_ws ''docker rm -f'' err (trim_space (co_out c))) | None \<Rightarrow> None)) w1"
    if w1: "inv w1" "cts w1 = cts w" "set ids = ?X" for ids w1
  proof (rule wp_mono [OF d_rm [OF w1(1)]], goal_cases)
    case (1 c w')
    then obtain X where X: "X \<subseteq> ?X" "cts w' = removed X (cts w)" "co_err c = None \<longrightarrow> X = ?X" "inv w'"
      using w1 by auto
    show ?case using X(3,4) part [OF X(1)] whole unfolding X(2) by (cases "co_err c") simp_all
  qed
  show ?thesis
    unfolding Shell_Deprovision_def Let_def wp_bind
    by (rule wp_mono [OF d_ps [OF assms]])
       (use rm in \<open>auto split: option.split dest: ranI\<close>)
qed

end

end
