(* ===== verification/Worker.thy ===== *)
theory Worker
  imports Interfaces
begin

text \<open>
  \<open>internal/worker/worker.go\<close>: the consumer that turns queued jobs into resources. The record
  \<open>worker\<close> is the struct \<open>Worker\<close> (its logger apart), with the clock and the context it uses in
  \<open>wk_Sys\<close>. \<open>handle\<close> is one message, \<open>provision\<close> and \<open>deprovision\<close> its two branches; \<open>run_loop\<close>
  and \<open>reclaim_tick\<close> are the bodies of the two loops. Errors that the source assigns to \<open>_\<close> are
  dropped here too. A nil dereference of the provisioner's result is the value \<open>Panic\<close>, and a panic of the
  provisioner passes through.
\<close>

section \<open>The worker\<close>

record 'w worker =
  wk_Name :: string
  wk_Store :: "'w store_if"
  wk_Queue :: "'w queue_if"
  wk_Provision :: "'w prov_if"
  wk_XDS :: "'w xds_if option"
  wk_Sys :: "'w sys_if"
  wk_BlockTimeout :: duration
  wk_ReclaimEvery :: duration
  wk_ReclaimMinIdle :: duration
  wk_MaxAttempts :: int

definition defaultBlockTimeout :: duration where "defaultBlockTimeout = 5 * second"
definition defaultReclaimEvery :: duration where "defaultReclaimEvery = 30 * second"
definition defaultReclaimMinIdle :: duration where "defaultReclaimMinIdle = 2 * minute"
definition defaultMaxAttempts :: int where "defaultMaxAttempts = 3"

text \<open>\<open>xdsclient.Noop\<close>.\<close>

definition Noop :: "'w xds_if" where
  "Noop = \<lparr>xds_Register = (\<lambda>_ _ _. State_Monad.return None),
           xds_Unregister = (\<lambda>_ _ _. State_Monad.return None)\<rparr>"

definition applyDefaults :: "'w worker \<Rightarrow> 'w worker" where
  "applyDefaults w =
     (let w1 = (if wk_BlockTimeout w = 0 then w\<lparr>wk_BlockTimeout := defaultBlockTimeout\<rparr> else w);
          w2 = (if wk_ReclaimEvery w1 = 0 then w1\<lparr>wk_ReclaimEvery := defaultReclaimEvery\<rparr> else w1);
          w3 = (if wk_ReclaimMinIdle w2 = 0 then w2\<lparr>wk_ReclaimMinIdle := defaultReclaimMinIdle\<rparr> else w2);
          w4 = (if wk_MaxAttempts w3 = 0 then w3\<lparr>wk_MaxAttempts := defaultMaxAttempts\<rparr> else w3);
          w5 = (if wk_XDS w4 = None then w4\<lparr>wk_XDS := Some Noop\<rparr> else w4)
      in w5)"

text \<open>
  \<open>w.XDS\<close> as it is used: \<open>Run\<close> has replaced a nil client by \<open>Noop\<close> before any message is
  handled.
\<close>

definition the_XDS :: "'w worker \<Rightarrow> 'w xds_if" where
  "the_XDS w = (case wk_XDS w of None \<Rightarrow> Noop | Some x \<Rightarrow> x)"

section \<open>Handling one message\<close>

definition abandoned_detail :: "int \<Rightarrow> string" where
  "abandoned_detail n = ''abandoned after '' @ show_int n @ '' attempts''"

definition transient_detail :: "goerr \<Rightarrow> string" where
  "transient_detail err = ''transient: '' @ err_msg err"

definition teardown_detail :: "goerr \<Rightarrow> string" where
  "teardown_detail err = ''deprovision failed: '' @ err_msg err"

text \<open>The poison-message branch: \<open>job\<close> already carries the raised counter.\<close>

definition abandon :: "'w worker \<Rightarrow> message \<Rightarrow> job \<Rightarrow> ('w, unit go) state" where
  "abandon w msg job =
     (let detail = abandoned_detail (wrap64 (job_Attempts job - 1))
      in do {
           t \<leftarrow> sys_now (wk_Sys w);
           _ \<leftarrow> store_Put (wk_Store w)
                  (job\<lparr>job_Status := StatusFailed, job_Detail := detail, job_UpdatedAt := t\<rparr>);
           _ \<leftarrow> queue_Ack (wk_Queue w) msg;
           _ \<leftarrow> queue_DeadLetter (wk_Queue w) msg detail (wrap64 (job_Attempts job - 1));
           State_Monad.return (Ret ())
         })"

text \<open>The two ways a provisioner's error is recorded.\<close>

definition provision_failed :: "'w worker \<Rightarrow> message \<Rightarrow> job \<Rightarrow> goerr \<Rightarrow> ('w, unit go) state" where
  "provision_failed w msg job err =
     (if errors_is err ErrTransient
      then do {
             t \<leftarrow> sys_now (wk_Sys w);
             _ \<leftarrow> store_Put (wk_Store w)
                    (job\<lparr>job_Detail := transient_detail err, job_UpdatedAt := t\<rparr>);
             State_Monad.return (Ret ())
           }
      else do {
             t \<leftarrow> sys_now (wk_Sys w);
             _ \<leftarrow> store_Put (wk_Store w)
                    (job\<lparr>job_Status := StatusFailed, job_Detail := err_msg err, job_UpdatedAt := t\<rparr>);
             _ \<leftarrow> queue_Ack (wk_Queue w) msg;
             _ \<leftarrow> queue_DeadLetter (wk_Queue w) msg (err_msg err) (job_Attempts job);
             State_Monad.return (Ret ())
           })"

text \<open>
  The success path. Reading \<open>res.Connection\<close> of a nil result panics at once; \<open>res.HTTP.Host\<close>
  panics after the job was stored, \<open>res.Connection.Host\<close> (in the last log line) after the ack.
\<close>

definition provision_ready :: "'w worker \<Rightarrow> message \<Rightarrow> job \<Rightarrow> result option \<Rightarrow> ('w, unit go) state" where
  "provision_ready w msg job res =
     (case res of
        None \<Rightarrow> State_Monad.return Panic
      | Some r \<Rightarrow> do {
          t \<leftarrow> sys_now (wk_Sys w);
          _ \<leftarrow> store_Put (wk_Store w)
                 (job\<lparr>job_Status := StatusReady, job_Connection := res_Connection r,
                      job_HTTP := res_HTTP r, job_Detail := [], job_UpdatedAt := t\<rparr>);
          (case res_HTTP r of
             None \<Rightarrow> State_Monad.return Panic
           | Some h \<Rightarrow> do {
               _ \<leftarrow> xds_Register (the_XDS w) (job_ServiceName job) (http_Host h) (http_Port h);
               _ \<leftarrow> queue_Ack (wk_Queue w) msg;
               State_Monad.return (if res_Connection r = None then Panic else Ret ())
             })
        })"

definition provision :: "'w worker \<Rightarrow> message \<Rightarrow> job \<Rightarrow> ('w, unit go) state" where
  "provision w msg job =
     (if job_Status job = StatusReady
      then do { _ \<leftarrow> queue_Ack (wk_Queue w) msg; State_Monad.return (Ret ()) }
      else if job_Status job = StatusDeleting \<or> job_Status job = StatusDeleted
      then do { _ \<leftarrow> queue_Ack (wk_Queue w) msg; State_Monad.return (Ret ()) }
      else
        (let job1 = job\<lparr>job_Attempts := wrap64 (job_Attempts job + 1)\<rparr>
         in if job_Attempts job1 > wk_MaxAttempts w then abandon w msg job1
            else do {
              t \<leftarrow> sys_now (wk_Sys w);
              let job2 = job1\<lparr>job_Status := StatusProvisioning, job_Detail := [], job_UpdatedAt := t\<rparr>;
              _ \<leftarrow> store_Put (wk_Store w) job2;
              x \<leftarrow> prov_Provision (wk_Provision w) job2;
              (case x of
                 Ret (res, err) \<Rightarrow>
                   (case err of
                      Some e \<Rightarrow> provision_failed w msg job2 e
                    | None \<Rightarrow> provision_ready w msg job2 res)
               | Panic \<Rightarrow> State_Monad.return Panic)
            }))"

definition deprovision :: "'w worker \<Rightarrow> message \<Rightarrow> job \<Rightarrow> ('w, unit go) state" where
  "deprovision w msg job =
     (if job_Status job = StatusDeleted
      then do { _ \<leftarrow> queue_Ack (wk_Queue w) msg; State_Monad.return (Ret ()) }
      else do {
        _ \<leftarrow> (case job_HTTP job of
                None \<Rightarrow> State_Monad.return None
              | Some h \<Rightarrow> xds_Unregister (the_XDS w) (job_ServiceName job) (http_Host h) (http_Port h));
        err \<leftarrow> prov_Deprovision (wk_Provision w) job;
        (case err of
           Some e \<Rightarrow> do {
             t \<leftarrow> sys_now (wk_Sys w);
             _ \<leftarrow> store_Put (wk_Store w)
                    (job\<lparr>job_Detail := teardown_detail e, job_UpdatedAt := t\<rparr>);
             _ \<leftarrow> queue_Ack (wk_Queue w) msg;
             State_Monad.return (Ret ())
           }
         | None \<Rightarrow> do {
             t \<leftarrow> sys_now (wk_Sys w);
             _ \<leftarrow> store_Put (wk_Store w)
                    (job\<lparr>job_Status := StatusDeleted, job_Detail := [], job_Connection := None,
                         job_HTTP := None, job_UpdatedAt := t\<rparr>);
             _ \<leftarrow> queue_Ack (wk_Queue w) msg;
             State_Monad.return (Ret ())
           })
      })"

definition handle :: "'w worker \<Rightarrow> message \<Rightarrow> ('w, unit go) state" where
  "handle w msg =
     do {
       res \<leftarrow> store_Get (wk_Store w) (msg_JobID msg);
       (case res of
          Inl err \<Rightarrow> do { _ \<leftarrow> queue_Ack (wk_Queue w) msg; State_Monad.return (Ret ()) }
        | Inr job \<Rightarrow>
            if msg_Action msg = ActionDeprovision then deprovision w msg job
            else provision w msg job)
     }"

section \<open>The two loops\<close>

text \<open>
  One iteration of \<open>Run\<close>: \<open>None\<close> says the loop goes on. The loop itself runs until the
  context is done; \<open>run_loop n\<close> is at most \<open>n\<close> iterations of it, and \<open>None\<close> is a worker that is
  still running after them.
\<close>

datatype loop_end = Stopped | Crashed

definition run_iter :: "'w worker \<Rightarrow> ('w, loop_end option) state" where
  "run_iter w =
     do {
       e0 \<leftarrow> sys_ctx_err (wk_Sys w);
       (if e0 \<noteq> None then State_Monad.return (Some Stopped)
        else do {
          res \<leftarrow> queue_Dequeue (wk_Queue w) (wk_Name w) (wk_BlockTimeout w);
          (case res of
             Inl err \<Rightarrow> do {
               e1 \<leftarrow> sys_ctx_err (wk_Sys w);
               (if e1 \<noteq> None then State_Monad.return (Some Stopped)
                else do { _ \<leftarrow> sys_sleep (wk_Sys w) second; State_Monad.return None })
             }
           | Inr m \<Rightarrow>
               (case m of
                  None \<Rightarrow> State_Monad.return None
                | Some msg \<Rightarrow> do {
                    r \<leftarrow> handle w msg;
                    State_Monad.return (case r of Ret _ \<Rightarrow> None | Panic \<Rightarrow> Some Crashed)
                  }))
        })
     }"

fun run_loop :: "nat \<Rightarrow> 'w worker \<Rightarrow> ('w, loop_end option) state" where
  "run_loop 0 w = State_Monad.return None"
| "run_loop (Suc n) w =
     do {
       r \<leftarrow> run_iter w;
       (case r of Some e \<Rightarrow> State_Monad.return (Some e) | None \<Rightarrow> run_loop n w)
     }"

text \<open>One tick of \<open>reclaimLoop\<close>: take over stale messages and handle them in turn.\<close>

fun reclaim_msgs :: "'w worker \<Rightarrow> message list \<Rightarrow> ('w, loop_end option) state" where
  "reclaim_msgs w [] = State_Monad.return None"
| "reclaim_msgs w (msg # msgs) =
     do {
       e \<leftarrow> sys_ctx_err (wk_Sys w);
       (if e \<noteq> None then State_Monad.return (Some Stopped)
        else do {
          r \<leftarrow> handle w msg;
          (case r of Panic \<Rightarrow> State_Monad.return (Some Crashed) | Ret _ \<Rightarrow> reclaim_msgs w msgs)
        })
     }"

definition reclaim_tick :: "'w worker \<Rightarrow> ('w, loop_end option) state" where
  "reclaim_tick w =
     do {
       res \<leftarrow> queue_Reclaim (wk_Queue w) (wk_Name w) (wk_ReclaimMinIdle w) 16;
       (case res of
          Inl err \<Rightarrow> do {
            e \<leftarrow> sys_ctx_err (wk_Sys w);
            State_Monad.return (if e \<noteq> None then Some Stopped else None)
          }
        | Inr msgs \<Rightarrow> reclaim_msgs w msgs)
     }"

text \<open>
  \<open>reclaimLoop\<close>: \<open>time.NewTicker\<close> panics on an interval that is not positive; then \<open>n\<close> ticks arrive
  before the context is done.
\<close>

fun reclaim_ticks :: "nat \<Rightarrow> 'w worker \<Rightarrow> ('w, loop_end option) state" where
  "reclaim_ticks 0 w = State_Monad.return None"
| "reclaim_ticks (Suc n) w =
     do {
       r \<leftarrow> reclaim_tick w;
       (case r of Some e \<Rightarrow> State_Monad.return (Some e) | None \<Rightarrow> reclaim_ticks n w)
     }"

definition reclaimLoop :: "nat \<Rightarrow> 'w worker \<Rightarrow> ('w, loop_end option) state" where
  "reclaimLoop n w =
     (if wk_ReclaimEvery w \<le> 0 then State_Monad.return (Some Crashed) else reclaim_ticks n w)"

text \<open>\<open>Run\<close>'s own loop, after the defaults are filled in.\<close>

definition Worker_Run :: "nat \<Rightarrow> 'w worker \<Rightarrow> ('w, loop_end option) state" where
  "Worker_Run n w = run_loop n (applyDefaults w)"

lemmas handler_defs = handle_def provision_def deprovision_def abandon_def provision_failed_def
  provision_ready_def Let_def

end
