(* ===== verification/Worker_Order.thy ===== *)
theory Worker_Order
  imports Worker
begin

text \<open>
  The order of the calls a worker makes while it handles one message, for every implementation
  of the store, the queue, the provisioner and the control plane's client. \<open>traced_worker\<close> runs
  the same handler over implementations that write their calls down (\<open>handle_sim\<close>: it does
  nothing else); \<open>handle_shape\<close> lists the call sequences the handler can make, and the ordering
  properties are read off that list.
\<close>

definition traced_worker :: "'w worker \<Rightarrow> ('w \<times> event list) worker" where
  "traced_worker w =
     \<lparr>wk_Name = wk_Name w, wk_Store = traced_store (wk_Store w), wk_Queue = traced_queue (wk_Queue w),
      wk_Provision = traced_prov (wk_Provision w), wk_XDS = Some (traced_xds (the_XDS w)),
      wk_Sys = traced_sys (wk_Sys w), wk_BlockTimeout = wk_BlockTimeout w,
      wk_ReclaimEvery = wk_ReclaimEvery w, wk_ReclaimMinIdle = wk_ReclaimMinIdle w,
      wk_MaxAttempts = wk_MaxAttempts w\<rparr>"

section \<open>Tracing changes nothing\<close>

lemma sim_xds_Register: "sim (xds_Register (the_XDS w) s h p) (xds_Register (the_XDS (traced_worker w)) s h p)"
  by (subst (2) the_XDS_def) (simp add: traced_worker_def traced_xds_def sim_intros)

lemma sim_xds_Unregister:
  "sim (xds_Unregister (the_XDS w) s h p) (xds_Unregister (the_XDS (traced_worker w)) s h p)"
  by (subst (2) the_XDS_def) (simp add: traced_worker_def traced_xds_def sim_intros)

lemma sim_calls [sim_intros]:
  "sim (store_Get (wk_Store w) i) (store_Get (wk_Store (traced_worker w)) i)"
  "sim (store_Put (wk_Store w) j) (store_Put (wk_Store (traced_worker w)) j)"
  "sim (queue_Ack (wk_Queue w) m) (queue_Ack (wk_Queue (traced_worker w)) m)"
  "sim (queue_DeadLetter (wk_Queue w) m d n) (queue_DeadLetter (wk_Queue (traced_worker w)) m d n)"
  "sim (prov_Provision (wk_Provision w) j) (prov_Provision (wk_Provision (traced_worker w)) j)"
  "sim (prov_Deprovision (wk_Provision w) j) (prov_Deprovision (wk_Provision (traced_worker w)) j)"
  "sim (sys_now (wk_Sys w)) (sys_now (wk_Sys (traced_worker w)))"
  by (simp_all add: traced_worker_def traced_defs sim_intros)

lemmas sim_worker = sim_intros sim_xds_Register sim_xds_Unregister

lemma sim_provision: "sim (provision w msg job) (provision (traced_worker w) msg job)"
  unfolding provision_def abandon_def provision_failed_def provision_ready_def Let_def
  by (simp only: traced_worker_def [THEN arg_cong, of wk_MaxAttempts] worker.select_convs)
     (intro sim_worker)

lemma sim_deprovision: "sim (deprovision w msg job) (deprovision (traced_worker w) msg job)"
  unfolding deprovision_def by (intro sim_worker)

lemma handle_sim: "sim (handle w msg) (handle (traced_worker w) msg)"
  unfolding handle_def by (intro sim_worker sim_provision sim_deprovision)

section \<open>The call sequences\<close>

text \<open>
  One rule per way through \<open>handle\<close>, in the order of the source. \<open>M\<close> is \<open>MaxAttempts\<close>;
  \<open>begun M j\<close> says that \<open>j\<close> is a job as it is stored just before provisioning starts.
\<close>

definition begun :: "int \<Rightarrow> job \<Rightarrow> bool" where
  "begun M j \<longleftrightarrow> job_Status j = StatusProvisioning \<and> job_Attempts j \<le> M \<and> job_Detail j = []"

inductive calls :: "int \<Rightarrow> message \<Rightarrow> event list \<Rightarrow> bool" for M msg where
  only_ack: "calls M msg [EvGet (msg_JobID msg), EvAck msg e]"
| abandoned: "job_Status j = StatusFailed \<Longrightarrow> d = job_Detail j \<Longrightarrow>
    calls M msg [EvGet (msg_JobID msg), EvPut j e1, EvAck msg e2, EvDeadLetter msg d n e3]"
| transient: "begun M j \<Longrightarrow> errors_is e ErrTransient \<Longrightarrow>
    calls M msg [EvGet (msg_JobID msg), EvPut j e1, EvProvision j r (Some e),
      EvPut (j\<lparr>job_Detail := transient_detail e, job_UpdatedAt := t\<rparr>) e2]"
| permanent: "begun M j \<Longrightarrow> \<not> errors_is e ErrTransient \<Longrightarrow>
    calls M msg [EvGet (msg_JobID msg), EvPut j e1, EvProvision j r (Some e),
      EvPut (j\<lparr>job_Status := StatusFailed, job_Detail := err_msg e, job_UpdatedAt := t\<rparr>) e2,
      EvAck msg e3, EvDeadLetter msg (err_msg e) (job_Attempts j) e4]"
| ready: "begun M j \<Longrightarrow> res_HTTP r = Some h \<Longrightarrow>
    calls M msg [EvGet (msg_JobID msg), EvPut j e1, EvProvision j (Some r) None,
      EvPut (j\<lparr>job_Status := StatusReady, job_Connection := res_Connection r, job_HTTP := res_HTTP r,
               job_Detail := [], job_UpdatedAt := t\<rparr>) e2,
      EvRegister (job_ServiceName j) (http_Host h) (http_Port h), EvAck msg e3]"
| panicked: "begun M j \<Longrightarrow>
    calls M msg [EvGet (msg_JobID msg), EvPut j e1, EvProvisionPanic j]"
| nil_result: "begun M j \<Longrightarrow>
    calls M msg [EvGet (msg_JobID msg), EvPut j e1, EvProvision j None None]"
| nil_http: "begun M j \<Longrightarrow> res_HTTP r = None \<Longrightarrow>
    calls M msg [EvGet (msg_JobID msg), EvPut j e1, EvProvision j (Some r) None,
      EvPut (j\<lparr>job_Status := StatusReady, job_Connection := res_Connection r, job_HTTP := None,
               job_Detail := [], job_UpdatedAt := t\<rparr>) e2]"
| deleted: "job_HTTP j = None \<Longrightarrow>
    calls M msg [EvGet (msg_JobID msg), EvDeprovision j None,
      EvPut (j\<lparr>job_Status := StatusDeleted, job_Detail := [], job_Connection := None,
               job_HTTP := None, job_UpdatedAt := t\<rparr>) e1, EvAck msg e2]"
| deleted_routed: "job_HTTP j = Some h \<Longrightarrow>
    calls M msg [EvGet (msg_JobID msg), EvUnregister (job_ServiceName j) (http_Host h) (http_Port h),
      EvDeprovision j None,
      EvPut (j\<lparr>job_Status := StatusDeleted, job_Detail := [], job_Connection := None,
               job_HTTP := None, job_UpdatedAt := t\<rparr>) e1, EvAck msg e2]"
| teardown_failed: "job_HTTP j = None \<Longrightarrow>
    calls M msg [EvGet (msg_JobID msg), EvDeprovision j (Some e),
      EvPut (j\<lparr>job_Detail := teardown_detail e, job_UpdatedAt := t\<rparr>) e1, EvAck msg e2]"
| teardown_failed_routed: "job_HTTP j = Some h \<Longrightarrow>
    calls M msg [EvGet (msg_JobID msg), EvUnregister (job_ServiceName j) (http_Host h) (http_Port h),
      EvDeprovision j (Some e),
      EvPut (j\<lparr>job_Detail := teardown_detail e, job_UpdatedAt := t\<rparr>) e1, EvAck msg e2]"

lemma traced_worker_ops [simp]:
  "store_Get (wk_Store (traced_worker w)) i = logged (\<lambda>_. EvGet i) (store_Get (wk_Store w) i)"
  "store_Put (wk_Store (traced_worker w)) j = logged (EvPut j) (store_Put (wk_Store w) j)"
  "queue_Ack (wk_Queue (traced_worker w)) m = logged (EvAck m) (queue_Ack (wk_Queue w) m)"
  "queue_DeadLetter (wk_Queue (traced_worker w)) m d n =
     logged (EvDeadLetter m d n) (queue_DeadLetter (wk_Queue w) m d n)"
  "prov_Provision (wk_Provision (traced_worker w)) j =
     logged (prov_event j) (prov_Provision (wk_Provision w) j)"
  "prov_Deprovision (wk_Provision (traced_worker w)) j =
     logged (EvDeprovision j) (prov_Deprovision (wk_Provision w) j)"
  "xds_Register (the_XDS (traced_worker w)) s h p =
     logged (\<lambda>_. EvRegister s h p) (xds_Register (the_XDS w) s h p)"
  "xds_Unregister (the_XDS (traced_worker w)) s h p =
     logged (\<lambda>_. EvUnregister s h p) (xds_Unregister (the_XDS w) s h p)"
  "sys_now (wk_Sys (traced_worker w)) = unlogged (sys_now (wk_Sys w))"
  "wk_MaxAttempts (traced_worker w) = wk_MaxAttempts w"
  by (simp_all add: traced_worker_def traced_defs the_XDS_def)

definition made :: "'w worker \<Rightarrow> message \<Rightarrow> event list \<Rightarrow> event list \<Rightarrow> unit go \<Rightarrow> 'w \<times> event list \<Rightarrow> bool" where
  "made w msg pre tr r s \<longleftrightarrow> (\<exists>new. snd s = tr @ new \<and> calls (wk_MaxAttempts w) msg (pre @ new))"

lemma made_append [simp]: "made w msg pre tr r (s, tr @ new) \<longleftrightarrow> calls (wk_MaxAttempts w) msg (pre @ new)"
  by (simp add: made_def)

lemma made_same [simp]: "made w msg pre tr r (s, tr) \<longleftrightarrow> calls (wk_MaxAttempts w) msg pre"
  by (simp add: made_def)

lemma abandon_calls:
  "wp (abandon (traced_worker w) msg job) (made w msg [EvGet (msg_JobID msg)] tr) (s, tr)"
  by (simp add: abandon_def Let_def) (auto intro!: wp_any calls.abandoned)

lemma provision_failed_calls:
  assumes "begun (wk_MaxAttempts w) job"
  shows "wp (provision_failed (traced_worker w) msg job err)
    (made w msg [EvGet (msg_JobID msg), EvPut job e1, EvProvision job r (Some err)] tr) (s, tr)"
  using assms
  by (simp add: provision_failed_def) (auto intro!: wp_any calls.transient calls.permanent)

lemma provision_ready_calls:
  assumes "begun (wk_MaxAttempts w) job"
  shows "wp (provision_ready (traced_worker w) msg job res)
    (made w msg [EvGet (msg_JobID msg), EvPut job e1, EvProvision job res None] tr) (s, tr)"
proof (cases res)
  case None
  with assms show ?thesis by (simp add: provision_ready_def calls.nil_result)
next
  case (Some r)
  show ?thesis
  proof (cases "res_HTTP r")
    case None
    with Some assms show ?thesis
      by (simp add: provision_ready_def) (auto intro!: wp_any calls.nil_http)
  next
    case (Some h)
    with \<open>res = Some r\<close> assms show ?thesis
      using calls.ready [OF assms Some]
      by (simp add: provision_ready_def) (auto intro!: wp_any)
  qed
qed

lemma made_shift:
  "made w msg (pre @ new) (tr @ new) r s \<Longrightarrow> made w msg pre tr r s"
  by (auto simp: made_def)

lemma provision_calls:
  "wp (provision (traced_worker w) msg job) (made w msg [EvGet (msg_JobID msg)] tr) (s, tr)"
proof -
  have go: "wp (case err of Some e \<Rightarrow> provision_failed (traced_worker w) msg j e
        | None \<Rightarrow> provision_ready (traced_worker w) msg j res)
      (made w msg [EvGet (msg_JobID msg)] tr) (s', tr @ [EvPut j e1, EvProvision j res err])"
    if "begun (wk_MaxAttempts w) j" for j res err e1 s'
  proof (cases err)
    case None
    show ?thesis unfolding None option.case
      by (rule wp_mono [OF provision_ready_calls [OF that, where ?e1.0 = e1]])
         (rule made_shift [where new = "[EvPut j e1, EvProvision j res None]"], simp)
  next
    case (Some e)
    show ?thesis unfolding Some option.case
      by (rule wp_mono [OF provision_failed_calls [OF that, where ?e1.0 = e1 and r = res]])
         (rule made_shift [where new = "[EvPut j e1, EvProvision j res (Some e)]"], simp)
  qed
  show ?thesis
    unfolding provision_def Let_def
    by (auto simp: abandon_calls wp_case_prod wp_case_go begun_def split: prod.splits go.split
        intro!: wp_any calls.only_ack calls.panicked go)
qed

lemma deprovision_calls:
  "wp (deprovision (traced_worker w) msg job) (made w msg [EvGet (msg_JobID msg)] tr) (s, tr)"
proof (cases "job_HTTP job")
  case None
  then show ?thesis
    by (simp add: deprovision_def wp_case_option)
       (auto intro!: wp_any calls.only_ack calls.deleted calls.teardown_failed split: option.split)
next
  case (Some h)
  then show ?thesis
    by (simp add: deprovision_def wp_case_option)
       (auto intro!: wp_any calls.only_ack calls.deleted_routed calls.teardown_failed_routed
        split: option.split)
qed

lemma handle_calls:
  "wp (handle (traced_worker w) msg) (made w msg [] tr) (s, tr)"
proof -
  have shift: "wp m (made w msg [] tr) (s', tr @ [EvGet (msg_JobID msg)])"
    if "wp m (made w msg [EvGet (msg_JobID msg)] (tr @ [EvGet (msg_JobID msg)])) (s', tr @ [EvGet (msg_JobID msg)])"
    for m s'
    by (rule wp_mono [OF that]) (rule made_shift [where new = "[EvGet (msg_JobID msg)]"], simp)
  show ?thesis
    by (simp add: handle_def wp_case_sum)
       (auto intro!: wp_any shift provision_calls deprovision_calls calls.only_ack split: sum.split)
qed

theorem handle_shape:
  assumes "run_state (handle (traced_worker w) msg) (s, tr) = (r, (s', tr'))"
  shows "\<exists>new. tr' = tr @ new \<and> calls (wk_MaxAttempts w) msg new"
  using wp_runD [OF handle_calls assms] by (simp add: made_def)

end
