(* ===== verification/Store.thy ===== *)
theory Store
  imports Interfaces
begin

text \<open>
  \<open>internal/store/store.go\<close>: the contract of a job store, as the locale \<open>job_store\<close>, and the
  in-memory implementation. \<open>MemStore\<close> keeps pointers, so it is modelled over a heap: \<open>Put\<close>
  stores the caller's pointer and \<open>Get\<close> hands the stored pointer out. \<open>mem_store\<close> is that
  implementation seen through the interface, with a fresh record for every job handed to \<open>Put\<close>
  and the record a pointer names for every job handed out.
\<close>

section \<open>The contract\<close>

text \<open>
  \<open>jobs\<close> is the view of the store as a partial map. It is the contract for jobs that JSON can
  carry. A \<open>Put\<close> that reports an error may or may not have taken effect, as a request over a
  network may.
\<close>

locale job_store =
  fixes st :: "'w store_if"
    and jobs :: "'w \<Rightarrow> string \<Rightarrow> job option"
    and inv :: "'w \<Rightarrow> bool"
  assumes put: "inv w \<Longrightarrow> job_ok j \<Longrightarrow> wp (store_Put st j)
      (\<lambda>e w'. inv w' \<and> (jobs w' = (jobs w)(job_ID j \<mapsto> j) \<or> e \<noteq> None \<and> jobs w' = jobs w)) w"
    and get: "inv w \<Longrightarrow> wp (store_Get st i)
      (\<lambda>r w'. inv w' \<and> jobs w' = jobs w \<and>
         (case r of Inr j \<Rightarrow> jobs w i = Some j | Inl e \<Rightarrow> errors_is e ErrNotFound \<longrightarrow> jobs w i = None)) w"
    and list: "inv w \<Longrightarrow> wp (store_List st)
      (\<lambda>r w'. inv w' \<and> jobs w' = jobs w \<and> (case r of Inr js \<Rightarrow> set js = ran (jobs w) | Inl _ \<Rightarrow> True)) w"
    and keyed: "inv w \<Longrightarrow> jobs w i = Some j \<Longrightarrow> job_ID j = i \<and> job_ok j"
begin

text \<open>What was put is what is got back, unless one of the two calls reports an error.\<close>

lemma put_get:
  assumes "inv w" "job_ok j"
  shows "wp (do { e \<leftarrow> store_Put st j; r \<leftarrow> store_Get st (job_ID j); State_Monad.return (e, r) })
    (\<lambda>(e, r) w'. e = None \<longrightarrow> (case r of Inr j' \<Rightarrow> j' = j | Inl err \<Rightarrow> \<not> errors_is err ErrNotFound)) w"
proof -
  have "wp (store_Get st (job_ID j))
      (\<lambda>r w'. e = None \<longrightarrow> (case r of Inr j' \<Rightarrow> j' = j | Inl err \<Rightarrow> \<not> errors_is err ErrNotFound)) w1"
    if "inv w1" "jobs w1 = (jobs w)(job_ID j \<mapsto> j) \<or> e \<noteq> None \<and> jobs w1 = jobs w" for e :: "goerr option" and w1
    by (rule wp_mono [OF get [OF that(1)]]) (use that(2) in \<open>auto split: sum.splits\<close>)
  then show ?thesis
    by (auto intro: wp_mono [OF put [OF assms]])
qed

lemma put_other:
  assumes "inv w" "job_ok j" "i \<noteq> job_ID j"
  shows "wp (store_Put st j) (\<lambda>_ w'. jobs w' i = jobs w i) w"
  by (rule wp_mono [OF put [OF assms(1,2)]]) (use assms(3) in auto)

end

text \<open>The contract holds with any further invariant about things that the store leaves alone.\<close>

lemma job_store_also:
  assumes "job_store st jobs I" and v: "\<And>w. I w \<Longrightarrow> I0 w" "\<And>w. P w \<longleftrightarrow> P0 (v w)"
    and "\<And>j. keeps I0 v any_result (store_Put st j)" "\<And>i. keeps I0 v any_result (store_Get st i)"
      "keeps I0 v any_result (store_List st)"
  shows "job_store st jobs (\<lambda>w. I w \<and> P w)"
proof (unfold_locales, goal_cases)
  case (1 w j)
  then show ?case by (intro wp_also [where I = I and P = P, OF v assms(4)]) (simp_all only: job_store.put [OF assms(1)] simp_thms)
next
  case (2 w i)
  then show ?case by (intro wp_also [where I = I and P = P, OF v assms(5)]) (simp_all only: job_store.get [OF assms(1)] simp_thms)
next
  case (3 w)
  then show ?case by (intro wp_also [where I = I and P = P, OF v assms(6)]) (simp_all only: job_store.list [OF assms(1)] simp_thms)
next
  case (4 w i j)
  then show ?case using job_store.keyed [OF assms(1)] by blast
qed

section \<open>The in-memory store\<close>

type_synonym ptr = nat

record memStore =
  ms_heap :: "job list"
  ms_jobs :: "(string, ptr) gomap"

definition NewMem :: memStore where
  "NewMem = \<lparr>ms_heap = [], ms_jobs = []\<rparr>"

definition MemStore_Put :: "ptr \<Rightarrow> (memStore, goerr option) state" where
  "MemStore_Put p = State (\<lambda>s. (None, s\<lparr>ms_jobs := gm_put (job_ID (ms_heap s ! p)) p (ms_jobs s)\<rparr>))"

definition MemStore_Get :: "string \<Rightarrow> (memStore, goerr + ptr) state" where
  "MemStore_Get i = State (\<lambda>s.
     (case gm_get (ms_jobs s) i of None \<Rightarrow> Inl (Sentinel ErrNotFound) | Some p \<Rightarrow> Inr p, s))"

definition MemStore_List :: "((string, ptr) gomap \<Rightarrow> (string, ptr) gomap) \<Rightarrow> (memStore, goerr + ptr list) state" where
  "MemStore_List rng = State (\<lambda>s. (Inr (map snd (rng (ms_jobs s))), s))"

text \<open>Allocating a record and reading or writing through a pointer.\<close>

definition alloc_job :: "job \<Rightarrow> (memStore, ptr) state" where
  "alloc_job j = State (\<lambda>s. (length (ms_heap s), s\<lparr>ms_heap := ms_heap s @ [j]\<rparr>))"

definition read_job :: "ptr \<Rightarrow> (memStore, job) state" where
  "read_job p = State (\<lambda>s. (ms_heap s ! p, s))"

definition write_job :: "ptr \<Rightarrow> job \<Rightarrow> (memStore, unit) state" where
  "write_job p j = State (\<lambda>s. ((), s\<lparr>ms_heap := (ms_heap s)[p := j]\<rparr>))"

lemmas mem_defs = MemStore_Put_def MemStore_Get_def MemStore_List_def alloc_job_def read_job_def write_job_def

definition mem_store :: "((string, ptr) gomap \<Rightarrow> (string, ptr) gomap) \<Rightarrow> memStore store_if" where
  "mem_store rng =
     \<lparr>store_Put = (\<lambda>j. do { p \<leftarrow> alloc_job j; MemStore_Put p }),
      store_Get = (\<lambda>i. do {
         r \<leftarrow> MemStore_Get i;
         (case r of Inl e \<Rightarrow> State_Monad.return (Inl e)
          | Inr p \<Rightarrow> do { j \<leftarrow> read_job p; State_Monad.return (Inr j) }) }),
      store_List = State (\<lambda>s.
         (case run_state (MemStore_List rng) s of
            (Inl e, s') \<Rightarrow> (Inl e, s') | (Inr ps, s') \<Rightarrow> (Inr (map ((!) (ms_heap s')) ps), s')))\<rparr>"

definition mem_view :: "memStore \<Rightarrow> string \<Rightarrow> job option" where
  "mem_view s i = map_option ((!) (ms_heap s)) (gm_get (ms_jobs s) i)"

definition mem_inv :: "memStore \<Rightarrow> bool" where
  "mem_inv s \<longleftrightarrow> gm_wf (ms_jobs s) \<and>
     list_all (\<lambda>(i, p). p < length (ms_heap s) \<and> job_ID (ms_heap s ! p) = i \<and> job_ok (ms_heap s ! p))
       (ms_jobs s)"

lemma mem_inv_iff:
  "mem_inv s \<longleftrightarrow> gm_wf (ms_jobs s) \<and>
     (\<forall>i p. gm_get (ms_jobs s) i = Some p \<longrightarrow> p < length (ms_heap s) \<and>
        job_ID (ms_heap s ! p) = i \<and> job_ok (ms_heap s ! p))"
  by (fastforce simp: mem_inv_def list_all_iff gm_get_set)

lemma mem_inv_new [simp]: "mem_inv NewMem"
  by (simp add: mem_inv_def NewMem_def)

text \<open>The run equations of the interface, one per method.\<close>

lemma mem_Put_run:
  "run_state (store_Put (mem_store rng) j) s =
     (None, \<lparr>ms_heap = ms_heap s @ [j], ms_jobs = gm_put (job_ID j) (length (ms_heap s)) (ms_jobs s)\<rparr>)"
  by (simp add: mem_store_def mem_defs)

lemma mem_Get_run:
  "run_state (store_Get (mem_store rng) i) s =
     (case mem_view s i of None \<Rightarrow> Inl (Sentinel ErrNotFound) | Some j \<Rightarrow> Inr j, s)"
  by (simp add: mem_store_def mem_defs mem_view_def split: option.split)

lemma mem_List_run:
  "run_state (store_List (mem_store rng)) s =
     (Inr (map (\<lambda>(i, p). ms_heap s ! p) (rng (ms_jobs s))), s)"
  by (simp add: mem_store_def MemStore_List_def case_prod_beta comp_def)

lemma mem_inv_put:
  assumes "mem_inv s" "job_ok j"
  shows "mem_inv \<lparr>ms_heap = ms_heap s @ [j], ms_jobs = gm_put (job_ID j) (length (ms_heap s)) (ms_jobs s)\<rparr>"
  using assms by (fastforce simp: mem_inv_iff nth_append)

lemma mem_view_put:
  assumes "mem_inv s"
  shows "mem_view \<lparr>ms_heap = ms_heap s @ [j], ms_jobs = gm_put (job_ID j) (length (ms_heap s)) (ms_jobs s)\<rparr>
    = (mem_view s)(job_ID j \<mapsto> j)"
proof (rule ext)
  fix i
  show "mem_view \<lparr>ms_heap = ms_heap s @ [j],
      ms_jobs = gm_put (job_ID j) (length (ms_heap s)) (ms_jobs s)\<rparr> i = ((mem_view s)(job_ID j \<mapsto> j)) i"
    using assms by (cases "gm_get (ms_jobs s) i") (auto simp: mem_view_def mem_inv_iff nth_append)
qed

lemma mem_view_ran: "mem_inv s \<Longrightarrow> ran (mem_view s) = (\<lambda>(i, p). ms_heap s ! p) ` set (ms_jobs s)"
  by (force simp: ran_def mem_view_def mem_inv_def gm_get_set image_iff)

lemma mem_store_contract:
  assumes "range_order rng"
  shows "job_store (mem_store rng) mem_view mem_inv"
proof
  show "wp (store_List (mem_store rng)) (\<lambda>r w'. mem_inv w' \<and> mem_view w' = mem_view s \<and>
      (case r of Inr js \<Rightarrow> set js = ran (mem_view s) | Inl _ \<Rightarrow> True)) s" if "mem_inv s" for s
    using that range_order_set [OF assms] by (simp add: wp_def mem_List_run mem_view_ran)
  show "mem_inv s \<Longrightarrow> mem_view s i = Some j \<Longrightarrow> job_ID j = i \<and> job_ok j" for s i j
    by (auto simp: mem_view_def mem_inv_iff)
qed (simp_all add: wp_def mem_Put_run mem_Get_run mem_inv_put mem_view_put split: option.split)

interpretation ms: job_store "mem_store id" mem_view mem_inv
  by (rule mem_store_contract) simp

end
