(* ===== verification/Worker_Contract.thy ===== *)
theory Worker_Contract
  imports Worker_Order Store
begin

text \<open>
  What handling messages does to the stored jobs, for every store that keeps the contract
  \<open>job_store\<close> (a \<open>Put\<close> may fail at any time) next to a queue, a provisioner and a control plane
  that leave the store alone: the locale \<open>worker_env\<close>. The relation \<open>worker_step\<close> lists what the
  record of a job can become while one message about it is handled; it holds between any two
  calls of the handler, hence also where a worker crashes in the middle.
\<close>

section \<open>What one message can do to a job\<close>

text \<open>\<open>dep\<close> says whether the message asks for teardown.\<close>

definition begin_attempt :: "job \<Rightarrow> time \<Rightarrow> job" where
  "begin_attempt j t =
     j\<lparr>job_Attempts := wrap64 (job_Attempts j + 1), job_Status := StatusProvisioning,
       job_Detail := [], job_UpdatedAt := t\<rparr>"

inductive worker_step :: "int \<Rightarrow> bool \<Rightarrow> job \<Rightarrow> job \<Rightarrow> bool" for M dep j where
  same: "worker_step M dep j j"
| abandoned: "\<not> dep \<Longrightarrow> job_Status j \<notin> {StatusReady, StatusDeleting, StatusDeleted} \<Longrightarrow>
    a = wrap64 (job_Attempts j + 1) \<Longrightarrow> a > M \<Longrightarrow>
    worker_step M dep j (j\<lparr>job_Attempts := a, job_Status := StatusFailed,
      job_Detail := abandoned_detail (wrap64 (a - 1)), job_UpdatedAt := t\<rparr>)"
| began: "\<not> dep \<Longrightarrow> job_Status j \<notin> {StatusReady, StatusDeleting, StatusDeleted} \<Longrightarrow>
    wrap64 (job_Attempts j + 1) \<le> M \<Longrightarrow> worker_step M dep j (begin_attempt j t)"
| retried: "\<not> dep \<Longrightarrow> job_Status j \<notin> {StatusReady, StatusDeleting, StatusDeleted} \<Longrightarrow>
    wrap64 (job_Attempts j + 1) \<le> M \<Longrightarrow> errors_is e ErrTransient \<Longrightarrow>
    worker_step M dep j ((begin_attempt j t)\<lparr>job_Detail := transient_detail e, job_UpdatedAt := t'\<rparr>)"
| failed: "\<not> dep \<Longrightarrow> job_Status j \<notin> {StatusReady, StatusDeleting, StatusDeleted} \<Longrightarrow>
    wrap64 (job_Attempts j + 1) \<le> M \<Longrightarrow> \<not> errors_is e ErrTransient \<Longrightarrow>
    worker_step M dep j
      ((begin_attempt j t)\<lparr>job_Status := StatusFailed, job_Detail := err_msg e, job_UpdatedAt := t'\<rparr>)"
| succeeded: "\<not> dep \<Longrightarrow> job_Status j \<notin> {StatusReady, StatusDeleting, StatusDeleted} \<Longrightarrow>
    wrap64 (job_Attempts j + 1) \<le> M \<Longrightarrow>
    worker_step M dep j
      ((begin_attempt j t)\<lparr>job_Status := StatusReady, job_Connection := c, job_HTTP := h,
        job_Detail := [], job_UpdatedAt := t'\<rparr>)"
| removed: "dep \<Longrightarrow> job_Status j \<noteq> StatusDeleted \<Longrightarrow>
    worker_step M dep j (j\<lparr>job_Status := StatusDeleted, job_Detail := [], job_Connection := None,
      job_HTTP := None, job_UpdatedAt := t\<rparr>)"
| kept: "dep \<Longrightarrow> job_Status j \<noteq> StatusDeleted \<Longrightarrow>
    worker_step M dep j (j\<lparr>job_Detail := teardown_detail e, job_UpdatedAt := t\<rparr>)"

lemma worker_step_ID: "worker_step M dep j j' \<Longrightarrow> job_ID j' = job_ID j"
  by (erule worker_step.cases) (auto simp: begin_attempt_def)

lemma worker_step_identity:
  "worker_step M dep j j' \<Longrightarrow> job_ServiceName j' = job_ServiceName j \<and> job_Resource j' = job_Resource j \<and>
     job_CreatedAt j' = job_CreatedAt j"
  by (erule worker_step.cases) (auto simp: begin_attempt_def)

lemma worker_step_provision_final:
  "worker_step M False j j' \<Longrightarrow> job_Status j \<in> {StatusReady, StatusDeleting, StatusDeleted} \<Longrightarrow> j' = j"
  by (erule worker_step.cases) auto

lemma worker_step_deleted: "worker_step M dep j j' \<Longrightarrow> job_Status j = StatusDeleted \<Longrightarrow> j' = j"
  by (erule worker_step.cases) auto

section \<open>Environments that leave the store alone\<close>

text \<open>What the provisioner may hand back so that the job that records it can be stored.\<close>

definition error_ok :: "goerr \<Rightarrow> bool" where
  "error_ok e \<longleftrightarrow> utf8_valid (err_msg e)"

definition result_ok :: "result \<Rightarrow> bool" where
  "result_ok r \<longleftrightarrow> pred_option conn_ok (res_Connection r) \<and> pred_option http_ok (res_HTTP r)"

definition provided_ok :: "(result option \<times> goerr option) go \<Rightarrow> bool" where
  "provided_ok x \<longleftrightarrow> (case x of Ret (r, e) \<Rightarrow> pred_option result_ok r \<and> pred_option error_ok e | Panic \<Rightarrow> True)"

lemma provided_ok_simps [simp]:
  "provided_ok (Ret (r, e)) \<longleftrightarrow> pred_option result_ok r \<and> pred_option error_ok e" "provided_ok Panic"
  by (simp_all add: provided_ok_def)

lemma utf8_valid_details [simp]:
  "utf8_valid (abandoned_detail n)"
  "utf8_valid (err_msg e) \<Longrightarrow> utf8_valid (transient_detail e)"
  "utf8_valid (err_msg e) \<Longrightarrow> utf8_valid (teardown_detail e)"
  unfolding abandoned_detail_def transient_detail_def teardown_detail_def
  by (intro utf8_valid_append, rule utf8_valid_ascii, simp_all add: is_ascii_def utf8_valid_ascii del: append.simps)+

locale worker_env = job_store "wk_Store W" jobs inv
  for W :: "'w worker" and jobs :: "'w \<Rightarrow> string \<Rightarrow> job option" and inv :: "'w \<Rightarrow> bool" +
  assumes ack_keeps: "keeps inv jobs any_result (queue_Ack (wk_Queue W) m)"
    and dead_keeps: "keeps inv jobs any_result (queue_DeadLetter (wk_Queue W) m d n)"
    and prov_keeps: "job_ok j \<Longrightarrow> keeps inv jobs provided_ok
      (prov_Provision (wk_Provision W) j)"
    and deprov_keeps: "job_ok j \<Longrightarrow> keeps inv jobs (pred_option error_ok) (prov_Deprovision (wk_Provision W) j)"
    and reg_keeps: "keeps inv jobs any_result (xds_Register (the_XDS W) s h p)"
    and unreg_keeps: "keeps inv jobs any_result (xds_Unregister (the_XDS W) s h p)"
    and now_keeps: "keeps inv jobs time_ok (sys_now (wk_Sys W))"
begin

text \<open>
  \<open>among w0 i S w\<close>: the stores of \<open>w\<close> and \<open>w0\<close> differ at most at \<open>i\<close>, where \<open>w\<close> holds a job of
  \<open>S\<close>. Every call of the handler keeps it, for the \<open>S\<close> that \<open>worker_step\<close> gives.
\<close>

definition among :: "'w \<Rightarrow> string \<Rightarrow> job set \<Rightarrow> 'w \<Rightarrow> bool" where
  "among w0 i S w \<longleftrightarrow> inv w \<and> (\<exists>j \<in> S. jobs w = (jobs w0)(i \<mapsto> j))"

lemma seq_put:
  assumes "among w0 i S w" "j \<in> S" "job_ok j" "job_ID j = i" "\<And>a w'. among w0 i S w' \<Longrightarrow> Q a w'"
  shows "wp (store_Put (wk_Store W) j) Q w"
proof -
  from assms(1) have "inv w" by (simp add: among_def)
  show ?thesis
    by (rule wp_mono [OF put [OF \<open>inv w\<close> assms(3)]], rule assms(5))
       (use assms(1-4) in \<open>auto simp: among_def\<close>)
qed

lemma seq_keeps:
  assumes k: "keeps inv jobs G m" and w: "among w0 i S w" and Q: "\<And>a w'. among w0 i S w' \<Longrightarrow> G a \<Longrightarrow> Q a w'"
  shows "wp m Q w"
proof -
  from w have "inv w" by (simp add: among_def)
  from keepsD [OF k this] show ?thesis
    by (rule wp_mono) (use w in \<open>auto simp: among_def intro!: Q\<close>)
qed

lemmas among_seq = seq_keeps [OF ack_keeps] seq_keeps [OF dead_keeps] seq_keeps [OF prov_keeps]
  seq_keeps [OF deprov_keeps] seq_keeps [OF reg_keeps] seq_keeps [OF unreg_keeps]
  seq_keeps [OF now_keeps] seq_put

lemma provision_ready_among:
  assumes "\<And>c h t. job\<lparr>job_Status := StatusReady, job_Connection := c, job_HTTP := h,
      job_Detail := [], job_UpdatedAt := t\<rparr> \<in> S" and "job_ID job = i" "among w0 i S w"
    and ok: "job_ok job" "pred_option result_ok res"
  shows "wp (provision_ready W msg job res) (\<lambda>_. among w0 i S) w"
proof (cases res)
  case None
  with assms show ?thesis by (simp add: provision_ready_def)
next
  case (Some r)
  with ok show ?thesis
    unfolding Some provision_ready_def option.case
    by (cases "res_HTTP r")
       (auto intro!: among_seq [where ?w0.0 = w0 and i = i and S = S] simp: assms result_ok_def)
qed

lemma provision_failed_among:
  assumes "\<And>t. errors_is e ErrTransient \<Longrightarrow> job\<lparr>job_Detail := transient_detail e, job_UpdatedAt := t\<rparr> \<in> S"
    and "\<And>t. \<not> errors_is e ErrTransient \<Longrightarrow>
      job\<lparr>job_Status := StatusFailed, job_Detail := err_msg e, job_UpdatedAt := t\<rparr> \<in> S"
    and "job_ID job = i" "among w0 i S w" and ok: "job_ok job" "error_ok e"
  shows "wp (provision_failed W msg job e) (\<lambda>_. among w0 i S) w"
  using ok(2) unfolding provision_failed_def
  by (auto intro!: among_seq [where ?w0.0 = w0 and i = i and S = S] simp: assms(1-5) error_ok_def)

lemma provision_among:
  assumes "S = {j'. worker_step (wk_MaxAttempts W) False job j'}" "job_ID job = i" "among w0 i S w"
    and ok: "job_ok job"
  shows "wp (provision W msg job) (\<lambda>_. among w0 i S) w"
proof (cases "job_Status job \<in> {StatusReady, StatusDeleting, StatusDeleted}")
  case True
  then show ?thesis using assms(3) by (auto simp: provision_def intro!: among_seq [where ?w0.0 = w0 and i = i and S = S])
next
  case active: False
  define a where "a = wrap64 (job_Attempts job + 1)"
  have a_range: "int64_range a" by (simp add: a_def wrap64_range)
  show ?thesis
  proof (cases "a > wk_MaxAttempts W")
    case True
    then have "job\<lparr>job_Attempts := a, job_Status := StatusFailed,
        job_Detail := abandoned_detail (wrap64 (a - 1)), job_UpdatedAt := t\<rparr> \<in> S" for t
      using active worker_step.abandoned [of False job a "wk_MaxAttempts W" t] by (simp add: assms a_def)
    then show ?thesis using True active assms(2,3)
      by (auto simp: provision_def abandon_def Let_def ok a_range simp flip: a_def
          intro!: among_seq [where ?w0.0 = w0 and i = i and S = S])
  next
    case False
    then have le: "wrap64 (job_Attempts job + 1) \<le> wk_MaxAttempts W" by (simp add: a_def)
    have in_S: "begin_attempt job t \<in> S" for t
      using worker_step.began [of False, OF _ active le] by (simp add: assms)
    have ready: "wp (provision_ready W msg (begin_attempt job t) res) (\<lambda>_. among w0 i S) w'"
      if "among w0 i S w'" "time_ok t" "pred_option result_ok res" for t res w'
      using worker_step.succeeded [of False, OF _ active le] that assms(2)
      by (intro provision_ready_among) (simp_all add: assms(1) ok begin_attempt_def wrap64_range)
    have failed: "wp (provision_failed W msg (begin_attempt job t) e) (\<lambda>_. among w0 i S) w'"
      if "among w0 i S w'" "time_ok t" "error_ok e" for t e w'
      using worker_step.retried [of False, OF _ active le] worker_step.failed [of False, OF _ active le] that assms(2)
      by (intro provision_failed_among) (simp_all add: assms(1) ok begin_attempt_def wrap64_range)
    have eq: "job\<lparr>job_Attempts := wrap64 (job_Attempts job + 1), job_Status := StatusProvisioning,
        job_Detail := [], job_UpdatedAt := t\<rparr> = begin_attempt job t" for t
      by (simp add: begin_attempt_def)
    have id: "job_ID (begin_attempt job t) = i" for t using assms(2) by (simp add: begin_attempt_def)
    have b_ok: "job_ok (begin_attempt job t)" if "time_ok t" for t
      using that by (simp add: ok begin_attempt_def wrap64_range)
    show ?thesis
      using active le assms(3)
      by (auto simp: provision_def Let_def eq wp_case_prod wp_case_option wp_case_go in_S id b_ok ready failed
          split: option.split go.split intro!: among_seq [where ?w0.0 = w0 and i = i and S = S])
  qed
qed

lemma deprovision_among:
  assumes "S = {j'. worker_step (wk_MaxAttempts W) True job j'}" "job_ID job = i" "among w0 i S w"
    and ok: "job_ok job"
  shows "wp (deprovision W msg job) (\<lambda>_. among w0 i S) w"
proof (cases "job_Status job = StatusDeleted")
  case True
  then show ?thesis using assms(3) by (auto simp: deprovision_def intro!: among_seq [where ?w0.0 = w0 and i = i and S = S])
next
  case False
  have "job\<lparr>job_Status := StatusDeleted, job_Detail := [], job_Connection := None,
      job_HTTP := None, job_UpdatedAt := t\<rparr> \<in> S"
    and "job\<lparr>job_Detail := teardown_detail e, job_UpdatedAt := t\<rparr> \<in> S" for t e
    using worker_step.removed [of True, OF _ False] worker_step.kept [of True, OF _ False] by (simp_all add: assms(1))
  with False assms(2,3) show ?thesis
    by (cases "job_HTTP job")
       (auto simp: deprovision_def wp_case_option ok error_ok_def split: option.split intro!: among_seq [where ?w0.0 = w0 and i = i and S = S])
qed

lemma handle_step:
  assumes "inv w"
  shows "wp (handle W msg)
    (\<lambda>_ w'. inv w' \<and> (jobs w' = jobs w \<or>
       (\<exists>j j'. jobs w (msg_JobID msg) = Some j \<and> jobs w' = (jobs w)(msg_JobID msg \<mapsto> j') \<and>
          worker_step (wk_MaxAttempts W) (msg_Action msg = ActionDeprovision) j j'))) w"
    (is "wp _ ?Q w")
proof -
  define dep where "dep = (msg_Action msg = ActionDeprovision)"
  have branch: "wp (if msg_Action msg = ActionDeprovision then deprovision W msg job else provision W msg job) ?Q w1"
    if w1: "inv w1" "jobs w1 = jobs w" "jobs w (msg_JobID msg) = Some job" for job w1
  proof -
    let ?S = "{j'. worker_step (wk_MaxAttempts W) dep job j'}"
    have id: "job_ID job = msg_JobID msg" and ok: "job_ok job" using keyed [OF assms w1(3)] by auto
    have "among w (msg_JobID msg) ?S w1"
      using w1 by (auto simp: among_def worker_step.same map_upd_triv intro!: exI [of _ job])
    then have "wp (if msg_Action msg = ActionDeprovision then deprovision W msg job else provision W msg job)
        (\<lambda>_. among w (msg_JobID msg) ?S) w1"
      using deprovision_among [OF refl id _ ok, of w w1 msg] provision_among [OF refl id _ ok, of w w1 msg]
      by (cases "msg_Action msg = ActionDeprovision") (simp_all add: dep_def)
    then show ?thesis
      by (rule wp_mono) (use w1(3) in \<open>auto simp: among_def dep_def\<close>)
  qed
  have drop: "wp (queue_Ack (wk_Queue W) msg) (\<lambda>_. ?Q (Ret ())) w1" if "inv w1" "jobs w1 = jobs w" for w1
    by (rule wp_mono [OF keepsD [OF ack_keeps that(1)]]) (use that in auto)
  show ?thesis
    unfolding handle_def wp_bind wp_case_sum
    by (rule wp_mono [OF get [OF assms]])
       (use branch drop in \<open>auto split: sum.splits\<close>)
qed

end

end
