(* ===== verification/Provisioner_Text.thy ===== *)
theory Provisioner_Text
  imports Provisioner_Laws Worker_Contract
begin

text \<open>
  What the \<open>Shell\<close> provisioner hands back can be stored: on a docker that prints UTF-8 text (the locale
  \<open>docker_text\<close>) every result and every error message of \<open>Provision\<close> and \<open>Deprovision\<close> is UTF-8 with
  integers in range, so the job that records it keeps \<open>job_ok\<close>. Nothing else that the world holds
  (the view \<open>v\<close>) is touched.
\<close>

section \<open>Text\<close>

definition cmd_text :: "cmd_out \<Rightarrow> bool" where
  "cmd_text c \<longleftrightarrow> utf8_valid (co_out c) \<and> utf8_valid (co_stderr c) \<and> pred_option error_ok (co_err c)"

definition binding_ok :: "binding \<Rightarrow> bool" where
  "binding_ok b \<longleftrightarrow> utf8_valid (HostIp b) \<and> utf8_valid (HostPort b)"

definition info_ok :: "inspect \<Rightarrow> bool" where
  "info_ok i \<longleftrightarrow> list_all utf8_valid (in_Env i) \<and> list_all (\<lambda>(k, bs). utf8_valid k \<and> list_all binding_ok bs) (in_Ports i)"

lemma utf8_valid_literals [simp]:
  "utf8_valid ''postgres''" "utf8_valid ''http''" "utf8_valid ''docker ps''" "utf8_valid ''docker rm -f''"
  "utf8_valid ''docker start''" "utf8_valid ''docker run postgres''" "utf8_valid ''docker run echo''"
  "utf8_valid ''decode inspect''" "utf8_valid ''postgres not ready''" "utf8_valid ''echo not ready''"
  "utf8_valid ''docker inspect ''" "utf8_valid '': ''" "utf8_valid ''infraforge-pg-''" "utf8_valid ''infraforge-svc-''"
  "utf8_valid ''5432/tcp''" "utf8_valid ''8080/tcp''" "utf8_valid ''pg_isready timed out for ''"
  "utf8_valid ''http readiness timed out for ''" "utf8_valid ''http://''" "utf8_valid '':''" "utf8_valid ''/health''"
  "utf8_valid ''127.0.0.1''" "utf8_valid ''strconv.Atoi: parsing ''" "utf8_valid ''value out of range''"
  "utf8_valid ''invalid syntax''" "utf8_valid ''no host port mapping for ''" "utf8_valid ''invalid host port ''"
  "utf8_valid ''image ''" "utf8_valid '' not present locally; build it once with `make build-echo`''"
  "utf8_valid ''transient error''" "utf8_valid ''u_''" "utf8_valid ''app_''"
  by (simp_all add: utf8_valid_ascii is_ascii_def)

lemma ident_ascii: "list_all is_ident s \<Longrightarrow> is_ascii s"
  by (auto simp: is_ascii_def is_ident_def is_digit_def list_all_iff)

lemma utf8_valid_sanitize [simp]: "utf8_valid (sanitize uni s)"
  using sanitize_spec [of uni s] by (intro utf8_valid_ascii ident_ascii) simp

lemma utf8_valid_hex [simp]: "utf8_valid (hex_encode bs)"
  using hex_solid [OF hex_encode_hex] by (intro utf8_valid_ascii) simp

lemma error_ok_simps [simp]:
  "error_ok (NewErr m) = utf8_valid m" "error_ok (WrapErr m e) = utf8_valid m"
  "utf8_valid pre \<Longrightarrow> error_ok e \<Longrightarrow> error_ok (errorf_w pre e)"
  "utf8_valid pre \<Longrightarrow> error_ok e \<Longrightarrow> utf8_valid s \<Longrightarrow> error_ok (errorf_ws pre e s)"
  by (auto simp: error_ok_def errorf_ws_def intro!: utf8_valid_append simp del: append.simps)

lemma error_ok_Classify: "error_ok e \<Longrightarrow> pred_option error_ok (Classify uni (Some e))"
  using utf8_valid_append [of "''transient error''" "'': '' @ err_msg e"]
  by (auto simp: Classify_def Let_def error_ok_def intro!: utf8_valid_append simp del: append.simps)

lemma digits_int_range: "digits_int b s = Some n \<Longrightarrow> int64_range n"
  by (auto simp: digits_int_def Let_def split: if_splits)

lemma atoi_range: "atoi s = Some n \<Longrightarrow> int64_range n"
  by (induction s rule: atoi.induct) (auto dest: digits_int_range split: if_splits)

lemma names_text [simp]:
  "utf8_valid (job_ID j) \<Longrightarrow> utf8_valid (postgresName j)" "utf8_valid (job_ID j) \<Longrightarrow> utf8_valid (httpName j)"
  by (auto simp: postgresName_def httpName_def intro!: utf8_valid_append simp del: append.simps)

lemma timeout_text [simp]:
  "utf8_valid name \<Longrightarrow> error_ok (pg_timeout_error name)"
  "utf8_valid host \<Longrightarrow> utf8_valid path \<Longrightarrow> error_ok (http_timeout_error (health_url host port path))"
  by (auto simp: pg_timeout_error_def http_timeout_error_def health_url_def intro!: utf8_valid_append simp del: append.simps)

section \<open>The provisioner on a docker that prints text\<close>

locale docker_text =
  fixes p :: "'w shell" and I :: "'w \<Rightarrow> bool" and v :: "'w \<Rightarrow> 'v"
  assumes x_out: "keeps I v cmd_text (dk_Output (sh_docker p) args)"
    and x_comb: "keeps I v cmd_text (dk_CombinedOutput (sh_docker p) args)"
    and x_run: "keeps I v any_result (dk_Run (sh_docker p) args)"
    and x_get: "keeps I v any_result (hc_Get (sh_docker p) url)"
    and x_now: "keeps I v any_result (sys_now (sh_sys p))"
    and x_rand: "keeps I v any_result (sys_rand (sh_sys p) len)"
    and x_ctx: "keeps I v (pred_option error_ok) (sys_ctx_err (sh_sys p))"
    and x_sleep: "keeps I v any_result (sys_sleep (sh_sys p) d)"
    and x_decode: "utf8_valid t \<Longrightarrow> sh_decode p t = Inr infos \<Longrightarrow> list_all info_ok infos"
    and x_decode_err: "utf8_valid t \<Longrightarrow> sh_decode p t = Inl e \<Longrightarrow> error_ok e"
    and x_quote: "utf8_valid s \<Longrightarrow> utf8_valid (sh_quote p s)"
    and x_images: "utf8_valid (sh_postgresImage p)" "utf8_valid (sh_echoImage p)"
begin

lemma inspect_text:
  "utf8_valid name \<Longrightarrow> keeps I v (outcome error_ok (pred_option info_ok \<circ> fst)) (dockerInspect p name)"
  unfolding dockerInspect_def
  by (rule keeps_bind [OF x_out], rule keeps_return)
     (auto simp: cmd_text_def Let_def split: option.splits sum.splits list.splits
       intro!: utf8_valid_append dest: x_decode x_decode_err simp del: append.simps)

lemma start_text: "keeps I v (outcome error_ok any_result) (dockerStart p name)"
  unfolding dockerStart_def
  by (rule keeps_bind [OF x_comb], rule keeps_return) (auto simp: cmd_text_def split: option.splits)

lemma ensure_text:
  assumes "utf8_valid name" "pred_option info_ok info"
  shows "keeps I v (outcome error_ok (pred_option info_ok)) (ensure_running p name info)"
  unfolding ensure_running_def
  by (intro keeps_case_option keeps_if keeps_return keeps_try_bind [OF start_text]
      keeps_try_bind [OF inspect_text [OF assms(1)]])
     (use assms(2) in \<open>auto intro!: keeps_return\<close>)

lemma binding_of_ports:
  "info_ok i \<Longrightarrow> gm_get (in_Ports i) k = Some (b # bs) \<Longrightarrow> binding_ok b"
  by (auto simp: info_ok_def gm_get_def list_all_iff dest!: map_of_SomeD)

lemma atoi_error_text: "utf8_valid s \<Longrightarrow> error_ok (atoi_error (sh_quote p) s)"
  by (auto simp: atoi_error_def atoi_reason_def Let_def x_quote intro!: utf8_valid_append simp del: append.simps)

lemma host_text:
  "pred_option info_ok info \<Longrightarrow> utf8_valid k \<Longrightarrow>
     outcome error_ok (\<lambda>(h, n). utf8_valid h \<and> int64_range n) (hostPortOf p info k)"
proof (cases info)
  case (Some i)
  assume ok: "pred_option info_ok info" "utf8_valid k"
  have none: "error_ok (NewErr (''no host port mapping for '' @ k))"
    using ok(2) by (auto intro!: utf8_valid_append simp del: append.simps)
  show ?thesis
  proof (cases "gm_get (in_Ports i) k")
    case (Some bs)
    show ?thesis
    proof (cases bs)
      case (Cons b r)
      have b: "utf8_valid (HostIp b)" "utf8_valid (HostPort b)"
        using binding_of_ports [of i k b r] ok(1) \<open>info = Some i\<close> Some Cons by (simp_all add: binding_ok_def)
      then have "error_ok (errorf_w (''invalid host port '' @ sh_quote p (HostPort b)) (atoi_error (sh_quote p) (HostPort b)))"
        by (simp add: atoi_error_text x_quote del: append.simps)
      with b \<open>info = Some i\<close> Some Cons show ?thesis
        by (simp add: hostPortOf_def Let_def atoi_range split: option.split)
    qed (use none \<open>info = Some i\<close> Some in \<open>simp add: hostPortOf_def\<close>)
  qed (use none \<open>info = Some i\<close> in \<open>simp add: hostPortOf_def\<close>)
qed (simp add: hostPortOf_def)

lemma scan_env_cases:
  "scan_env (u, w, d) e \<in> {(trim_prefix e ''POSTGRES_USER='', w, d), (u, trim_prefix e ''POSTGRES_PASSWORD='', d),
     (u, w, trim_prefix e ''POSTGRES_DB=''), (u, w, d)}"
  unfolding scan_env_def prod.case by (simp only: insert_iff simp_thms split: if_split)

lemma scan_env_text:
  "list_all utf8_valid env \<Longrightarrow> utf8_valid u \<Longrightarrow> utf8_valid w \<Longrightarrow> utf8_valid d \<Longrightarrow>
     (case foldl scan_env (u, w, d) env of (u', w', d') \<Rightarrow> utf8_valid u' \<and> utf8_valid w' \<and> utf8_valid d')"
proof (induction env arbitrary: u w d)
  case (Cons e env)
  have cut: "utf8_valid (trim_prefix e q)" if "is_ascii q" for q
  proof (cases "prefix q e")
    case True
    then obtain r where e: "e = q @ r" by (auto simp: prefix_def)
    have "utf8_valid r" using utf8_valid_drop [OF utf8_valid_ascii [OF that], of r] Cons.prems(1) e by simp
    then show ?thesis by (simp add: e)
  qed (use Cons.prems(1) in \<open>simp add: trim_prefix_def\<close>)
  obtain u' w' d' where s: "scan_env (u, w, d) e = (u', w', d')" by (metis prod_cases3)
  then have "utf8_valid u'" "utf8_valid w'" "utf8_valid d'"
    using Cons.prems(2-4) cut [of "''POSTGRES_USER=''"] cut [of "''POSTGRES_PASSWORD=''"] cut [of "''POSTGRES_DB=''"]
      scan_env_cases [of u w d e]
    by (auto simp: is_ascii_def)
  with Cons s show ?case by simp
qed simp

lemma conn_text: "pred_option info_ok info \<Longrightarrow> outcome error_ok conn_ok (connectionFromInspect p info)"
proof (cases info)
  case (Some i)
  assume ok: "pred_option info_ok info"
  have "list_all utf8_valid (in_Env i)" using ok Some by (simp add: info_ok_def)
  from scan_env_text [OF this, of "[]" "[]" "[]"] host_text [OF ok, of "''5432/tcp''"] show ?thesis
    by (auto simp: connectionFromInspect_def conn_ok_def Some split: go.splits sum.splits prod.splits)
qed (simp add: connectionFromInspect_def hostPortOf_def)

lemma conn_return:
  "pred_option info_ok info \<Longrightarrow> keeps I v (outcome error_ok conn_ok) (State_Monad.return (connectionFromInspect p info))"
  by (rule keeps_return, rule conn_text)

lemma host_return:
  "pred_option info_ok info \<Longrightarrow> utf8_valid k \<Longrightarrow>
     keeps I v (outcome error_ok (\<lambda>(h, n). utf8_valid h \<and> int64_range n)) (State_Monad.return (hostPortOf p info k))"
  by (rule keeps_return, rule host_text)

lemma pg_wait_text: "utf8_valid name \<Longrightarrow> keeps I v (outcome error_ok any_result) (await_postgres p name user db)"
proof -
  assume name: "utf8_valid name"
  have "keeps I v (pred_option (pred_option error_ok)) (waitForPostgres_loop n p name user db dl)" for n dl
  proof (induction n)
    case (Suc n)
    then show ?case unfolding waitForPostgres_loop.simps
      by (intro keeps_bind [OF x_ctx] keeps_bind [OF x_now] keeps_bind [OF x_run] keeps_bind [OF x_sleep]
          keeps_case_option keeps_if keeps_return) (simp_all add: name)
  qed (simp add: keeps_return)
  then have "keeps I v (pred_option (pred_option error_ok)) (waitForPostgres n p name user db t)" for n t
    unfolding waitForPostgres_def by (rule keeps_bind [OF x_now])
  then show ?thesis unfolding await_postgres_def
    by (rule keeps_bind) (auto intro!: keeps_return simp: name split: option.split)
qed

lemma http_wait_text: "utf8_valid host \<Longrightarrow> keeps I v (outcome error_ok any_result) (await_http p host port)"
proof -
  assume host: "utf8_valid host"
  let ?G = "\<lambda>x. case x of Panic \<Rightarrow> True | Ret e \<Rightarrow> pred_option error_ok e"
  have "keeps I v (pred_option ?G) (waitForHTTP_loop n p (health_url host port ''/health'') dl)" for n dl
  proof (induction n)
    case (Suc n)
    then show ?case unfolding waitForHTTP_loop.simps
      by (intro keeps_bind [OF x_ctx] keeps_bind [OF x_now] keeps_bind [OF x_get] keeps_bind [OF x_sleep]
          keeps_case_option keeps_case_go keeps_if keeps_return) (simp_all add: host)
  qed (simp add: keeps_return)
  then have "keeps I v (pred_option ?G) (waitForHTTP n p host port ''/health'' t)" for n t
    unfolding waitForHTTP_def by (rule keeps_bind [OF x_now])
  then show ?thesis unfolding await_http_def
    by (rule keeps_bind) (auto intro!: keeps_return simp: host split: option.split go.splits)
qed

lemma wrap_text:
  "utf8_valid pre \<Longrightarrow> keeps I v (outcome error_ok G) m \<Longrightarrow>
     keeps I v (outcome error_ok G) (do { r \<leftarrow> m; State_Monad.return (wrap_error pre r) })"
  by (rule keeps_bind, assumption, rule keeps_return) (auto simp: wrap_error_def outcome_def split: go.splits sum.splits)

lemma create_pg_text:
  assumes "job_ok j" "utf8_valid (cr_user c)" "utf8_valid (cr_pass c)" "utf8_valid (cr_db c)"
  shows "keeps I v (outcome error_ok conn_ok) (create_postgres p j c)"
proof -
  have name: "utf8_valid (postgresName j)" using assms(1) by (simp add: job_ok_def)
  show ?thesis unfolding create_postgres_def
    by (intro keeps_bind [OF x_comb] keeps_case_option keeps_try_bind [OF inspect_text [OF name]] keeps_case_prod
        keeps_try_bind [OF conn_return] keeps_try_bind [OF wrap_text [OF _ pg_wait_text [OF name]]]
        keeps_return)
       (use assms in \<open>auto simp: cmd_text_def conn_ok_def\<close>)
qed

lemma postgres_text: "job_ok j \<Longrightarrow> keeps I v (outcome error_ok conn_ok) (provisionPostgres p j)"
proof -
  assume j: "job_ok j"
  then have name: "utf8_valid (postgresName j)" by (simp add: job_ok_def)
  have reuse: "keeps I v (outcome error_ok conn_ok) (try_bind (ensure_running p (postgresName j) info) (\<lambda>info'.
      try_bind (State_Monad.return (connectionFromInspect p info')) (\<lambda>conn.
      try_bind (await_postgres p (postgresName j) (conn_Username conn) (conn_Database conn)) (\<lambda>_.
      State_Monad.return (Ret (Inr conn))))))" if "pred_option info_ok info" for info
    by (intro keeps_try_bind [OF ensure_text [OF name that]] keeps_try_bind [OF conn_return]
        keeps_try_bind [OF pg_wait_text [OF name]] keeps_return) simp_all
  have hex: "keeps I v utf8_valid (randHex (sh_sys p) n)" for n
    unfolding randHex_def by (rule keeps_bind [OF x_rand]) (simp add: keeps_return)
  have "keeps I v (\<lambda>c. utf8_valid (cr_user c) \<and> utf8_valid (cr_pass c) \<and> utf8_valid (cr_db c)) (newCreds p j)"
    unfolding newCreds_def
    by (rule keeps_bind [OF hex], rule keeps_bind [OF hex], rule keeps_return)
       (auto intro!: utf8_valid_append simp del: append.simps)
  then have fresh: "keeps I v (outcome error_ok conn_ok) (do { c \<leftarrow> newCreds p j; create_postgres p j c })"
    by (rule keeps_bind) (auto intro: create_pg_text [OF j])
  show ?thesis unfolding provisionPostgres_def Let_def
    by (rule keeps_try_bind [OF inspect_text [OF name]]) (auto intro!: reuse fresh keeps_if)
qed

lemma http_text: "job_ok j \<Longrightarrow> keeps I v (outcome error_ok http_ok) (provisionHTTP p j)"
proof -
  assume j: "job_ok j"
  then have name: "utf8_valid (httpName j)" by (simp add: job_ok_def)
  have port: "utf8_valid ''8080/tcp''" by simp
  have reuse: "keeps I v (outcome error_ok http_ok) (try_bind (ensure_running p (httpName j) info) (\<lambda>info'.
      try_bind (State_Monad.return (hostPortOf p info' ''8080/tcp'')) (\<lambda>(host, port).
      try_bind (await_http p host port) (\<lambda>_. State_Monad.return (Ret (Inr \<lparr>http_Host = host, http_Port = port\<rparr>))))))"
    if "pred_option info_ok info" for info
    by (intro keeps_try_bind [OF ensure_text [OF name that]] keeps_try_bind [OF host_return [OF _ port]]
        keeps_case_prod keeps_try_bind [OF http_wait_text] keeps_return) (auto simp: http_ok_def)
  have fresh: "keeps I v (outcome error_ok http_ok) (create_http p j)"
    unfolding create_http_def
    by (intro keeps_bind [OF x_comb] keeps_case_option keeps_try_bind [OF inspect_text [OF name]] keeps_case_prod
        keeps_try_bind [OF host_return [OF _ port]] keeps_try_bind [OF wrap_text [OF _ http_wait_text]]
        keeps_return)
       (auto simp: cmd_text_def http_ok_def x_images intro!: utf8_valid_append simp del: append.simps)
  show ?thesis unfolding provisionHTTP_def Let_def
    by (rule keeps_try_bind [OF inspect_text [OF name]]) (auto intro!: reuse fresh keeps_if)
qed

lemma Provision_text: "job_ok j \<Longrightarrow> keeps I v provided_ok (Shell_Provision p j)"
proof -
  assume j: "job_ok j"
  have cls: "pred_option error_ok (Classify (sh_lower p) (Some (errorf_w pre e)))" if "error_ok e" "utf8_valid pre" for e pre
    using that by (intro error_ok_Classify) simp
  show ?thesis unfolding Shell_Provision_def
    by (rule keeps_bind [OF postgres_text [OF j]])
       (auto intro!: keeps_intros keeps_bind [OF http_text [OF j]] cls simp: outcome_def result_ok_def
         split: go.splits sum.splits)
qed

lemma Deprovision_text: "keeps I v (pred_option error_ok) (Shell_Deprovision p j)"
  unfolding Shell_Deprovision_def Let_def
  by (intro keeps_bind [OF x_out] keeps_bind [OF x_comb] keeps_case_option keeps_if keeps_return)
     (auto simp: cmd_text_def split: option.split)

end

end
