(* ===== verification/Redis_Client.thy ===== *)
theory Redis_Client
  imports Go_Map Go_Numbers
begin

text \<open>
  Redis as the packages \<open>store\<close> and \<open>queue\<close> see it: the commands of \<open>go-redis\<close> that they call, as
  a record of functions over a world, and what Redis documents about those commands, as two
  locales: \<open>redis_kv\<close> for strings and \<open>SCAN\<close>, \<open>redis_streams\<close> for streams and consumer groups.
  Redis is not part of the program, so every definition that uses it takes the record as an
  argument. In all laws a command that reports an error may or may not have been carried out.
\<close>

section \<open>Commands\<close>

text \<open>Values handed to \<open>XADD\<close>, which reach the server as text, and what a reply's map holds.\<close>

datatype redis_val = VStr string | VInt int

fun val_text :: "redis_val \<Rightarrow> string" where
  "val_text (VStr s) = s"
| "val_text (VInt i) = show_int i"

datatype any_val = AnyString string | AnyOther

text \<open>The type assertion \<open>v, ok := x.(string)\<close> on a map element; a missing element is nil.\<close>

fun as_string :: "any_val option \<Rightarrow> string option" where
  "as_string (Some (AnyString s)) = Some s"
| "as_string _ = None"

record xmessage =
  xm_ID :: string
  xm_Values :: "(string, any_val) gomap"

record xaddArgs =
  xa_Stream :: string
  xa_MaxLen :: int
  xa_Approx :: bool
  xa_Values :: "(string, redis_val) gomap"

record xreadGroupArgs =
  xr_Group :: string
  xr_Consumer :: string
  xr_Streams :: "string list"
  xr_Count :: int
  xr_Block :: int

record xautoClaimArgs =
  xc_Stream :: string
  xc_Group :: string
  xc_Consumer :: string
  xc_MinIdle :: int
  xc_Start :: string
  xc_Count :: int

record xstream =
  xs_Stream :: string
  xs_Messages :: "xmessage list"

record 'w redis_if =
  rd_Set :: "string \<Rightarrow> string \<Rightarrow> int \<Rightarrow> ('w, goerr option) state"
  rd_Get :: "string \<Rightarrow> ('w, goerr + string) state"
  rd_Scan :: "nat \<Rightarrow> string \<Rightarrow> int \<Rightarrow> ('w, goerr + string list \<times> nat) state"
  rd_XGroupCreateMkStream :: "string \<Rightarrow> string \<Rightarrow> string \<Rightarrow> ('w, goerr option) state"
  rd_XAdd :: "xaddArgs \<Rightarrow> ('w, goerr + string) state"
  rd_XReadGroup :: "xreadGroupArgs \<Rightarrow> ('w, goerr + xstream list) state"
  rd_XAutoClaim :: "xautoClaimArgs \<Rightarrow> ('w, goerr + xmessage list \<times> string) state"
  rd_XAck :: "string \<Rightarrow> string \<Rightarrow> string \<Rightarrow> ('w, goerr option) state"
  rd_XRangeN :: "string \<Rightarrow> string \<Rightarrow> string \<Rightarrow> int \<Rightarrow> ('w, goerr + xmessage list) state"

section \<open>Strings and SCAN\<close>

text \<open>A glob pattern \<open>p*\<close> whose prefix has no special character matches the keys that start with \<open>p\<close>.\<close>

definition glob_plain :: "string \<Rightarrow> bool" where
  "glob_plain p \<longleftrightarrow> list_all (\<lambda>c. c \<notin> {CHR ''*'', CHR ''?'', CHR ''['', CHR '']'', CHR 0x5C}) p"

definition keys_with :: "(string \<Rightarrow> string option) \<Rightarrow> string \<Rightarrow> string set" where
  "keys_with m p = {k \<in> dom m. prefix p k}"

text \<open>
  \<open>kv\<close> is the string keyspace (keys without expiry). \<open>todo w c p\<close> are the keys that an iteration
  standing at cursor \<open>c\<close> has still to return and \<open>rank w c\<close> bounds the number of calls it still
  takes: an iteration returns every key that is there all the time, possibly more than once, and
  ends.
\<close>

locale redis_kv =
  fixes R :: "'w redis_if"
    and kv :: "'w \<Rightarrow> string \<Rightarrow> string option"
    and inv :: "'w \<Rightarrow> bool"
    and todo :: "'w \<Rightarrow> nat \<Rightarrow> string \<Rightarrow> string set"
    and rank :: "'w \<Rightarrow> nat \<Rightarrow> nat"
  assumes rset: "inv w \<Longrightarrow> wp (rd_Set R k v 0)
      (\<lambda>e w'. inv w' \<and> (kv w' = (kv w)(k \<mapsto> v) \<or> e \<noteq> None \<and> kv w' = kv w)) w"
    and rget: "inv w \<Longrightarrow> wp (rd_Get R k)
      (\<lambda>r w'. inv w' \<and> kv w' = kv w \<and> todo w' = todo w \<and> rank w' = rank w \<and>
         (case r of Inr v \<Rightarrow> kv w k = Some v
          | Inl e \<Rightarrow> (errors_is e RedisNil \<longrightarrow> kv w k = None) \<and> \<not> errors_is e ErrNotFound)) w"
    and scan: "inv w \<Longrightarrow> glob_plain p \<Longrightarrow> wp (rd_Scan R c (p @ ''*'') n)
      (\<lambda>r w'. inv w' \<and> kv w' = kv w \<and>
         (case r of Inl _ \<Rightarrow> True
          | Inr (ks, next) \<Rightarrow>
              set ks \<subseteq> keys_with (kv w) p \<and>
              todo w c p \<subseteq> set ks \<union> (if next = 0 then {} else todo w' next p) \<and>
              (next \<noteq> 0 \<longrightarrow> rank w' next < rank w c))) w"
    and scan_start: "inv w \<Longrightarrow> keys_with (kv w) p \<subseteq> todo w 0 p"

section \<open>Streams\<close>

text \<open>
  For a stream \<open>k\<close> and a group \<open>g\<close>: \<open>entries w k\<close> is the stream, oldest entry first; \<open>fresh w k g\<close>
  are the entries not yet delivered to the group, in order; \<open>pel w k g\<close> its pending entries;
  \<open>idle w k g i\<close> how long entry \<open>i\<close> has been pending since its last delivery.
\<close>

record stream_view =
  sv_entries :: "string \<Rightarrow> xmessage list"
  sv_group :: "string \<Rightarrow> string \<Rightarrow> bool"
  sv_fresh :: "string \<Rightarrow> string \<Rightarrow> xmessage list"
  sv_pel :: "string \<Rightarrow> string \<Rightarrow> xmessage set"

definition carries :: "(string, redis_val) gomap \<Rightarrow> xmessage \<Rightarrow> bool" where
  "carries vs m \<longleftrightarrow> (\<forall>k. gm_get (xm_Values m) k = map_option (AnyString \<circ> val_text) (gm_get vs k))"

text \<open>
  What \<open>XADD\<close> does to the view: a new entry with a new id at the end of the stream, for every group
  of the stream to read; \<open>MAXLEN\<close> drops oldest entries, an approximate one never below the limit.
  Entry ids grow, so the id of an entry is not used again for another entry.
\<close>

definition trimmed :: "int \<Rightarrow> xmessage list \<Rightarrow> xmessage list \<Rightarrow> bool" where
  "trimmed n xs ys \<longleftrightarrow>
     (if n = 0 then ys = xs else \<exists>d. ys = drop d xs \<and> int (length ys) \<ge> min n (int (length xs)))"

definition added :: "xaddArgs \<Rightarrow> xmessage \<Rightarrow> stream_view \<Rightarrow> stream_view \<Rightarrow> bool" where
  "added a m v v' \<longleftrightarrow>
     (let k = xa_Stream a in
        carries (xa_Values a) m \<and>
        (\<forall>m' \<in> set (sv_entries v k) \<union> (\<Union>g. set (sv_fresh v k g) \<union> sv_pel v k g). xm_ID m' \<noteq> xm_ID m) \<and>
        trimmed (xa_MaxLen a) (sv_entries v k @ [m]) (sv_entries v' k) \<and>
        (\<forall>k'. k' \<noteq> k \<longrightarrow> sv_entries v' k' = sv_entries v k') \<and>
        sv_group v' = sv_group v \<and> sv_pel v' = sv_pel v \<and>
        (\<forall>k' g. k' \<noteq> k \<longrightarrow> sv_fresh v' k' g = sv_fresh v k' g) \<and>
        (xa_MaxLen a = 0 \<longrightarrow>
           (\<forall>g. sv_fresh v' k g = (if sv_group v k g then sv_fresh v k g @ [m] else sv_fresh v k g))))"

definition delivered :: "string \<Rightarrow> string \<Rightarrow> xmessage \<Rightarrow> stream_view \<Rightarrow> stream_view \<Rightarrow> bool" where
  "delivered k g m v v' \<longleftrightarrow>
     (\<exists>rest. sv_fresh v k g = m # rest \<and>
        v' = v\<lparr>sv_fresh := (sv_fresh v)(k := (sv_fresh v k)(g := rest)),
               sv_pel := (sv_pel v)(k := (sv_pel v k)(g := insert m (sv_pel v k g)))\<rparr>)"

definition acked :: "string \<Rightarrow> string \<Rightarrow> string \<Rightarrow> stream_view \<Rightarrow> stream_view \<Rightarrow> bool" where
  "acked k g i v v' \<longleftrightarrow>
     v' = v\<lparr>sv_pel := (sv_pel v)(k := (sv_pel v k)(g := {m \<in> sv_pel v k g. xm_ID m \<noteq> i}))\<rparr>"

definition group_made :: "string \<Rightarrow> string \<Rightarrow> stream_view \<Rightarrow> stream_view \<Rightarrow> bool" where
  "group_made k g v v' \<longleftrightarrow> \<not> sv_group v k g \<and>
     v' = v\<lparr>sv_group := (sv_group v)(k := (sv_group v k)(g := True)),
            sv_fresh := (sv_fresh v)(k := (sv_fresh v k)(g := [])),
            sv_pel := (sv_pel v)(k := (sv_pel v k)(g := {}))\<rparr>"

locale redis_streams =
  fixes R :: "'w redis_if"
    and view :: "'w \<Rightarrow> stream_view"
    and idle :: "'w \<Rightarrow> string \<Rightarrow> string \<Rightarrow> string \<Rightarrow> int"
    and inv :: "'w \<Rightarrow> bool"
  assumes xadd: "inv w \<Longrightarrow> wp (rd_XAdd R a)
      (\<lambda>r w'. inv w' \<and>
         ((\<exists>m. added a m (view w) (view w') \<and> (case r of Inr i \<Rightarrow> i = xm_ID m | Inl _ \<Rightarrow> True)) \<or>
          (\<exists>e. r = Inl e) \<and> view w' = view w)) w"
    and xreadgroup: "inv w \<Longrightarrow> xr_Streams ra = [k, ''>''] \<Longrightarrow> xr_Count ra = 1 \<Longrightarrow> wp (rd_XReadGroup R ra)
      (\<lambda>r w'. inv w' \<and>
         (case r of
            Inr ss \<Rightarrow> \<exists>m. ss = [\<lparr>xs_Stream = k, xs_Messages = [m]\<rparr>] \<and> delivered k (xr_Group ra) m (view w) (view w')
          | Inl e \<Rightarrow> (view w' = view w \<or> \<not> errors_is e RedisNil \<and> (\<exists>m. delivered k (xr_Group ra) m (view w) (view w'))) \<and>
                     (errors_is e RedisNil \<longrightarrow> sv_fresh (view w) k (xr_Group ra) = []))) w"
    and xautoclaim: "inv w \<Longrightarrow> xc_Start ca = ''0-0'' \<Longrightarrow> wp (rd_XAutoClaim R ca)
      (\<lambda>r w'. inv w' \<and> view w' = view w \<and>
         (case r of Inl _ \<Rightarrow> True
          | Inr (ms, _) \<Rightarrow> distinct ms \<and> int (length ms) \<le> max 0 (xc_Count ca) \<and>
              (\<forall>m \<in> set ms. m \<in> sv_pel (view w) (xc_Stream ca) (xc_Group ca) \<and>
                 idle w (xc_Stream ca) (xc_Group ca) (xm_ID m) \<ge> xc_MinIdle ca))) w"
    and xack: "inv w \<Longrightarrow> wp (rd_XAck R k g i)
      (\<lambda>r w'. inv w' \<and> (acked k g i (view w) (view w') \<or> r \<noteq> None \<and> view w' = view w)) w"
    and xrangen: "inv w \<Longrightarrow> n > 0 \<Longrightarrow> wp (rd_XRangeN R k ''-'' ''+'' n)
      (\<lambda>r w'. inv w' \<and> view w' = view w \<and>
         (case r of Inl e \<Rightarrow> errors_is e RedisNil \<longrightarrow> sv_entries (view w) k = []
          | Inr ms \<Rightarrow> ms = take (nat n) (sv_entries (view w) k))) w"
    and xgroup: "inv w \<Longrightarrow> wp (rd_XGroupCreateMkStream R k g ''$'')
      (\<lambda>r w'. inv w' \<and>
         (if sv_group (view w) k g
          then view w' = view w \<and> r \<noteq> None
          else group_made k g (view w) (view w') \<or> r \<noteq> None \<and> view w' = view w) \<and>
         (\<forall>e. r = Some e \<longrightarrow> contains (err_msg e) ''BUSYGROUP'' \<longrightarrow> sv_group (view w) k g)) w"

end
