(* ===== verification/Redis_Store.thy ===== *)
theory Redis_Store
  imports Store Redis_Client
begin

text \<open>
  \<open>internal/store/redis.go\<close>: jobs as JSON texts in Redis. The JSON of a job is the record \<open>codec\<close>
  (\<open>json.Marshal\<close> and \<open>json.Unmarshal\<close> at type \<open>model.Job\<close>), an argument, with the hypothesis
  \<open>codec_ok\<close>: a job that JSON can carry comes back as it was. The loop of \<open>List\<close> runs until \<open>SCAN\<close>
  hands back cursor 0; \<open>RedisStore_List\<close> takes the number of calls it may make, \<open>None\<close> is a loop
  that has not ended by then, and \<open>list_ends\<close> shows that it does end. The store keeps
  the contract \<open>job_store\<close> on every Redis that keeps \<open>redis_kv\<close>.
\<close>

section \<open>The program\<close>

record codec =
  marshalJob :: "job \<Rightarrow> goerr + string"
  unmarshalJob :: "string \<Rightarrow> goerr + job"

definition jobKeyPrefix :: string where
  "jobKeyPrefix = ''infraforge:job:''"

definition jobKey :: "string \<Rightarrow> string" where
  "jobKey i = jobKeyPrefix @ i"

definition RedisStore_Put :: "'w redis_if \<Rightarrow> codec \<Rightarrow> job \<Rightarrow> ('w, goerr option) state" where
  "RedisStore_Put R C j =
     (case marshalJob C j of
        Inl err \<Rightarrow> State_Monad.return (Some err)
      | Inr b \<Rightarrow> rd_Set R (jobKey (job_ID j)) b 0)"

definition RedisStore_Get :: "'w redis_if \<Rightarrow> codec \<Rightarrow> string \<Rightarrow> ('w, goerr + job) state" where
  "RedisStore_Get R C i =
     do {
       r \<leftarrow> rd_Get R (jobKey i);
       State_Monad.return
         (case r of
            Inl err \<Rightarrow> if errors_is err RedisNil then Inl (Sentinel ErrNotFound) else Inl err
          | Inr b \<Rightarrow> unmarshalJob C b)
     }"

text \<open>The inner loop of \<open>List\<close>: one \<open>GET\<close> per key of a batch, appending to \<open>jobs\<close>.\<close>

fun list_batch :: "'w redis_if \<Rightarrow> codec \<Rightarrow> string list \<Rightarrow> job list \<Rightarrow> ('w, goerr + job list) state" where
  "list_batch R C [] jobs = State_Monad.return (Inr jobs)"
| "list_batch R C (k # ks) jobs =
     do {
       r \<leftarrow> rd_Get R k;
       (case r of
          Inl err \<Rightarrow>
            if errors_is err RedisNil then list_batch R C ks jobs
            else State_Monad.return (Inl (errorf_w (''get '' @ k) err))
        | Inr b \<Rightarrow>
            (case unmarshalJob C b of
               Inl err \<Rightarrow> State_Monad.return (Inl (errorf_w (''decode '' @ k) err))
             | Inr j \<Rightarrow> list_batch R C ks (jobs @ [j])))
     }"

fun list_from :: "nat \<Rightarrow> 'w redis_if \<Rightarrow> codec \<Rightarrow> nat \<Rightarrow> job list \<Rightarrow> ('w, (goerr + job list) option) state" where
  "list_from 0 R C cursor jobs = State_Monad.return None"
| "list_from (Suc n) R C cursor jobs =
     do {
       r \<leftarrow> rd_Scan R cursor (jobKeyPrefix @ ''*'') 100;
       (case r of
          Inl err \<Rightarrow> State_Monad.return (Some (Inl (errorf_w ''scan'' err)))
        | Inr (keys, next) \<Rightarrow>
            do {
              b \<leftarrow> list_batch R C keys jobs;
              (case b of
                 Inl err \<Rightarrow> State_Monad.return (Some (Inl err))
               | Inr jobs' \<Rightarrow>
                   if next = 0 then State_Monad.return (Some (Inr jobs'))
                   else list_from n R C next jobs')
            })
     }"

definition RedisStore_List :: "nat \<Rightarrow> 'w redis_if \<Rightarrow> codec \<Rightarrow> ('w, (goerr + job list) option) state" where
  "RedisStore_List n R C = list_from n R C 0 []"

text \<open>
  The implementation of the interface. A \<open>List\<close> that needs more than \<open>n\<close> calls of \<open>SCAN\<close> shows as
  an error here.
\<close>

definition redis_store :: "nat \<Rightarrow> 'w redis_if \<Rightarrow> codec \<Rightarrow> 'w store_if" where
  "redis_store n R C =
     \<lparr>store_Put = RedisStore_Put R C, store_Get = RedisStore_Get R C,
      store_List = do {
        r \<leftarrow> RedisStore_List n R C;
        State_Monad.return (case r of None \<Rightarrow> Inl (NewErr ''scan has not ended'') | Some x \<Rightarrow> x) }\<rparr>"

section \<open>The contract\<close>

definition codec_ok :: "codec \<Rightarrow> bool" where
  "codec_ok C \<longleftrightarrow>
     (\<forall>j. job_ok j \<longrightarrow> (\<exists>b. marshalJob C j = Inr b \<and> unmarshalJob C b = Inr j)) \<and>
     (\<forall>b e. unmarshalJob C b = Inl e \<longrightarrow> \<not> errors_is e ErrNotFound)"

definition stored :: "codec \<Rightarrow> (string \<Rightarrow> string option) \<Rightarrow> string \<Rightarrow> job option" where
  "stored C m i =
     (case m (jobKey i) of None \<Rightarrow> None
      | Some b \<Rightarrow> (case unmarshalJob C b of Inl _ \<Rightarrow> None | Inr j \<Rightarrow> Some j))"

text \<open>Every key under the prefix holds the JSON of the job it names.\<close>

definition records_ok :: "codec \<Rightarrow> (string \<Rightarrow> string option) \<Rightarrow> bool" where
  "records_ok C m \<longleftrightarrow>
     (\<forall>i b. m (jobKey i) = Some b \<longrightarrow> (\<exists>j. unmarshalJob C b = Inr j \<and> job_ID j = i \<and> job_ok j))"

lemma jobKey_inject [simp]: "jobKey i = jobKey k \<longleftrightarrow> i = k"
  by (simp add: jobKey_def)

lemma glob_plain_prefix [simp]: "glob_plain jobKeyPrefix"
  by (simp add: glob_plain_def jobKeyPrefix_def)

lemma prefix_jobKey: "prefix jobKeyPrefix k \<longleftrightarrow> (\<exists>i. k = jobKey i)"
  by (auto simp: jobKey_def prefix_def)

lemma records_ok_put:
  "records_ok C m \<Longrightarrow> unmarshalJob C b = Inr j \<Longrightarrow> job_ok j \<Longrightarrow> records_ok C (m(jobKey (job_ID j) \<mapsto> b))"
  by (auto simp: records_ok_def)

lemma stored_put: "unmarshalJob C b = Inr j \<Longrightarrow> stored C (m(jobKey i \<mapsto> b)) = (stored C m)(i \<mapsto> j)"
  by (rule ext) (simp add: stored_def)

lemma stored_some: "records_ok C m \<Longrightarrow> m (jobKey i) = Some b \<Longrightarrow> \<exists>j. unmarshalJob C b = Inr j \<and> stored C m i = Some j"
  by (force simp: records_ok_def stored_def)

lemma stored_key: "stored C m i = Some j \<Longrightarrow> \<exists>b. m (jobKey i) = Some b \<and> unmarshalJob C b = Inr j"
  by (auto simp: stored_def split: option.splits sum.splits)

text \<open>The jobs under a set of keys.\<close>

definition jobs_at :: "codec \<Rightarrow> (string \<Rightarrow> string option) \<Rightarrow> string set \<Rightarrow> job set" where
  "jobs_at C m K = {j. \<exists>k \<in> K. \<exists>b. m k = Some b \<and> unmarshalJob C b = Inr j}"

lemma jobs_at_Un: "jobs_at C m (K \<union> L) = jobs_at C m K \<union> jobs_at C m L"
  by (auto simp: jobs_at_def)

lemma jobs_at_keys: "jobs_at C m (keys_with m jobKeyPrefix) = ran (stored C m)"
proof
  show "jobs_at C m (keys_with m jobKeyPrefix) \<subseteq> ran (stored C m)"
    by (auto simp: jobs_at_def keys_with_def prefix_jobKey ran_def stored_def split: option.split sum.split)
  show "ran (stored C m) \<subseteq> jobs_at C m (keys_with m jobKeyPrefix)"
    by (fastforce simp: jobs_at_def keys_with_def prefix_jobKey ran_def dest: stored_key)
qed

context redis_kv
begin

lemma list_batch_ok:
  assumes "inv w"
  shows "wp (list_batch R C ks js)
    (\<lambda>r w'. inv w' \<and> kv w' = kv w \<and> todo w' = todo w \<and> rank w' = rank w \<and>
       (case r of Inl _ \<Rightarrow> True | Inr js' \<Rightarrow> set js' = set js \<union> jobs_at C (kv w) (set ks))) w"
  using assms
proof (induction ks arbitrary: w js)
  case Nil
  then show ?case by (simp add: jobs_at_def)
next
  case (Cons k ks)
  let ?Q = "\<lambda>r w'. inv w' \<and> kv w' = kv w \<and> todo w' = todo w \<and> rank w' = rank w \<and>
       (case r of Inl _ \<Rightarrow> True | Inr js' \<Rightarrow> set js' = set js \<union> jobs_at C (kv w) (set (k # ks)))"
  have split: "jobs_at C (kv w) (set (k # ks)) = jobs_at C (kv w) {k} \<union> jobs_at C (kv w) (set ks)"
    by (simp flip: jobs_at_Un)
  have skip: "wp (list_batch R C ks js) ?Q w1"
    if "inv w1" "kv w1 = kv w" "todo w1 = todo w" "rank w1 = rank w" "kv w k = None" for w1
    by (rule wp_mono [OF Cons.IH [OF that(1), of js]])
       (use that split in \<open>auto simp: jobs_at_def split: sum.splits\<close>)
  have one: "wp (list_batch R C ks (js @ [j])) ?Q w1"
    if "inv w1" "kv w1 = kv w" "todo w1 = todo w" "rank w1 = rank w" "kv w k = Some b" "unmarshalJob C b = Inr j"
    for w1 b j
    by (rule wp_mono [OF Cons.IH [OF that(1), of "js @ [j]"]])
       (use that split in \<open>auto simp: jobs_at_def split: sum.splits\<close>)
  show ?case
    by (simp add: wp_case_sum, rule wp_mono [OF rget [OF Cons.prems]])
       (use skip one in \<open>auto simp: wp_case_sum split: sum.splits\<close>)
qed

text \<open>
  One run of the outer loop: it ends if it may make more calls than \<open>rank\<close>, and what it returns are
  the jobs it had and, at least, the jobs of the keys still to come.
\<close>

lemma list_from_ok:
  assumes "inv w" "set js \<subseteq> ran (stored C (kv w))"
    and "ran (stored C (kv w)) \<subseteq> set js \<union> jobs_at C (kv w) (todo w c jobKeyPrefix)"
  shows "wp (list_from n R C c js)
    (\<lambda>r w'. inv w' \<and> kv w' = kv w \<and> (rank w c < n \<longrightarrow> r \<noteq> None) \<and>
       (case r of Some (Inr js') \<Rightarrow> set js' = ran (stored C (kv w)) | _ \<Rightarrow> True)) w"
  using assms
proof (induction n arbitrary: w c js)
  case 0
  then show ?case by simp
next
  case (Suc n)
  let ?Q = "\<lambda>r w'. inv w' \<and> kv w' = kv w \<and> (rank w c < Suc n \<longrightarrow> r \<noteq> None) \<and>
       (case r of Some (Inr js') \<Rightarrow> set js' = ran (stored C (kv w)) | _ \<Rightarrow> True)"
  have batch: "wp (list_batch R C ks js)
      (\<lambda>b. wp (case b of Inl err \<Rightarrow> State_Monad.return (Some (Inl err))
         | Inr jobs' \<Rightarrow> if next = 0 then State_Monad.return (Some (Inr jobs')) else list_from n R C next jobs') ?Q) w1"
    if w1: "inv w1" "kv w1 = kv w" and ks: "set ks \<subseteq> keys_with (kv w) jobKeyPrefix"
      and cover: "todo w c jobKeyPrefix \<subseteq> set ks \<union> (if next = 0 then {} else todo w1 next jobKeyPrefix)"
      and less: "next \<noteq> 0 \<longrightarrow> rank w1 next < rank w c" for ks "next" w1
  proof -
    have sub: "jobs_at C (kv w) (set ks) \<subseteq> ran (stored C (kv w))"
      using ks by (auto simp: jobs_at_def simp flip: jobs_at_keys)
    have sup: "jobs_at C (kv w) (todo w c jobKeyPrefix) \<subseteq> jobs_at C (kv w) (set ks) \<union>
        (if next = 0 then {} else jobs_at C (kv w) (todo w1 next jobKeyPrefix))"
      using cover by (auto simp: jobs_at_def split: if_splits)
    have rest: "wp (if next = 0 then State_Monad.return (Some (Inr js')) else list_from n R C next js') ?Q w2"
      if w2: "inv w2" "kv w2 = kv w1" "todo w2 = todo w1" "rank w2 = rank w1"
        and js': "set js' = set js \<union> jobs_at C (kv w1) (set ks)" for js' w2
    proof (cases "next = 0")
      case True
      with w1 w2 js' sub sup Suc.prems(2,3) show ?thesis by auto
    next
      case False
      have "wp (list_from n R C next js') (\<lambda>r w'. inv w' \<and> kv w' = kv w2 \<and> (rank w2 next < n \<longrightarrow> r \<noteq> None) \<and>
          (case r of Some (Inr js') \<Rightarrow> set js' = ran (stored C (kv w2)) | _ \<Rightarrow> True)) w2"
        by (rule Suc.IH [OF w2(1)]) (use False w1 w2 js' sub sup Suc.prems(2,3) in auto)
      then show ?thesis using False
        by (auto elim!: wp_mono simp: w1 w2 split: option.splits sum.splits)
           (use less w1 w2 in auto)
    qed
    show ?thesis
      by (rule wp_mono [OF list_batch_ok [OF w1(1)]]) (use rest w1 in \<open>auto simp: wp_case_sum split: sum.splits\<close>)
  qed
  show ?case
    by (simp add: wp_case_sum wp_case_prod, rule wp_mono [OF scan [OF Suc.prems(1) glob_plain_prefix]])
       (use batch in \<open>auto split: sum.splits\<close>)
qed

lemma list_ends:
  assumes "inv w"
  shows "wp (RedisStore_List n R C)
    (\<lambda>r w'. inv w' \<and> kv w' = kv w \<and> (rank w 0 < n \<longrightarrow> r \<noteq> None) \<and>
       (case r of Some (Inr js') \<Rightarrow> set js' = ran (stored C (kv w)) | _ \<Rightarrow> True)) w"
  unfolding RedisStore_List_def
proof (rule list_from_ok [OF assms])
  show "ran (stored C (kv w)) \<subseteq> set [] \<union> jobs_at C (kv w) (todo w 0 jobKeyPrefix)"
    using scan_start [OF assms, of jobKeyPrefix] by (auto simp: jobs_at_def simp flip: jobs_at_keys)
qed simp

end

text \<open>A Redis store is a Redis that keeps the laws together with a codec that keeps its own.\<close>

locale redis_job_store = redis_kv R kv inv todo rank
  for R :: "'w redis_if" and kv and inv :: "'w \<Rightarrow> bool" and todo rank +
  fixes C :: codec and n :: nat
  assumes codec: "codec_ok C"
begin

definition sinv :: "'w \<Rightarrow> bool" where
  "sinv w \<longleftrightarrow> inv w \<and> records_ok C (kv w)"

lemma put_contract:
  assumes "sinv w" "job_ok j"
  shows "wp (RedisStore_Put R C j)
    (\<lambda>e w'. sinv w' \<and> (stored C (kv w') = (stored C (kv w))(job_ID j \<mapsto> j) \<or> e \<noteq> None \<and> stored C (kv w') = stored C (kv w))) w"
proof -
  from codec assms(2) obtain b where b: "marshalJob C j = Inr b" "unmarshalJob C b = Inr j"
    unfolding codec_ok_def by blast
  from assms have w: "inv w" "records_ok C (kv w)" by (simp_all add: sinv_def)
  show ?thesis
    unfolding RedisStore_Put_def b sum.case
    by (rule wp_mono [OF rset [OF w(1)]])
       (use w b assms(2) in \<open>auto simp: sinv_def stored_put records_ok_put\<close>)
qed

lemma get_contract:
  assumes "sinv w"
  shows "wp (RedisStore_Get R C i)
    (\<lambda>r w'. sinv w' \<and> stored C (kv w') = stored C (kv w) \<and>
       (case r of Inr j \<Rightarrow> stored C (kv w) i = Some j | Inl e \<Rightarrow> errors_is e ErrNotFound \<longrightarrow> stored C (kv w) i = None)) w"
proof -
  from assms have w: "inv w" "records_ok C (kv w)" by (simp_all add: sinv_def)
  have dec: "\<not> errors_is e ErrNotFound" if "unmarshalJob C b = Inl e" for b e
    using codec that by (simp add: codec_ok_def)
  show ?thesis
    unfolding RedisStore_Get_def wp_bind wp_return
    by (rule wp_mono [OF rget [OF w(1)]])
       (use w(2) dec in \<open>auto simp: sinv_def stored_def split: sum.splits if_splits\<close>)
qed

lemma list_contract:
  assumes "sinv w"
  shows "wp (store_List (redis_store n R C))
    (\<lambda>r w'. sinv w' \<and> stored C (kv w') = stored C (kv w) \<and>
       (case r of Inr js \<Rightarrow> set js = ran (stored C (kv w)) | Inl _ \<Rightarrow> True)) w"
proof -
  from assms have w: "inv w" "records_ok C (kv w)" by (simp_all add: sinv_def)
  show ?thesis
    by (simp add: redis_store_def, rule wp_mono [OF list_ends [OF w(1)]])
       (use w(2) in \<open>auto simp: sinv_def split: option.splits sum.splits\<close>)
qed

end

sublocale redis_job_store \<subseteq> st: job_store "redis_store n R C" "\<lambda>w. stored C (kv w)" sinv
proof
  show "wp (store_Put (redis_store n R C) j) (\<lambda>e w'. sinv w' \<and>
      (stored C (kv w') = (stored C (kv w))(job_ID j \<mapsto> j) \<or> e \<noteq> None \<and> stored C (kv w') = stored C (kv w))) w"
    if "sinv w" "job_ok j" for w j
    using put_contract [OF that] by (simp add: redis_store_def)
  show "wp (store_Get (redis_store n R C) i) (\<lambda>r w'. sinv w' \<and> stored C (kv w') = stored C (kv w) \<and>
      (case r of Inr j \<Rightarrow> stored C (kv w) i = Some j
       | Inl e \<Rightarrow> errors_is e ErrNotFound \<longrightarrow> stored C (kv w) i = None)) w" if "sinv w" for w i
    using get_contract [OF that] by (simp add: redis_store_def)
  show "job_ID j = i \<and> job_ok j" if "sinv w" "stored C (kv w) i = Some j" for w i j
    using that by (fastforce simp: sinv_def records_ok_def dest!: stored_key)
qed (rule list_contract)

context redis_job_store
begin

lemma store_contract: "job_store (redis_store n R C) (\<lambda>w. stored C (kv w)) sinv"
  by (rule st.job_store_axioms)

end

text \<open>Whatever the string commands leave alone, the store leaves alone.\<close>

lemma redis_store_frame:
  assumes set: "\<And>k b. keeps I v any_result (rd_Set R k b 0)" and get: "\<And>k. keeps I v any_result (rd_Get R k)"
    and scan: "\<And>c p n. keeps I v any_result (rd_Scan R c p n)"
  shows "keeps I v any_result (store_Put (redis_store n R C) j)"
    and "keeps I v any_result (store_Get (redis_store n R C) i)"
    and "keeps I v any_result (store_List (redis_store n R C))"
proof -
  have batch: "keeps I v any_result (list_batch R C ks js)" for ks js
    by (induction ks arbitrary: js)
       (auto intro!: keeps_intros keeps_bind_any [OF get])
  have "keeps I v any_result (list_from n R C c js)" for n c js
    by (induction n arbitrary: c js)
       (auto intro!: keeps_intros keeps_bind_any [OF scan] keeps_bind_any [OF batch])
  then show "keeps I v any_result (store_List (redis_store n R C))"
    by (auto simp: redis_store_def RedisStore_List_def intro!: keeps_bind_any keeps_return)
qed (auto simp: redis_store_def RedisStore_Put_def RedisStore_Get_def
      intro!: keeps_intros set keeps_bind_any [OF get])

end
