(* ===== verification/Redis_Queue.thy ===== *)
theory Redis_Queue
  imports Interfaces Redis_Client
begin

text \<open>
  \<open>internal/queue/queue.go\<close>: the job queue on a Redis stream with one consumer group, and the
  dead-letter stream. The contract of a queue is the locale \<open>job_queue\<close>: what is enqueued is
  delivered with the same job and action, and a message stays outstanding (waiting or pending)
  until it is acknowledged. \<open>RedisQueue\<close> keeps it on every Redis that keeps \<open>redis_streams\<close>.
  \<open>time_text\<close> is \<open>Time.Format\<close> and \<open>time.Parse\<close>, functions of a layout: an argument, with the law \<open>layout_ok\<close> for the
  one layout that the program uses.
\<close>

section \<open>The program\<close>

record time_text =
  formatTime :: "string \<Rightarrow> time \<Rightarrow> string"
  parseTime :: "string \<Rightarrow> string \<Rightarrow> time option"

definition RFC3339Nano :: string where "RFC3339Nano = ''2006-01-02T15:04:05.999999999Z07:00''"

definition StreamKey :: string where "StreamKey = ''infraforge:jobs''"
definition Group :: string where "Group = ''provisioners''"
definition DeadStreamKey :: string where "DeadStreamKey = ''infraforge:jobs:dead''"
definition deadStreamMaxLen :: int where "deadStreamMaxLen = 1000"

definition EnsureGroup :: "'w redis_if \<Rightarrow> ('w, goerr option) state" where
  "EnsureGroup R =
     do {
       err \<leftarrow> rd_XGroupCreateMkStream R StreamKey Group ''$'';
       State_Monad.return
         (case err of
            Some e \<Rightarrow> if \<not> contains (err_msg e) ''BUSYGROUP'' then Some e else None
          | None \<Rightarrow> None)
     }"

definition err_of :: "goerr + 'a \<Rightarrow> goerr option" where
  "err_of r = (case r of Inl e \<Rightarrow> Some e | Inr _ \<Rightarrow> None)"

definition enqueue_values :: "string \<Rightarrow> action \<Rightarrow> (string, redis_val) gomap" where
  "enqueue_values jobID act = [(''job_id'', VStr jobID), (''action'', VStr act)]"

definition RedisQueue_Enqueue :: "'w redis_if \<Rightarrow> string \<Rightarrow> action \<Rightarrow> ('w, goerr option) state" where
  "RedisQueue_Enqueue R jobID act =
     do {
       r \<leftarrow> rd_XAdd R \<lparr>xa_Stream = StreamKey, xa_MaxLen = 0, xa_Approx = False,
                       xa_Values = enqueue_values jobID act\<rparr>;
       State_Monad.return (err_of r)
     }"

definition str_field :: "xmessage \<Rightarrow> string \<Rightarrow> string" where
  "str_field m k = (case as_string (gm_get (xm_Values m) k) of None \<Rightarrow> [] | Some s \<Rightarrow> s)"

definition messageFrom :: "xmessage \<Rightarrow> message" where
  "messageFrom m =
     (let jobID = str_field m ''job_id''; act = str_field m ''action''
      in \<lparr>msg_ID = xm_ID m, msg_JobID = jobID,
          msg_Action = (if act = [] then ActionProvision else act)\<rparr>)"

definition RedisQueue_Dequeue :: "'w redis_if \<Rightarrow> string \<Rightarrow> duration \<Rightarrow> ('w, goerr + message option) state" where
  "RedisQueue_Dequeue R consumer block =
     do {
       r \<leftarrow> rd_XReadGroup R \<lparr>xr_Group = Group, xr_Consumer = consumer, xr_Streams = [StreamKey, ''>''],
                             xr_Count = 1, xr_Block = block\<rparr>;
       State_Monad.return
         (case r of
            Inl err \<Rightarrow> if errors_is err RedisNil then Inr None else Inl err
          | Inr res \<Rightarrow>
              (case res of
                 [] \<Rightarrow> Inr None
               | s # _ \<Rightarrow> (case xs_Messages s of [] \<Rightarrow> Inr None | m # _ \<Rightarrow> Inr (Some (messageFrom m)))))
     }"

definition RedisQueue_Reclaim :: "'w redis_if \<Rightarrow> string \<Rightarrow> duration \<Rightarrow> int \<Rightarrow> ('w, goerr + message list) state" where
  "RedisQueue_Reclaim R consumer minIdle cnt =
     do {
       r \<leftarrow> rd_XAutoClaim R \<lparr>xc_Stream = StreamKey, xc_Group = Group, xc_Consumer = consumer,
                             xc_MinIdle = minIdle, xc_Start = ''0-0'', xc_Count = cnt\<rparr>;
       State_Monad.return (case r of Inl err \<Rightarrow> Inl err | Inr (entries, _) \<Rightarrow> Inr (map messageFrom entries))
     }"

definition RedisQueue_Ack :: "'w redis_if \<Rightarrow> message \<Rightarrow> ('w, goerr option) state" where
  "RedisQueue_Ack R m = rd_XAck R StreamKey Group (msg_ID m)"

definition dead_values :: "time_text \<Rightarrow> message \<Rightarrow> string \<Rightarrow> int \<Rightarrow> time \<Rightarrow> (string, redis_val) gomap" where
  "dead_values T m detail attempts t =
     [(''job_id'', VStr (msg_JobID m)), (''action'', VStr (msg_Action m)), (''detail'', VStr detail),
      (''attempts'', VInt attempts), (''timestamp'', VStr (formatTime T RFC3339Nano t))]"

definition RedisQueue_DeadLetter ::
  "'w redis_if \<Rightarrow> 'w sys_if \<Rightarrow> time_text \<Rightarrow> message \<Rightarrow> string \<Rightarrow> int \<Rightarrow> ('w, goerr option) state" where
  "RedisQueue_DeadLetter R Y T m detail attempts =
     do {
       t \<leftarrow> sys_now Y;
       r \<leftarrow> rd_XAdd R \<lparr>xa_Stream = DeadStreamKey, xa_MaxLen = deadStreamMaxLen, xa_Approx = True,
                       xa_Values = dead_values T m detail attempts t\<rparr>;
       State_Monad.return (err_of r)
     }"

text \<open>The zero value of \<open>time.Time\<close>: January 1 of year 1.\<close>

definition zeroTime :: time where
  "zeroTime = - 62135596800 * second"

definition deadFrom :: "time_text \<Rightarrow> xmessage \<Rightarrow> deadEntry" where
  "deadFrom T m =
     \<lparr>de_StreamID = xm_ID m,
      de_JobID = str_field m ''job_id'',
      de_Action = str_field m ''action'',
      de_Detail = str_field m ''detail'',
      de_Attempts =
        (case as_string (gm_get (xm_Values m) ''attempts'') of
           None \<Rightarrow> 0 | Some v \<Rightarrow> (case sscanf_d v of None \<Rightarrow> 0 | Some n \<Rightarrow> n)),
      de_Timestamp =
        (case as_string (gm_get (xm_Values m) ''timestamp'') of
           None \<Rightarrow> zeroTime | Some v \<Rightarrow> (case parseTime T RFC3339Nano v of None \<Rightarrow> zeroTime | Some t \<Rightarrow> t))\<rparr>"

definition RedisQueue_ListDead :: "'w redis_if \<Rightarrow> time_text \<Rightarrow> int \<Rightarrow> ('w, goerr + deadEntry list) state" where
  "RedisQueue_ListDead R T limit =
     do {
       let limit' = (if limit \<le> 0 then 100 else limit);
       r \<leftarrow> rd_XRangeN R DeadStreamKey ''-'' ''+'' limit';
       State_Monad.return
         (case r of
            Inl err \<Rightarrow> if errors_is err RedisNil then Inr [] else Inl err
          | Inr res \<Rightarrow> Inr (map (deadFrom T) res))
     }"

definition redis_queue :: "'w redis_if \<Rightarrow> 'w sys_if \<Rightarrow> time_text \<Rightarrow> 'w queue_if" where
  "redis_queue R Y T =
     \<lparr>queue_Enqueue = RedisQueue_Enqueue R, queue_Dequeue = RedisQueue_Dequeue R,
      queue_Reclaim = RedisQueue_Reclaim R, queue_Ack = RedisQueue_Ack R,
      queue_DeadLetter = RedisQueue_DeadLetter R Y T, queue_ListDead = RedisQueue_ListDead R T\<rparr>"

section \<open>The contract of a queue\<close>

text \<open>
  \<open>waiting\<close> are the messages no worker has seen, oldest first; \<open>pending\<close> those delivered and not
  acknowledged; \<open>dead\<close> the dead-letter entries, oldest first. An empty action is read back as
  \<open>provision\<close>.
\<close>

record queue_view =
  qv_waiting :: "message list"
  qv_pending :: "message set"
  qv_dead :: "deadEntry list"

definition outstanding :: "queue_view \<Rightarrow> message set" where
  "outstanding v = set (qv_waiting v) \<union> qv_pending v"

definition enqueued :: "string \<Rightarrow> action \<Rightarrow> queue_view \<Rightarrow> queue_view \<Rightarrow> bool" where
  "enqueued i a v v' \<longleftrightarrow>
     (\<exists>m. msg_JobID m = i \<and> msg_Action m = (if a = [] then ActionProvision else a) \<and>
        msg_ID m \<notin> msg_ID ` outstanding v \<and> v' = v\<lparr>qv_waiting := qv_waiting v @ [m]\<rparr>)"

definition dequeued :: "message \<Rightarrow> queue_view \<Rightarrow> queue_view \<Rightarrow> bool" where
  "dequeued m v v' \<longleftrightarrow>
     (\<exists>rest. qv_waiting v = m # rest \<and> v' = v\<lparr>qv_waiting := rest, qv_pending := insert m (qv_pending v)\<rparr>)"

definition dead_lettered :: "message \<Rightarrow> string \<Rightarrow> int \<Rightarrow> time \<Rightarrow> queue_view \<Rightarrow> queue_view \<Rightarrow> bool" where
  "dead_lettered m d n t v v' \<longleftrightarrow>
     (\<exists>e k. de_JobID e = msg_JobID m \<and> de_Action e = msg_Action m \<and> de_Detail e = d \<and> de_Attempts e = n \<and>
        de_Timestamp e = t \<and> v' = v\<lparr>qv_dead := drop k (qv_dead v @ [e])\<rparr> \<and>
        int (length (qv_dead v')) \<ge> min deadStreamMaxLen (int (length (qv_dead v)) + 1))"

locale job_queue =
  fixes q :: "'w queue_if"
    and qview :: "'w \<Rightarrow> queue_view"
    and inv :: "'w \<Rightarrow> bool"
  assumes enqueue: "inv w \<Longrightarrow> wp (queue_Enqueue q i a)
      (\<lambda>e w'. inv w' \<and> (enqueued i a (qview w) (qview w') \<or> e \<noteq> None \<and> qview w' = qview w)) w"
    and dequeue: "inv w \<Longrightarrow> wp (queue_Dequeue q c b)
      (\<lambda>r w'. inv w' \<and>
         (case r of
            Inr None \<Rightarrow> qv_waiting (qview w) = [] \<and> qview w' = qview w
          | Inr (Some m) \<Rightarrow> dequeued m (qview w) (qview w')
          | Inl e \<Rightarrow> qview w' = qview w \<or> (\<exists>m. dequeued m (qview w) (qview w')))) w"
    and reclaim: "inv w \<Longrightarrow> wp (queue_Reclaim q c idle n)
      (\<lambda>r w'. inv w' \<and> qview w' = qview w \<and>
         (case r of Inr ms \<Rightarrow> set ms \<subseteq> qv_pending (qview w) \<and> int (length ms) \<le> max 0 n | Inl _ \<Rightarrow> True)) w"
    and ack: "inv w \<Longrightarrow> wp (queue_Ack q m)
      (\<lambda>e w'. inv w' \<and>
         (qview w' = (qview w)\<lparr>qv_pending := {m' \<in> qv_pending (qview w). msg_ID m' \<noteq> msg_ID m}\<rparr> \<or>
          e \<noteq> None \<and> qview w' = qview w)) w"
    and deadletter: "inv w \<Longrightarrow> int64_range n \<Longrightarrow> wp (queue_DeadLetter q m d n)
      (\<lambda>e w'. inv w' \<and> ((\<exists>t. dead_lettered m d n t (qview w) (qview w')) \<or> e \<noteq> None \<and> qview w' = qview w)) w"
    and listdead: "inv w \<Longrightarrow> wp (queue_ListDead q n)
      (\<lambda>r w'. inv w' \<and> qview w' = qview w \<and>
         (case r of Inr es \<Rightarrow> es = take (nat (if n \<le> 0 then 100 else n)) (qv_dead (qview w)) | Inl _ \<Rightarrow> True)) w"

begin

text \<open>
  A message, once outstanding, is lost by no operation but its own acknowledgement: neither when
  calls fail half-way, nor by delivering or reclaiming it.
\<close>

lemma enqueue_outstanding:
  "inv w \<Longrightarrow> wp (queue_Enqueue q i a) (\<lambda>_ w'. inv w' \<and> outstanding (qview w) \<subseteq> outstanding (qview w')) w"
  by (rule wp_mono [OF enqueue]) (auto simp: enqueued_def outstanding_def)

lemma dequeue_outstanding:
  "inv w \<Longrightarrow> wp (queue_Dequeue q c b) (\<lambda>_ w'. inv w' \<and> outstanding (qview w) = outstanding (qview w')) w"
  by (rule wp_mono [OF dequeue]) (auto simp: dequeued_def outstanding_def split: sum.splits option.splits)

lemma reclaim_outstanding:
  "inv w \<Longrightarrow> wp (queue_Reclaim q c idle n) (\<lambda>_ w'. inv w' \<and> outstanding (qview w) = outstanding (qview w')) w"
  by (rule wp_mono [OF reclaim]) auto

lemma ack_outstanding:
  "inv w \<Longrightarrow> wp (queue_Ack q m)
     (\<lambda>_ w'. inv w' \<and> {m' \<in> outstanding (qview w). msg_ID m' \<noteq> msg_ID m} \<subseteq> outstanding (qview w')) w"
  by (rule wp_mono [OF ack]) (auto simp: outstanding_def)

lemma deadletter_outstanding:
  "inv w \<Longrightarrow> int64_range n \<Longrightarrow>
     wp (queue_DeadLetter q m d n) (\<lambda>_ w'. inv w' \<and> outstanding (qview w) = outstanding (qview w')) w"
  by (rule wp_mono [OF deadletter]) (auto simp: dead_lettered_def outstanding_def)

end

section \<open>Reading entries back\<close>

lemma carries_field:
  "carries vs m \<Longrightarrow> as_string (gm_get (xm_Values m) k) = map_option val_text (gm_get vs k)"
  by (cases "gm_get vs k") (auto simp: carries_def)

lemma str_field_carries:
  "carries vs m \<Longrightarrow> str_field m k = (case gm_get vs k of None \<Rightarrow> [] | Some v \<Rightarrow> val_text v)"
  by (simp add: str_field_def carries_field split: option.split)

lemma messageFrom_enqueued:
  assumes "carries (enqueue_values i a) m"
  shows "messageFrom m =
    \<lparr>msg_ID = xm_ID m, msg_JobID = i, msg_Action = (if a = [] then ActionProvision else a)\<rparr>"
  by (simp add: messageFrom_def str_field_carries [OF assms] enqueue_values_def gm_get_def Let_def)

lemma dead_values_get:
  "gm_get (dead_values T m d n t) ''job_id'' = Some (VStr (msg_JobID m))"
  "gm_get (dead_values T m d n t) ''action'' = Some (VStr (msg_Action m))"
  "gm_get (dead_values T m d n t) ''detail'' = Some (VStr d)"
  "gm_get (dead_values T m d n t) ''attempts'' = Some (VInt n)"
  "gm_get (dead_values T m d n t) ''timestamp'' = Some (VStr (formatTime T RFC3339Nano t))"
  by (simp_all add: dead_values_def gm_get_def)

text \<open>The time that a reader gets for the time \<open>t\<close> of a dead letter.\<close>

definition stamp :: "time_text \<Rightarrow> time \<Rightarrow> time" where
  "stamp T t = (case parseTime T RFC3339Nano (formatTime T RFC3339Nano t) of None \<Rightarrow> zeroTime | Some t' \<Rightarrow> t')"

definition layout_ok :: "time_text \<Rightarrow> bool" where
  "layout_ok T \<longleftrightarrow> (\<forall>t. time_ok t \<longrightarrow> parseTime T RFC3339Nano (formatTime T RFC3339Nano t) = Some t)"

lemma stamp_id: "layout_ok T \<Longrightarrow> time_ok t \<Longrightarrow> stamp T t = t"
  by (simp add: stamp_def layout_ok_def)

lemma deadFrom_written:
  assumes "carries (dead_values T m d n t) x" "int64_range n"
  shows "deadFrom T x =
    \<lparr>de_StreamID = xm_ID x, de_JobID = msg_JobID m, de_Action = msg_Action m, de_Detail = d, de_Attempts = n,
     de_Timestamp = stamp T t\<rparr>"
  using assms(2)
  by (simp add: deadFrom_def str_field_carries [OF assms(1)] carries_field [OF assms(1)] dead_values_get
      sscanf_show_int stamp_def)

lemma msg_ID_messageFrom [simp]: "msg_ID (messageFrom m) = xm_ID m"
  by (simp add: messageFrom_def Let_def)

lemma stream_keys_neq [simp]: "StreamKey \<noteq> DeadStreamKey" "DeadStreamKey \<noteq> StreamKey"
  by (simp_all add: StreamKey_def DeadStreamKey_def)

section \<open>RedisQueue keeps the contract\<close>

definition queue_of :: "time_text \<Rightarrow> stream_view \<Rightarrow> queue_view" where
  "queue_of T v =
     \<lparr>qv_waiting = map messageFrom (sv_fresh v StreamKey Group),
      qv_pending = messageFrom ` sv_pel v StreamKey Group,
      qv_dead = map (deadFrom T) (sv_entries v DeadStreamKey)\<rparr>"

lemma waiting_nil [simp]: "qv_waiting (queue_of T v) = [] \<longleftrightarrow> sv_fresh v StreamKey Group = []"
  by (simp add: queue_of_def)

lemma added_enqueued:
  assumes "added a m v v'" "sv_group v StreamKey Group"
    and "a = \<lparr>xa_Stream = StreamKey, xa_MaxLen = 0, xa_Approx = False, xa_Values = enqueue_values i x\<rparr>"
  shows "enqueued i x (queue_of T v) (queue_of T v') \<and> sv_group v' StreamKey Group"
proof -
  from assms have "carries (enqueue_values i x) m"
    and "\<And>m'. m' \<in> set (sv_fresh v StreamKey Group) \<union> sv_pel v StreamKey Group \<Longrightarrow> xm_ID m' \<noteq> xm_ID m"
    by (auto simp: added_def Let_def)
  with assms messageFrom_enqueued [of i x m] show ?thesis
    by (auto simp: added_def enqueued_def outstanding_def queue_of_def Let_def intro!: exI [of _ "messageFrom m"])
qed

lemma added_dead:
  assumes "added a x v v'" "int64_range n"
    and "a = \<lparr>xa_Stream = DeadStreamKey, xa_MaxLen = deadStreamMaxLen, xa_Approx = True,
           xa_Values = dead_values T m d n t\<rparr>"
  shows "dead_lettered m d n (stamp T t) (queue_of T v) (queue_of T v') \<and> sv_group v' = sv_group v"
proof -
  from assms obtain k where k: "sv_entries v' DeadStreamKey = drop k (sv_entries v DeadStreamKey @ [x])"
    "int (length (sv_entries v' DeadStreamKey)) \<ge> min deadStreamMaxLen (int (length (sv_entries v DeadStreamKey)) + 1)"
    and c: "carries (dead_values T m d n t) x"
    by (auto simp: added_def trimmed_def deadStreamMaxLen_def Let_def)
  have "qv_dead (queue_of T v') = drop k (qv_dead (queue_of T v) @ [deadFrom T x])"
    by (simp add: queue_of_def k(1) drop_map [symmetric] del: drop_append)
  moreover have "qv_waiting (queue_of T v') = qv_waiting (queue_of T v)"
    "qv_pending (queue_of T v') = qv_pending (queue_of T v)"
    using assms(1,3) by (simp_all add: added_def queue_of_def Let_def)
  moreover have "length (qv_dead (queue_of T v')) = length (sv_entries v' DeadStreamKey)"
    by (simp add: queue_of_def)
  ultimately show ?thesis
    using k(2) deadFrom_written [OF c assms(2)] assms(1)
    by (auto simp: dead_lettered_def added_def queue_of_def Let_def intro!: exI [of _ "deadFrom T x"] exI [of _ k])
qed

lemma delivered_dequeued:
  "delivered StreamKey Group m v v' \<Longrightarrow>
     dequeued (messageFrom m) (queue_of T v) (queue_of T v') \<and> sv_group v' = sv_group v"
  by (auto simp: delivered_def dequeued_def queue_of_def)

lemma acked_queue:
  "acked StreamKey Group i v v' \<Longrightarrow> sv_group v' = sv_group v \<and>
     queue_of T v' = (queue_of T v)\<lparr>qv_pending := {m \<in> qv_pending (queue_of T v). msg_ID m \<noteq> i}\<rparr>"
  by (auto simp: acked_def queue_of_def)

text \<open>
  The queue as the two programs set it up: the group exists (both call \<open>EnsureGroup\<close> before they
  serve) and reading the clock touches no stream.
\<close>

locale redis_job_queue = redis_streams R view idle inv
  for R :: "'w redis_if" and view idle and inv :: "'w \<Rightarrow> bool" +
  fixes Y :: "'w sys_if" and T :: time_text
  assumes now: "inv w \<Longrightarrow> wp (sys_now Y) (\<lambda>_ w'. inv w' \<and> view w' = view w) w"
begin

definition qinv :: "'w \<Rightarrow> bool" where
  "qinv w \<longleftrightarrow> inv w \<and> sv_group (view w) StreamKey Group"

lemma EnsureGroup_ok:
  assumes "inv w"
  shows "wp (EnsureGroup R) (\<lambda>e w'. inv w' \<and> (e = None \<longrightarrow> qinv w')) w"
  unfolding EnsureGroup_def wp_bind wp_return
  by (rule wp_mono [OF xgroup [OF assms]])
     (auto simp: qinv_def group_made_def split: option.splits if_splits)

lemma enqueue_contract:
  assumes "qinv w"
  shows "wp (RedisQueue_Enqueue R i a)
    (\<lambda>e w'. qinv w' \<and> (enqueued i a (queue_of T (view w)) (queue_of T (view w')) \<or>
       e \<noteq> None \<and> queue_of T (view w') = queue_of T (view w))) w"
proof -
  from assms have w: "inv w" "sv_group (view w) StreamKey Group" by (simp_all add: qinv_def)
  show ?thesis unfolding RedisQueue_Enqueue_def wp_bind wp_return
    by (rule wp_mono [OF xadd [OF w(1)]])
       (use w(2) in \<open>auto simp: qinv_def err_of_def dest: added_enqueued [OF _ _ refl, where T = T]\<close>)
qed

lemma dequeue_contract:
  assumes "qinv w"
  shows "wp (RedisQueue_Dequeue R c b)
    (\<lambda>r w'. qinv w' \<and>
       (case r of
          Inr None \<Rightarrow> qv_waiting (queue_of T (view w)) = [] \<and> queue_of T (view w') = queue_of T (view w)
        | Inr (Some m) \<Rightarrow> dequeued m (queue_of T (view w)) (queue_of T (view w'))
        | Inl e \<Rightarrow> queue_of T (view w') = queue_of T (view w) \<or>
            (\<exists>m. dequeued m (queue_of T (view w)) (queue_of T (view w'))))) w"
proof -
  from assms have w: "inv w" "sv_group (view w) StreamKey Group" by (simp_all add: qinv_def)
  show ?thesis unfolding RedisQueue_Dequeue_def wp_bind wp_return
    by (rule wp_mono [OF xreadgroup [OF w(1), where k = StreamKey]])
       (use w(2) in \<open>auto simp: qinv_def waiting_nil split: sum.splits
         dest!: delivered_dequeued [where T = T]\<close>)
qed

lemma reclaim_contract:
  assumes "qinv w"
  shows "wp (RedisQueue_Reclaim R c d n)
    (\<lambda>r w'. qinv w' \<and> queue_of T (view w') = queue_of T (view w) \<and>
       (case r of Inr ms \<Rightarrow> set ms \<subseteq> qv_pending (queue_of T (view w)) \<and> int (length ms) \<le> max 0 n
        | Inl _ \<Rightarrow> True)) w"
proof -
  from assms have w: "inv w" "sv_group (view w) StreamKey Group" by (simp_all add: qinv_def)
  show ?thesis unfolding RedisQueue_Reclaim_def wp_bind wp_return
    by (rule wp_mono [OF xautoclaim [OF w(1)]])
       (use w(2) in \<open>auto simp: qinv_def queue_of_def split: sum.splits\<close>)
qed

text \<open>A message is taken over only after it has been idle for \<open>minIdle\<close>.\<close>

lemma reclaim_idle:
  assumes "inv w"
  shows "wp (RedisQueue_Reclaim R c d n)
    (\<lambda>r w'. case r of Inr ms \<Rightarrow> \<forall>m \<in> set ms. idle w StreamKey Group (msg_ID m) \<ge> d | Inl _ \<Rightarrow> True) w"
  unfolding RedisQueue_Reclaim_def wp_bind wp_return
  by (rule wp_mono [OF xautoclaim [OF assms]]) (auto split: sum.splits)

lemma ack_contract:
  assumes "qinv w"
  shows "wp (RedisQueue_Ack R m)
    (\<lambda>e w'. qinv w' \<and>
       (queue_of T (view w') =
          (queue_of T (view w))\<lparr>qv_pending := {m' \<in> qv_pending (queue_of T (view w)). msg_ID m' \<noteq> msg_ID m}\<rparr> \<or>
        e \<noteq> None \<and> queue_of T (view w') = queue_of T (view w))) w"
proof -
  from assms have w: "inv w" "sv_group (view w) StreamKey Group" by (simp_all add: qinv_def)
  show ?thesis unfolding RedisQueue_Ack_def
    by (rule wp_mono [OF xack [OF w(1)]])
       (use w(2) in \<open>auto simp: qinv_def dest: acked_queue [where T = T]\<close>)
qed

lemma deadletter_written:
  assumes "qinv w" "int64_range n" "run_state (sys_now Y) w = (t, w0)"
  shows "wp (RedisQueue_DeadLetter R Y T m d n)
    (\<lambda>e w'. qinv w' \<and> (dead_lettered m d n (stamp T t) (queue_of T (view w)) (queue_of T (view w')) \<or>
       e \<noteq> None \<and> queue_of T (view w') = queue_of T (view w))) w"
proof -
  from assms(1) have w: "inv w" "sv_group (view w) StreamKey Group" by (simp_all add: qinv_def)
  have w0: "inv w0" "view w0 = view w" using wp_runD [OF now [OF w(1)] assms(3)] by simp_all
  show ?thesis unfolding RedisQueue_DeadLetter_def wp_bind wp_return wp_run [OF assms(3)]
    by (rule wp_mono [OF xadd [OF w0(1)]])
       (use w0 w(2) in \<open>auto simp: qinv_def err_of_def dest: added_dead [OF _ assms(2) refl]\<close>)
qed

lemma deadletter_contract:
  assumes "qinv w" "int64_range n"
  shows "wp (RedisQueue_DeadLetter R Y T m d n)
    (\<lambda>e w'. qinv w' \<and> ((\<exists>t. dead_lettered m d n t (queue_of T (view w)) (queue_of T (view w'))) \<or>
       e \<noteq> None \<and> queue_of T (view w') = queue_of T (view w))) w"
proof -
  obtain t w0 where "run_state (sys_now Y) w = (t, w0)" by (metis surj_pair)
  from deadletter_written [OF assms this] show ?thesis by (rule wp_mono) blast
qed

text \<open>Whatever number it writes, a dead letter leaves the stream of jobs alone.\<close>

lemma deadletter_jobs:
  assumes "qinv w"
  shows "wp (queue_DeadLetter (redis_queue R Y T) m d n)
    (\<lambda>_ w'. qinv w' \<and> outstanding (queue_of T (view w')) = outstanding (queue_of T (view w))) w"
proof -
  from assms have w: "inv w" "sv_group (view w) StreamKey Group" by (simp_all add: qinv_def)
  have add: "wp (rd_XAdd R a) (\<lambda>_ w'. qinv w' \<and> outstanding (queue_of T (view w')) = outstanding (queue_of T (view w))) w1"
    if "inv w1" "view w1 = view w" "xa_Stream a = DeadStreamKey" for a w1
    by (rule wp_mono [OF xadd [OF that(1)]])
       (use that w(2) in \<open>auto simp: qinv_def added_def Let_def outstanding_def queue_of_def\<close>)
  show ?thesis unfolding redis_queue_def queue_if.select_convs RedisQueue_DeadLetter_def wp_bind wp_return
    by (rule wp_mono [OF now [OF w(1)]]) (use add in auto)
qed

lemma listdead_contract:
  assumes "qinv w"
  shows "wp (RedisQueue_ListDead R T n)
    (\<lambda>r w'. qinv w' \<and> queue_of T (view w') = queue_of T (view w) \<and>
       (case r of Inr es \<Rightarrow> es = take (nat (if n \<le> 0 then 100 else n)) (qv_dead (queue_of T (view w)))
        | Inl _ \<Rightarrow> True)) w"
proof -
  from assms have w: "inv w" "sv_group (view w) StreamKey Group" by (simp_all add: qinv_def)
  have "(if n \<le> 0 then 100 else n) > 0" by simp
  from xrangen [OF w(1) this, of DeadStreamKey] show ?thesis
    unfolding RedisQueue_ListDead_def Let_def wp_bind wp_return
    by (rule wp_mono) (use w(2) in \<open>auto simp: qinv_def queue_of_def take_map split: sum.splits\<close>)
qed

end

sublocale redis_job_queue \<subseteq> jq: job_queue "redis_queue R Y T" "\<lambda>w. queue_of T (view w)" qinv
  by unfold_locales
     (simp_all only: redis_queue_def queue_if.select_convs enqueue_contract dequeue_contract
       reclaim_contract ack_contract deadletter_contract listdead_contract)

context redis_job_queue
begin

lemma queue_contract: "job_queue (redis_queue R Y T) (\<lambda>w. queue_of T (view w)) qinv"
  by (rule jq.job_queue_axioms)

end

text \<open>Whatever the stream commands leave alone, the queue leaves alone.\<close>

lemma redis_queue_frame:
  assumes add: "\<And>a. keeps I v any_result (rd_XAdd R a)"
    and read: "\<And>ra k. xr_Streams ra = [k, ''>''] \<Longrightarrow> xr_Count ra = 1 \<Longrightarrow> keeps I v any_result (rd_XReadGroup R ra)"
    and claim: "\<And>ca. xc_Start ca = ''0-0'' \<Longrightarrow> keeps I v any_result (rd_XAutoClaim R ca)"
    and ack: "\<And>k g i. keeps I v any_result (rd_XAck R k g i)"
    and range: "\<And>k n. n > 0 \<Longrightarrow> keeps I v any_result (rd_XRangeN R k ''-'' ''+'' n)"
    and clock: "keeps I v any_result (sys_now Y)"
  shows "keeps I v any_result (queue_Enqueue (redis_queue R Y T) i a)"
    and "keeps I v any_result (queue_Dequeue (redis_queue R Y T) c b)"
    and "keeps I v any_result (queue_Reclaim (redis_queue R Y T) c d n)"
    and "keeps I v any_result (queue_Ack (redis_queue R Y T) m)"
    and "keeps I v any_result (queue_DeadLetter (redis_queue R Y T) m det n)"
    and "keeps I v any_result (queue_ListDead (redis_queue R Y T) n)"
  by (auto simp: redis_queue_def RedisQueue_Enqueue_def RedisQueue_Dequeue_def RedisQueue_Reclaim_def
      RedisQueue_Ack_def RedisQueue_DeadLetter_def RedisQueue_ListDead_def Let_def
      intro!: keeps_bind_any add read claim ack range clock keeps_return)

text \<open>The contract holds with any further invariant about things that the queue leaves alone.\<close>

lemma job_queue_also:
  assumes "job_queue q qview I" and v: "\<And>w. I w \<Longrightarrow> I0 w" "\<And>w. P w \<longleftrightarrow> P0 (v w)"
    and k: "\<And>i a. keeps I0 v any_result (queue_Enqueue q i a)" "\<And>c b. keeps I0 v any_result (queue_Dequeue q c b)"
      "\<And>c d n. keeps I0 v any_result (queue_Reclaim q c d n)" "\<And>m. keeps I0 v any_result (queue_Ack q m)"
      "\<And>m d n. keeps I0 v any_result (queue_DeadLetter q m d n)" "\<And>n. keeps I0 v any_result (queue_ListDead q n)"
  shows "job_queue q qview (\<lambda>w. I w \<and> P w)"
proof (unfold_locales, goal_cases)
  case (1 w i a)
  then show ?case by (intro wp_also [where I = I and P = P, OF v k(1)]) (simp_all only: job_queue.enqueue [OF assms(1)] simp_thms)
next
  case (2 w c b)
  then show ?case by (intro wp_also [where I = I and P = P, OF v k(2)]) (simp_all only: job_queue.dequeue [OF assms(1)] simp_thms)
next
  case (3 w c d n)
  then show ?case by (intro wp_also [where I = I and P = P, OF v k(3)]) (simp_all only: job_queue.reclaim [OF assms(1)] simp_thms)
next
  case (4 w m)
  then show ?case by (intro wp_also [where I = I and P = P, OF v k(4)]) (simp_all only: job_queue.ack [OF assms(1)] simp_thms)
next
  case (5 w n m d)
  then show ?case by (intro wp_also [where I = I and P = P, OF v k(5)]) (simp_all only: job_queue.deadletter [OF assms(1)] simp_thms)
next
  case (6 w n)
  then show ?case by (intro wp_also [where I = I and P = P, OF v k(6)]) (simp_all only: job_queue.listdead [OF assms(1)] simp_thms)
qed

end
