(* ===== verification/Record_Text.thy ===== *)
theory Record_Text
  imports Redis_Store Redis_Queue
begin

text \<open>
  A codec that keeps \<open>codec_ok\<close>: the fields of a record as a list of strings, each preceded by its
  length. It stands in for \<open>encoding/json\<close> where a concrete codec is needed; the development
  uses nothing of a codec but \<open>codec_ok\<close>.
\<close>

section \<open>Lists of strings as one string\<close>

definition pack_one :: "string \<Rightarrow> string" where
  "pack_one s = show_nat (length s) @ CHR '':'' # s"

definition pack :: "string list \<Rightarrow> string" where
  "pack xs = concat (map pack_one xs)"

text \<open>\<open>unpack n\<close> reads at most \<open>n\<close> strings; a text holds no more strings than characters.\<close>

fun unpack_upto :: "nat \<Rightarrow> string \<Rightarrow> string list option" where
  "unpack_upto 0 t = (if t = [] then Some [] else None)"
| "unpack_upto (Suc n) t =
     (if t = [] then Some []
      else let ds = takeWhile is_digit t; r = dropWhile is_digit t; k = digits_val ds
           in if ds = [] \<or> r = [] \<or> length (tl r) < k then None
              else map_option (\<lambda>xs. take k (tl r) # xs) (unpack_upto n (drop k (tl r))))"

definition unpack :: "string \<Rightarrow> string list option" where
  "unpack t = unpack_upto (length t) t"

lemma takeWhile_show_nat: "takeWhile is_digit (show_nat n @ CHR '':'' # s) = show_nat n"
  using show_nat_digits [of n] by (simp add: takeWhile_append2 list_all_iff)

lemma dropWhile_show_nat: "dropWhile is_digit (show_nat n @ CHR '':'' # s) = CHR '':'' # s"
  using show_nat_digits [of n] by (simp add: dropWhile_append2 list_all_iff)

lemma unpack_upto_one:
  "unpack_upto (Suc n) (pack_one s @ t) = map_option ((#) s) (unpack_upto n t)"
proof -
  have t: "pack_one s @ t = show_nat (length s) @ CHR '':'' # (s @ t)" by (simp add: pack_one_def)
  show ?thesis
    unfolding t by (simp add: takeWhile_show_nat dropWhile_show_nat Let_def)
qed

lemma unpack_upto_pack: "length xs \<le> n \<Longrightarrow> unpack_upto n (pack xs) = Some xs"
proof (induction xs arbitrary: n)
  case Nil
  then show ?case by (cases n) (simp_all add: pack_def)
next
  case (Cons x xs)
  then obtain m where n: "n = Suc m" and m: "length xs \<le> m" by (cases n) auto
  show ?case
    using Cons.IH [OF m] unpack_upto_one [of m x "pack xs"] by (simp add: n pack_def)
qed

lemma pack_length: "length xs \<le> length (pack xs)"
  by (induction xs) (simp_all add: pack_def pack_one_def)

lemma unpack_pack [simp]: "unpack (pack xs) = Some xs"
  by (simp add: unpack_def unpack_upto_pack pack_length)

section \<open>Integers of any size\<close>

fun read_int :: "string \<Rightarrow> int" where
  "read_int [] = 0"
| "read_int (c # s) = (if c = CHR ''-'' then - int (digits_val s) else int (digits_val (c # s)))"

lemma read_int_show [simp]: "read_int (show_int i) = i"
proof (cases "i < 0")
  case True
  then show ?thesis by (simp add: show_int_def)
next
  case False
  obtain c s where "show_nat (nat i) = c # s" "is_digit c" by (rule show_nat_Cons)
  with False show ?thesis
    using digits_val_show_nat [of "nat i"] by (auto simp: show_int_def)
qed

section \<open>Jobs\<close>

fun conn_fields :: "connectionInfo option \<Rightarrow> string list" where
  "conn_fields None = []"
| "conn_fields (Some c) =
     [conn_Host c, show_int (conn_Port c), conn_Username c, conn_Password c, conn_Database c]"

fun conn_of :: "string list \<Rightarrow> connectionInfo option" where
  "conn_of [h, p, u, w, d] = Some \<lparr>conn_Host = h, conn_Port = read_int p, conn_Username = u, conn_Password = w,
     conn_Database = d\<rparr>"
| "conn_of _ = None"

fun http_fields :: "httpEndpoint option \<Rightarrow> string list" where
  "http_fields None = []"
| "http_fields (Some h) = [http_Host h, show_int (http_Port h)]"

fun http_of :: "string list \<Rightarrow> httpEndpoint option" where
  "http_of [h, p] = Some \<lparr>http_Host = h, http_Port = read_int p\<rparr>"
| "http_of _ = None"

definition job_fields :: "job \<Rightarrow> string list" where
  "job_fields j =
     [job_ID j, job_ServiceName j, job_Resource j, job_Status j, job_Detail j, show_int (job_Attempts j),
      pack (conn_fields (job_Connection j)), pack (http_fields (job_HTTP j)),
      show_int (job_CreatedAt j), show_int (job_UpdatedAt j)]"

fun job_of :: "string list \<Rightarrow> job option" where
  "job_of [i, s, r, st, d, a, c, h, t, u] =
     (case (unpack c, unpack h) of
        (Some cf, Some hf) \<Rightarrow>
          Some \<lparr>job_ID = i, job_ServiceName = s, job_Resource = r, job_Status = st, job_Detail = d,
                job_Attempts = read_int a, job_Connection = conn_of cf, job_HTTP = http_of hf,
                job_CreatedAt = read_int t, job_UpdatedAt = read_int u\<rparr>
      | _ \<Rightarrow> None)"
| "job_of _ = None"

lemma conn_of_fields [simp]: "conn_of (conn_fields c) = c"
  by (cases c) simp_all

lemma http_of_fields [simp]: "http_of (http_fields h) = h"
  by (cases h) simp_all

lemma job_of_fields [simp]: "job_of (job_fields j) = Some j"
  by (simp add: job_fields_def)

definition text_codec :: codec where
  "text_codec =
     \<lparr>marshalJob = (\<lambda>j. Inr (pack (job_fields j))),
      unmarshalJob = (\<lambda>b. case Option.bind (unpack b) job_of of
         Some j \<Rightarrow> Inr j | None \<Rightarrow> Inl (NewErr ''cannot decode''))\<rparr>"

lemma text_codec_ok [simp]: "codec_ok text_codec"
  by (auto simp: codec_ok_def text_codec_def split: option.splits)

definition int_time_text :: time_text where
  "int_time_text = \<lparr>formatTime = (\<lambda>layout. show_int),
     parseTime = (\<lambda>layout s. if layout = RFC3339Nano then Some (read_int s) else None)\<rparr>"

lemma int_time_text_ok [simp]: "layout_ok int_time_text"
  by (simp add: layout_ok_def int_time_text_def)

end
