(* ===== verification/Redis_Server.thy ===== *)
theory Redis_Server
  imports Record_Text
begin

text \<open>
  A server that keeps the laws of \<open>Redis_Client\<close>, so that what is proved from the laws is proved of
  something. It stores strings, streams and groups, delivers and claims with idle times, trims,
  may return every key of a \<open>SCAN\<close> twice (\<open>srv_dup\<close>), and fails as its script \<open>srv_faults\<close> says:
  a command is refused, or carried out while its reply is lost.
\<close>

section \<open>State\<close>

datatype fault = Fine | Refuse | ReplyLost

type_synonym pending_entry = "xmessage \<times> string \<times> time"

record redis_server =
  srv_kv :: "(string, string) gomap"
  srv_dup :: bool
  srv_streams :: "(string, xmessage list) gomap"
  srv_groups :: "(string \<times> string, xmessage list \<times> pending_entry list) gomap"
  srv_next :: nat
  srv_clock :: time
  srv_seed :: nat
  srv_faults :: "fault list"

definition io_error :: goerr where
  "io_error = NewErr ''i/o timeout''"

text \<open>Run one command under the next fault of the script.\<close>

definition command :: "(redis_server, goerr + 'a) state \<Rightarrow> (redis_server, goerr + 'a) state" where
  "command m = State (\<lambda>s.
     case srv_faults s of
       [] \<Rightarrow> run_state m s
     | f # fs \<Rightarrow>
         (let s1 = s\<lparr>srv_faults := fs\<rparr>
          in case f of
               Fine \<Rightarrow> run_state m s1
             | Refuse \<Rightarrow> (Inl io_error, s1)
             | ReplyLost \<Rightarrow> (Inl io_error, snd (run_state m s1))))"

definition command_err :: "(redis_server, goerr + 'a) state \<Rightarrow> (redis_server, goerr option) state" where
  "command_err m = do { r \<leftarrow> command m; State_Monad.return (err_of r) }"

section \<open>Commands\<close>

definition srv_Set :: "string \<Rightarrow> string \<Rightarrow> (redis_server, goerr + unit) state" where
  "srv_Set k v = State (\<lambda>s. (Inr (), s\<lparr>srv_kv := gm_put k v (srv_kv s)\<rparr>))"

definition srv_Get :: "string \<Rightarrow> (redis_server, goerr + string) state" where
  "srv_Get k = State (\<lambda>s. (case gm_get (srv_kv s) k of None \<Rightarrow> Inl (Sentinel RedisNil) | Some v \<Rightarrow> Inr v, s))"

definition srv_Scan :: "nat \<Rightarrow> string \<Rightarrow> int \<Rightarrow> (redis_server, goerr + string list \<times> nat) state" where
  "srv_Scan c pat n = State (\<lambda>s.
     let keys = map fst (srv_kv s); m = Suc (nat n);
         batch = filter (prefix (butlast pat)) (take m (drop c keys))
     in (Inr (if srv_dup s then batch @ batch else batch,
              if c + m \<ge> length keys then 0 else c + m), s))"

definition entry_id :: "nat \<Rightarrow> string" where
  "entry_id n = show_nat n @ ''-0''"

definition new_entry :: "redis_server \<Rightarrow> (string, redis_val) gomap \<Rightarrow> xmessage" where
  "new_entry s vs = \<lparr>xm_ID = entry_id (srv_next s), xm_Values = map (\<lambda>(k, v). (k, AnyString (val_text v))) vs\<rparr>"

definition entries_of :: "redis_server \<Rightarrow> string \<Rightarrow> xmessage list" where
  "entries_of s k = (case gm_get (srv_streams s) k of None \<Rightarrow> [] | Some es \<Rightarrow> es)"

definition trim_to :: "int \<Rightarrow> 'a list \<Rightarrow> 'a list" where
  "trim_to n xs = (if n = 0 then xs else drop (length xs - nat n) xs)"

definition push_group :: "string \<Rightarrow> xmessage \<Rightarrow> xmessage list \<times> pending_entry list \<Rightarrow>
    xmessage list \<times> pending_entry list" where
  "push_group k m = (\<lambda>(fresh, pel). (fresh @ [m], pel))"

definition srv_XAdd :: "xaddArgs \<Rightarrow> (redis_server, goerr + string) state" where
  "srv_XAdd a = State (\<lambda>s.
     let m = new_entry s (xa_Values a); k = xa_Stream a
     in (Inr (xm_ID m),
         s\<lparr>srv_streams := gm_put k (trim_to (xa_MaxLen a) (entries_of s k @ [m])) (srv_streams s),
           srv_groups := map (\<lambda>((k', g), d). ((k', g), if k' = k then push_group k m d else d)) (srv_groups s),
           srv_next := Suc (srv_next s)\<rparr>))"

text \<open>The clock stops at the last time that JSON can carry; the context of the process ends there.\<close>

definition last_time :: time where
  "last_time = 253402300800 * second - 1"

definition advance :: "duration \<Rightarrow> redis_server \<Rightarrow> redis_server" where
  "advance d s = s\<lparr>srv_clock := min (srv_clock s + max 0 d) last_time\<rparr>"

definition srv_XReadGroup :: "xreadGroupArgs \<Rightarrow> (redis_server, goerr + xstream list) state" where
  "srv_XReadGroup a = State (\<lambda>s.
     let k = hd (xr_Streams a); g = xr_Group a
     in case gm_get (srv_groups s) (k, g) of
          None \<Rightarrow> (Inl (NewErr ''NOGROUP''), s)
        | Some ([], pel) \<Rightarrow> (Inl (Sentinel RedisNil), advance (xr_Block a) s)
        | Some (m # fresh, pel) \<Rightarrow>
            (Inr [\<lparr>xs_Stream = k, xs_Messages = [m]\<rparr>],
             s\<lparr>srv_groups := gm_put (k, g) (fresh, (m, xr_Consumer a, srv_clock s) # pel) (srv_groups s)\<rparr>))"

definition stale :: "redis_server \<Rightarrow> duration \<Rightarrow> pending_entry \<Rightarrow> bool" where
  "stale s d = (\<lambda>(m, c, t). srv_clock s - t \<ge> d)"

definition srv_XAutoClaim :: "xautoClaimArgs \<Rightarrow> (redis_server, goerr + xmessage list \<times> string) state" where
  "srv_XAutoClaim a = State (\<lambda>s.
     case gm_get (srv_groups s) (xc_Stream a, xc_Group a) of
       None \<Rightarrow> (Inl (NewErr ''NOGROUP''), s)
     | Some (fresh, pel) \<Rightarrow>
         (let ms = take (nat (xc_Count a)) (map fst (filter (stale s (xc_MinIdle a)) pel))
          in (Inr (ms, ''0-0''),
              s\<lparr>srv_groups := gm_put (xc_Stream a, xc_Group a)
                 (fresh, map (\<lambda>(m, c, t). if m \<in> set ms then (m, xc_Consumer a, srv_clock s) else (m, c, t)) pel)
                 (srv_groups s)\<rparr>)))"

definition srv_XAck :: "string \<Rightarrow> string \<Rightarrow> string \<Rightarrow> (redis_server, goerr + unit) state" where
  "srv_XAck k g i = State (\<lambda>s.
     case gm_get (srv_groups s) (k, g) of
       None \<Rightarrow> (Inr (), s)
     | Some (fresh, pel) \<Rightarrow>
         (Inr (), s\<lparr>srv_groups := gm_put (k, g) (fresh, filter (\<lambda>(m, c, t). xm_ID m \<noteq> i) pel) (srv_groups s)\<rparr>))"

definition srv_XRangeN :: "string \<Rightarrow> int \<Rightarrow> (redis_server, goerr + xmessage list) state" where
  "srv_XRangeN k n = State (\<lambda>s. (Inr (take (nat n) (entries_of s k)), s))"

definition srv_XGroupCreate :: "string \<Rightarrow> string \<Rightarrow> (redis_server, goerr + unit) state" where
  "srv_XGroupCreate k g = State (\<lambda>s.
     case gm_get (srv_groups s) (k, g) of
       Some _ \<Rightarrow> (Inl (NewErr ''BUSYGROUP Consumer Group name already exists''), s)
     | None \<Rightarrow> (Inr (), s\<lparr>srv_groups := gm_put (k, g) ([], []) (srv_groups s)\<rparr>))"

definition redis_srv :: "redis_server redis_if" where
  "redis_srv =
     \<lparr>rd_Set = (\<lambda>k v ttl. command_err (srv_Set k v)),
      rd_Get = (\<lambda>k. command (srv_Get k)),
      rd_Scan = (\<lambda>c p n. command (srv_Scan c p n)),
      rd_XGroupCreateMkStream = (\<lambda>k g start. command_err (srv_XGroupCreate k g)),
      rd_XAdd = (\<lambda>a. command (srv_XAdd a)),
      rd_XReadGroup = (\<lambda>a. command (srv_XReadGroup a)),
      rd_XAutoClaim = (\<lambda>a. command (srv_XAutoClaim a)),
      rd_XAck = (\<lambda>k g i. command_err (srv_XAck k g i)),
      rd_XRangeN = (\<lambda>k lo hi n. command (srv_XRangeN k n))\<rparr>"

definition srv_sys :: "redis_server sys_if" where
  "srv_sys =
     \<lparr>sys_now = State (\<lambda>s. (srv_clock s, s)),
      sys_rand = (\<lambda>n. State (\<lambda>s. (map (\<lambda>i. (srv_seed s + i) mod 256) [0..<n], s\<lparr>srv_seed := Suc (srv_seed s)\<rparr>))),
      sys_ctx_err = State (\<lambda>s. (if srv_clock s \<ge> last_time then Some (Sentinel CtxDeadlineExceeded) else None, s)),
      sys_sleep = (\<lambda>d. State (\<lambda>s. ((), advance d s)))\<rparr>"

section \<open>Views and invariant\<close>

definition srv_todo :: "redis_server \<Rightarrow> nat \<Rightarrow> string \<Rightarrow> string set" where
  "srv_todo s c p = {k \<in> set (drop c (map fst (srv_kv s))). prefix p k}"

definition srv_rank :: "redis_server \<Rightarrow> nat \<Rightarrow> nat" where
  "srv_rank s c = length (srv_kv s) - c"

definition group_of :: "redis_server \<Rightarrow> string \<Rightarrow> string \<Rightarrow> xmessage list \<times> pending_entry list" where
  "group_of s k g = (case gm_get (srv_groups s) (k, g) of None \<Rightarrow> ([], []) | Some d \<Rightarrow> d)"

definition srv_view :: "redis_server \<Rightarrow> stream_view" where
  "srv_view s =
     \<lparr>sv_entries = entries_of s,
      sv_group = (\<lambda>k g. gm_get (srv_groups s) (k, g) \<noteq> None),
      sv_fresh = (\<lambda>k g. fst (group_of s k g)),
      sv_pel = (\<lambda>k g. fst ` set (snd (group_of s k g)))\<rparr>"

definition srv_idle :: "redis_server \<Rightarrow> string \<Rightarrow> string \<Rightarrow> string \<Rightarrow> duration" where
  "srv_idle s k g i =
     (case map_of (map (\<lambda>(m, c, t). (xm_ID m, t)) (snd (group_of s k g))) i of
        None \<Rightarrow> 0 | Some t \<Rightarrow> srv_clock s - t)"

definition ids_below :: "nat \<Rightarrow> xmessage list \<Rightarrow> bool" where
  "ids_below n ms = list_all (\<lambda>m. \<exists>i \<in> {..<n}. xm_ID m = entry_id i) ms"

definition group_ok :: "nat \<Rightarrow> xmessage list \<times> pending_entry list \<Rightarrow> bool" where
  "group_ok n = (\<lambda>(fresh, pel).
     ids_below n (fresh @ map fst pel) \<and> distinct (map xm_ID (fresh @ map fst pel)))"

definition srv_inv :: "redis_server \<Rightarrow> bool" where
  "srv_inv s \<longleftrightarrow> gm_wf (srv_kv s) \<and> time_ok (srv_clock s) \<and>
     list_all (\<lambda>(k, es). ids_below (srv_next s) es) (srv_streams s) \<and>
     list_all (\<lambda>(kg, d). group_ok (srv_next s) d) (srv_groups s)"

lemma wp_command:
  assumes "\<And>fs. wp m Q (s\<lparr>srv_faults := fs\<rparr>)"
    and "\<And>fs. Q (Inl io_error) (s\<lparr>srv_faults := fs\<rparr>)"
    and "\<And>fs. wp m (\<lambda>_. Q (Inl io_error)) (s\<lparr>srv_faults := fs\<rparr>)"
  shows "wp (command m) Q s"
proof (cases "srv_faults s")
  case Nil
  then have "s\<lparr>srv_faults := []\<rparr> = s" by (cases s) simp
  with Nil assms(1) [of "[]"] show ?thesis by (simp add: wp_def command_def)
next
  case (Cons f fs)
  with assms [of fs] show ?thesis
    by (cases f) (auto simp: wp_def command_def split: prod.splits)
qed

lemma wp_command_err:
  assumes "\<And>fs. wp m (\<lambda>r. Q (err_of r)) (s\<lparr>srv_faults := fs\<rparr>)"
    and "\<And>fs. Q (Some io_error) (s\<lparr>srv_faults := fs\<rparr>)"
    and "\<And>fs. wp m (\<lambda>_. Q (Some io_error)) (s\<lparr>srv_faults := fs\<rparr>)"
  shows "wp (command_err m) Q s"
  unfolding command_err_def wp_bind wp_return
  by (rule wp_command) (use assms in \<open>simp_all add: err_of_def\<close>)


text \<open>A law that a lost reply does not break need only be shown of the command itself.\<close>

lemma wp_commandI:
  assumes "\<And>fs. wp m Q (s\<lparr>srv_faults := fs\<rparr>)" "\<And>fs. Q (Inl io_error) (s\<lparr>srv_faults := fs\<rparr>)"
    and "\<And>r s'. Q r s' \<Longrightarrow> Q (Inl io_error) s'"
  shows "wp (command m) Q s"
  by (rule wp_command) (auto intro: assms wp_mono [OF assms(1)])

lemma wp_command_errI:
  assumes "\<And>fs. wp m (\<lambda>r. Q (err_of r)) (s\<lparr>srv_faults := fs\<rparr>)" "\<And>fs. Q (Some io_error) (s\<lparr>srv_faults := fs\<rparr>)"
    and "\<And>r s'. Q r s' \<Longrightarrow> Q (Some io_error) s'"
  shows "wp (command_err m) Q s"
  by (rule wp_command_err) (auto intro: assms wp_mono [OF assms(1)])

lemma faults_invisible [simp]:
  "srv_inv (s\<lparr>srv_faults := fs\<rparr>) = srv_inv s"
  "srv_view (s\<lparr>srv_faults := fs\<rparr>) = srv_view s"
  "srv_idle (s\<lparr>srv_faults := fs\<rparr>) = srv_idle s"
  "srv_todo (s\<lparr>srv_faults := fs\<rparr>) = srv_todo s"
  "srv_rank (s\<lparr>srv_faults := fs\<rparr>) = srv_rank s"
  "group_of (s\<lparr>srv_faults := fs\<rparr>) = group_of s"
  "entries_of (s\<lparr>srv_faults := fs\<rparr>) = entries_of s"
  by (simp_all add: srv_inv_def srv_view_def srv_idle_def srv_todo_def srv_rank_def group_of_def
      entries_of_def fun_eq_iff split: option.split)

lemma advance_invisible [simp]:
  "srv_inv s \<Longrightarrow> srv_inv (advance d s)" "srv_view (advance d s) = srv_view s"
  "srv_kv (advance d s) = srv_kv s"
  by (auto simp: advance_def srv_inv_def srv_view_def entries_of_def group_of_def fun_eq_iff time_ok_def last_time_def)

lemma io_error_facts [simp]:
  "\<not> errors_is io_error t" "\<not> contains (err_msg io_error) ''BUSYGROUP''"
  by (simp_all add: io_error_def)

section \<open>Strings and SCAN\<close>

abbreviation srv_strings :: "redis_server \<Rightarrow> string \<Rightarrow> string option" where
  "srv_strings s \<equiv> gm_get (srv_kv s)"

lemma scan_sound:
  "{k \<in> set (take m (drop c (map fst kv))). prefix p k} \<subseteq> keys_with (gm_get kv) p"
  by (auto simp: keys_with_def gm_dom dest!: in_set_takeD in_set_dropD)

lemma scan_next:
  "{k \<in> set (drop c (map fst kv)). prefix p k} \<subseteq>
     {k \<in> set (take (Suc m) (drop c (map fst kv))). prefix p k} \<union>
     (if length kv \<le> Suc (c + m) then {} else {k \<in> set (drop (Suc (c + m)) (map fst kv)). prefix p k})"
proof -
  let ?K = "map fst kv" and ?L = "drop (Suc (c + m)) (map fst kv)"
  have "set (drop c ?K) = set (take (Suc m) (drop c ?K) @ drop (Suc m) (drop c ?K))"
    by (simp only: append_take_drop_id)
  also have "drop (Suc m) (drop c ?K) = ?L" by (simp add: add.commute)
  finally have eq: "set (drop c ?K) = set (take (Suc m) (drop c ?K)) \<union> set ?L" by (simp only: set_append)
  have "set ?L = {}" if "length kv \<le> Suc (c + m)" using that by simp
  with eq show ?thesis by (cases "length kv \<le> Suc (c + m)") (simp_all only: if_True if_False, blast+)
qed

lemma srv_kv_laws: "redis_kv redis_srv srv_strings srv_inv srv_todo srv_rank"
proof
  show "wp (rd_Set redis_srv k v 0) (\<lambda>e w'. srv_inv w' \<and>
      (srv_strings w' = (srv_strings s)(k \<mapsto> v) \<or> e \<noteq> None \<and> srv_strings w' = srv_strings s)) s"
    if "srv_inv s" for s k v
    unfolding redis_srv_def redis_if.select_convs
    by (rule wp_command_err) (use that in \<open>auto simp: wp_def srv_Set_def err_of_def srv_inv_def\<close>)
  show "wp (rd_Get redis_srv k) (\<lambda>r w'. srv_inv w' \<and> srv_strings w' = srv_strings s \<and>
      srv_todo w' = srv_todo s \<and> srv_rank w' = srv_rank s \<and>
      (case r of Inr v \<Rightarrow> srv_strings s k = Some v
       | Inl e \<Rightarrow> (errors_is e RedisNil \<longrightarrow> srv_strings s k = None) \<and> \<not> errors_is e ErrNotFound)) s"
    if "srv_inv s" for s k
    unfolding redis_srv_def redis_if.select_convs
    by (rule wp_command) (use that in \<open>auto simp: wp_def srv_Get_def split: option.split\<close>)
  show "wp (rd_Scan redis_srv c (p @ ''*'') n) (\<lambda>r w'. srv_inv w' \<and> srv_strings w' = srv_strings s \<and>
      (case r of Inl _ \<Rightarrow> True
       | Inr (ks, next) \<Rightarrow> set ks \<subseteq> keys_with (srv_strings s) p \<and>
           srv_todo s c p \<subseteq> set ks \<union> (if next = 0 then {} else srv_todo w' next p) \<and>
           (next \<noteq> 0 \<longrightarrow> srv_rank w' next < srv_rank s c))) s"
    if "srv_inv s" for s c p n
    unfolding redis_srv_def redis_if.select_convs
    by (rule wp_command; cases "length (srv_kv s) \<le> Suc (c + nat n)")
       (use that scan_sound [of "Suc (nat n)" c "srv_kv s" p] scan_next [of c "srv_kv s" p "nat n"] in
        \<open>simp_all add: wp_def srv_Scan_def Let_def srv_todo_def srv_rank_def less_diff_iff\<close>)
  show "keys_with (srv_strings s) p \<subseteq> srv_todo s 0 p" for s p
    by (auto simp: keys_with_def srv_todo_def gm_dom)
qed

section \<open>Streams\<close>

lemma entry_id_inject [simp]: "entry_id a = entry_id b \<longleftrightarrow> a = b"
  by (metis append_same_eq digits_val_show_nat entry_id_def)

lemma ids_below_append [simp]: "ids_below n (xs @ ys) \<longleftrightarrow> ids_below n xs \<and> ids_below n ys"
  by (simp add: ids_below_def)

lemma ids_below_mono: "ids_below n xs \<Longrightarrow> set ys \<subseteq> set xs \<Longrightarrow> n \<le> n' \<Longrightarrow> ids_below n' ys"
  by (fastforce simp: ids_below_def list_all_iff)

lemma ids_below_Suc: "ids_below n xs \<Longrightarrow> ids_below (Suc n) xs"
  by (erule ids_below_mono) simp_all

lemma ids_below_fresh: "ids_below n xs \<Longrightarrow> m \<in> set xs \<Longrightarrow> xm_ID m \<noteq> entry_id n"
  by (auto simp: ids_below_def list_all_iff)

lemma ids_below_simps [simp]: "ids_below n []" "ids_below n (m # ms) \<longleftrightarrow> (\<exists>i<n. xm_ID m = entry_id i) \<and> ids_below n ms"
  by (auto simp: ids_below_def)

lemma gm_get_in: "gm_get m k = Some v \<Longrightarrow> (k, v) \<in> set m"
  by (simp add: gm_get_def map_of_SomeD)

lemma srv_inv_entries: "srv_inv s \<Longrightarrow> ids_below (srv_next s) (entries_of s k)"
  by (auto simp: srv_inv_def entries_of_def list_all_iff split: option.split dest!: gm_get_in)

lemma srv_inv_group: "srv_inv s \<Longrightarrow> group_ok (srv_next s) (group_of s k g)"
proof (cases "gm_get (srv_groups s) (k, g)")
  case None
  then show ?thesis by (simp add: group_of_def group_ok_def)
next
  case (Some d)
  assume "srv_inv s"
  with gm_get_in [OF Some] Some show ?thesis by (auto simp: srv_inv_def group_of_def list_all_iff)
qed

lemma list_all_put: "list_all P m \<Longrightarrow> P (k, v) \<Longrightarrow> list_all P (gm_put k v m)"
  unfolding gm_put_def by (induction m) auto

lemma group_ok_mono: "group_ok n d \<Longrightarrow> n \<le> n' \<Longrightarrow> group_ok n' d"
  by (auto simp: group_ok_def elim: ids_below_mono)

lemma group_ok_push:
  assumes "group_ok n d" "xm_ID m = entry_id n"
  shows "group_ok (Suc n) (push_group k m d)"
proof -
  obtain fresh pel where d: "d = (fresh, pel)" by fastforce
  from assms(1) have b: "ids_below n (fresh @ map fst pel)" by (simp add: group_ok_def d)
  have "xm_ID m \<notin> xm_ID ` set (fresh @ map fst pel)"
    using ids_below_fresh [OF b] assms(2) by fastforce
  moreover have "ids_below (Suc n) (fresh @ map fst pel)" by (rule ids_below_mono [OF b]) simp_all
  ultimately show ?thesis
    using assms by (auto simp: group_ok_def push_group_def d)
qed

text \<open>Replacing one group by another keeps the invariant if the new group is well formed.\<close>

lemma srv_inv_put_group:
  "srv_inv s \<Longrightarrow> group_ok (srv_next s) d \<Longrightarrow> srv_inv (s\<lparr>srv_groups := gm_put kg d (srv_groups s)\<rparr>)"
  by (auto simp: srv_inv_def intro!: list_all_put)

lemma group_of_put:
  "group_of (s\<lparr>srv_groups := gm_put (k, g) d (srv_groups s)\<rparr>) k' g' = (if k' = k \<and> g' = g then d else group_of s k' g')"
  by (simp add: group_of_def)

lemma srv_view_put_group:
  "srv_view (s\<lparr>srv_groups := gm_put (k, g) d (srv_groups s)\<rparr>) =
     (srv_view s)\<lparr>sv_group := (sv_group (srv_view s))(k := (sv_group (srv_view s) k)(g := True)),
       sv_fresh := (sv_fresh (srv_view s))(k := (sv_fresh (srv_view s) k)(g := fst d)),
       sv_pel := (sv_pel (srv_view s))(k := (sv_pel (srv_view s) k)(g := fst ` set (snd d)))\<rparr>"
  by (auto simp: srv_view_def group_of_put entries_of_def fun_eq_iff)

lemma trimmed_trim_to: "trimmed n xs (trim_to n xs)"
  by (auto simp: trimmed_def trim_to_def)

lemma carries_new_entry: "carries vs (new_entry s vs)"
  by (simp add: carries_def new_entry_def gm_get_def map_of_map comp_def)

lemma gm_get_groups_map:
  "gm_get (map (\<lambda>((k', g), d). ((k', g), if k' = k then f d else d)) m) (k', g) =
     map_option (\<lambda>d. if k' = k then f d else d) (gm_get m (k', g))"
  by (induction m) (auto simp: gm_get_def)

definition after_add :: "xaddArgs \<Rightarrow> redis_server \<Rightarrow> redis_server" where
  "after_add a s = snd (run_state (srv_XAdd a) s)"

lemma after_add_added:
  assumes "srv_inv s"
  shows "added a (new_entry s (xa_Values a)) (srv_view s) (srv_view (after_add a s))"
proof -
  let ?m = "new_entry s (xa_Values a)" and ?k = "xa_Stream a"
  have id: "xm_ID ?m = entry_id (srv_next s)" by (simp add: new_entry_def)
  have e: "entries_of (after_add a s) k =
      (if k = ?k then trim_to (xa_MaxLen a) (entries_of s k @ [?m]) else entries_of s k)" for k
    by (simp add: after_add_def srv_XAdd_def entries_of_def Let_def)
  have g: "gm_get (srv_groups (after_add a s)) (k, g) =
      map_option (\<lambda>d. if k = ?k then push_group ?k ?m d else d) (gm_get (srv_groups s) (k, g))" for k g
    by (simp add: after_add_def srv_XAdd_def Let_def gm_get_groups_map)
  have grp: "group_of (after_add a s) k g =
      (if k = ?k \<and> gm_get (srv_groups s) (k, g) \<noteq> None then push_group ?k ?m (group_of s k g) else group_of s k g)" for k g
    by (simp add: group_of_def g split: option.split)
  have fresh: "xm_ID m' \<noteq> entry_id (srv_next s)"
    if "m' \<in> set (entries_of s ?k) \<or> (\<exists>g. m' \<in> set (fst (group_of s ?k g)) \<or> m' \<in> fst ` set (snd (group_of s ?k g)))" for m'
    using that ids_below_fresh [OF srv_inv_entries [OF assms]] srv_inv_group [OF assms, of ?k]
    by (fastforce simp: group_ok_def case_prod_beta dest: ids_below_fresh)
  show ?thesis
    unfolding added_def Let_def
    using fresh
    by (auto simp: srv_view_def e g grp id carries_new_entry trimmed_trim_to push_group_def case_prod_beta fun_eq_iff)
qed

lemma after_add_inv:
  assumes s: "srv_inv s"
  shows "srv_inv (after_add a s)"
proof -
  let ?m = "new_entry s (xa_Values a)" and ?n = "Suc (srv_next s)"
  let ?es = "trim_to (xa_MaxLen a) (entries_of s (xa_Stream a) @ [?m])"
  have id: "xm_ID ?m = entry_id (srv_next s)" by (simp add: new_entry_def)
  have "ids_below ?n (entries_of s (xa_Stream a))"
    by (rule ids_below_mono [OF srv_inv_entries [OF s, of "xa_Stream a"]]) simp_all
  with id have "ids_below ?n (entries_of s (xa_Stream a) @ [?m])" by auto
  then have es: "ids_below ?n ?es" by (rule ids_below_mono) (auto simp: trim_to_def dest: in_set_dropD)
  have "list_all (\<lambda>(k, es). ids_below ?n es) (srv_streams s)"
    using s by (auto simp: srv_inv_def list_all_iff intro: ids_below_Suc)
  with es have "list_all (\<lambda>(k, es). ids_below ?n es) (gm_put (xa_Stream a) ?es (srv_streams s))"
    by (intro list_all_put) simp_all
  moreover have "group_ok ?n (if k' = xa_Stream a then push_group (xa_Stream a) ?m d else d)"
    if "((k', g), d) \<in> set (srv_groups s)" for k' g d
    using s that group_ok_push [OF _ id, of d "xa_Stream a"] group_ok_mono [of "srv_next s" d ?n]
    by (auto simp: srv_inv_def list_all_iff)
  ultimately show ?thesis
    using s by (fastforce simp: srv_inv_def after_add_def srv_XAdd_def Let_def list_all_iff)
qed

lemma group_of_some: "gm_get (srv_groups s) (k, g) = Some d \<Longrightarrow> group_of s k g = d"
  by (simp add: group_of_def)

lemma read_step:
  assumes s: "srv_inv s" and g: "gm_get (srv_groups s) (k, g) = Some (m # fresh, pel)"
    and s': "s' = s\<lparr>srv_groups := gm_put (k, g) (fresh, (m, c, srv_clock s) # pel) (srv_groups s)\<rparr>"
  shows "srv_inv s' \<and> delivered k g m (srv_view s) (srv_view s')"
proof
  note grp = group_of_some [OF g]
  have "group_ok (srv_next s) (m # fresh, pel)" using srv_inv_group [OF s, of k g] by (simp add: grp)
  then have "group_ok (srv_next s) (fresh, (m, c, srv_clock s) # pel)" by (auto simp: group_ok_def)
  then show "srv_inv s'" unfolding s' by (rule srv_inv_put_group [OF s])
  show "delivered k g m (srv_view s) (srv_view s')"
    unfolding delivered_def s' srv_view_put_group
    by (rule exI [of _ fresh]) (auto simp: srv_view_def grp g fun_eq_iff)
qed

lemma claim_step:
  assumes s: "srv_inv s" and g: "gm_get (srv_groups s) (k, g) = Some (fresh, pel)"
    and s': "s' = s\<lparr>srv_groups := gm_put (k, g)
      (fresh, map (\<lambda>(m, c, t). if P m then (m, c', t') else (m, c, t)) pel) (srv_groups s)\<rparr>"
  shows "srv_inv s' \<and> srv_view s' = srv_view s"
proof
  note grp = group_of_some [OF g]
  have same: "map fst (map (\<lambda>(m, c, t). if P m then (m, c', t') else (m, c, t)) pel) = map fst pel"
    by (induction pel) auto
  have "group_ok (srv_next s) (fresh, pel)" using srv_inv_group [OF s, of k g] by (simp add: grp)
  then show "srv_inv s'" unfolding s' by (intro srv_inv_put_group [OF s]) (simp only: group_ok_def prod.case same)
  have "fst ` set (map (\<lambda>(m, c, t). if P m then (m, c', t') else (m, c, t)) pel) = fst ` set pel"
    using arg_cong [OF same, of set] by (simp only: set_map)
  then show "srv_view s' = srv_view s"
    unfolding s' srv_view_put_group by (auto simp: srv_view_def grp g fun_eq_iff simp del: set_map)
qed

lemma ack_step:
  assumes s: "srv_inv s" and g: "gm_get (srv_groups s) (k, g) = Some (fresh, pel)"
    and s': "s' = s\<lparr>srv_groups := gm_put (k, g) (fresh, filter (\<lambda>(m, c, t). xm_ID m \<noteq> i) pel) (srv_groups s)\<rparr>"
  shows "srv_inv s' \<and> acked k g i (srv_view s) (srv_view s')"
proof
  note grp = group_of_some [OF g]
  let ?pel = "filter (\<lambda>(m, c, t). xm_ID m \<noteq> i) pel"
  have "group_ok (srv_next s) (fresh, pel)" using srv_inv_group [OF s, of k g] by (simp add: grp)
  moreover have "distinct (map (xm_ID \<circ> fst) ?pel)" if "distinct (map (xm_ID \<circ> fst) pel)"
    using that by (rule distinct_map_filter)
  moreover have "ids_below (srv_next s) (map fst ?pel)" if "ids_below (srv_next s) (map fst pel)"
    by (rule ids_below_mono [OF that]) auto
  ultimately have "group_ok (srv_next s) (fresh, ?pel)"
    by (auto simp: group_ok_def)
  then show "srv_inv s'" unfolding s' by (rule srv_inv_put_group [OF s])
  show "acked k g i (srv_view s) (srv_view s')"
    unfolding acked_def s' srv_view_put_group by (force simp: srv_view_def grp g fun_eq_iff)
qed

lemma create_step:
  assumes s: "srv_inv s" and g: "gm_get (srv_groups s) (k, g) = None"
    and s': "s' = s\<lparr>srv_groups := gm_put (k, g) ([], []) (srv_groups s)\<rparr>"
  shows "srv_inv s' \<and> group_made k g (srv_view s) (srv_view s')"
proof
  show "srv_inv s'" unfolding s' by (rule srv_inv_put_group [OF s]) (simp add: group_ok_def)
  show "group_made k g (srv_view s) (srv_view s')"
    unfolding group_made_def s' srv_view_put_group by (simp add: srv_view_def g)
qed

lemma claimed_ok:
  assumes s: "srv_inv s" and g: "gm_get (srv_groups s) (k, g) = Some (fresh, pel)"
    and ms: "ms = take n (map fst (filter (stale s d) pel))"
  shows "distinct ms \<and> length ms \<le> n \<and>
    (\<forall>m \<in> set ms. m \<in> sv_pel (srv_view s) k g \<and> srv_idle s k g (xm_ID m) \<ge> d)"
proof (intro conjI ballI)
  note grp = group_of_some [OF g]
  have "group_ok (srv_next s) (fresh, pel)" using srv_inv_group [OF s, of k g] by (simp add: grp)
  then have dist: "distinct (map (xm_ID \<circ> fst) pel)" by (simp add: group_ok_def)
  then have "distinct (map xm_ID (map fst pel))" by simp
  then have "distinct (map fst pel)" by (rule distinct_map [THEN iffD1, THEN conjunct1])
  then show "distinct ms" unfolding ms by (intro distinct_take distinct_map_filter)
  show "length ms \<le> n" by (simp add: ms)
  fix m
  assume "m \<in> set ms"
  then obtain c t where mct: "(m, c, t) \<in> set pel" "stale s d (m, c, t)"
    by (auto simp: ms dest!: in_set_takeD)
  then show "m \<in> sv_pel (srv_view s) k g" by (force simp: srv_view_def grp)
  have "map_of (map (\<lambda>(m, c, t). (xm_ID m, t)) pel) (xm_ID m) = Some t"
  proof (rule map_of_is_SomeI)
    show "distinct (map fst (map (\<lambda>(m, c, t). (xm_ID m, t)) pel))"
      using dist by (simp add: comp_def case_prod_beta)
    show "(xm_ID m, t) \<in> set (map (\<lambda>(m, c, t). (xm_ID m, t)) pel)" using mct(1) by force
  qed
  with mct(2) show "d \<le> srv_idle s k g (xm_ID m)" by (simp add: srv_idle_def grp stale_def)
qed

subsection \<open>The laws of the commands, faults apart\<close>

lemma srv_XReadGroup_law:
  assumes s: "srv_inv s" and a: "xr_Streams a = [k, ''>'']"
  shows "wp (srv_XReadGroup a) (\<lambda>r w'. srv_inv w' \<and>
      (case r of
         Inr ss \<Rightarrow> \<exists>m. ss = [\<lparr>xs_Stream = k, xs_Messages = [m]\<rparr>] \<and> delivered k (xr_Group a) m (srv_view s) (srv_view w')
       | Inl e \<Rightarrow> (srv_view w' = srv_view s \<or>
             \<not> errors_is e RedisNil \<and> (\<exists>m. delivered k (xr_Group a) m (srv_view s) (srv_view w'))) \<and>
           (errors_is e RedisNil \<longrightarrow> sv_fresh (srv_view s) k (xr_Group a) = []))) s"
proof (cases "gm_get (srv_groups s) (k, xr_Group a)")
  case None
  with a s show ?thesis by (simp add: srv_XReadGroup_def wp_def)
next
  case (Some d)
  obtain fresh pel where d: "d = (fresh, pel)" by fastforce
  show ?thesis
  proof (cases fresh)
    case Nil
    with a s Some d show ?thesis
      by (simp add: srv_XReadGroup_def wp_def srv_view_def [of s] group_of_def)
  next
    case (Cons m rest)
    with a Some d read_step [OF s _ refl, of k "xr_Group a" m rest pel "xr_Consumer a"]
    show ?thesis by (simp add: srv_XReadGroup_def wp_def)
  qed
qed

lemma srv_XAutoClaim_law:
  assumes s: "srv_inv s"
  shows "wp (srv_XAutoClaim a) (\<lambda>r w'. srv_inv w' \<and> srv_view w' = srv_view s \<and>
      (case r of Inl _ \<Rightarrow> True
       | Inr (ms, _) \<Rightarrow> distinct ms \<and> int (length ms) \<le> max 0 (xc_Count a) \<and>
           (\<forall>m \<in> set ms. m \<in> sv_pel (srv_view s) (xc_Stream a) (xc_Group a) \<and>
              srv_idle s (xc_Stream a) (xc_Group a) (xm_ID m) \<ge> xc_MinIdle a))) s"
proof (cases "gm_get (srv_groups s) (xc_Stream a, xc_Group a)")
  case None
  with s show ?thesis by (simp add: srv_XAutoClaim_def wp_def)
next
  case (Some d)
  obtain fresh pel where d: "d = (fresh, pel)" by fastforce
  define ms where "ms = take (nat (xc_Count a)) (map fst (filter (stale s (xc_MinIdle a)) pel))"
  have "int (length ms) \<le> max 0 (xc_Count a)" by (simp add: ms_def)
  with claimed_ok [OF s Some [unfolded d] ms_def]
    claim_step [OF s Some [unfolded d] refl, of "\<lambda>m. m \<in> set ms" "xc_Consumer a" "srv_clock s"]
  show ?thesis by (simp add: srv_XAutoClaim_def wp_def Some d Let_def flip: ms_def)
qed

lemma srv_XAck_law:
  assumes s: "srv_inv s"
  shows "wp (srv_XAck k g i) (\<lambda>r w'. srv_inv w' \<and> acked k g i (srv_view s) (srv_view w')) s"
proof (cases "gm_get (srv_groups s) (k, g)")
  case None
  with s show ?thesis
    by (auto simp: srv_XAck_def wp_def acked_def srv_view_def group_of_def fun_eq_iff)
next
  case (Some d)
  then obtain fresh pel where "gm_get (srv_groups s) (k, g) = Some (fresh, pel)" by fastforce
  with ack_step [OF s this refl, of i] show ?thesis by (simp add: srv_XAck_def wp_def)
qed

lemma srv_XGroupCreate_law:
  assumes s: "srv_inv s"
  shows "wp (srv_XGroupCreate k g) (\<lambda>r w'. srv_inv w' \<and>
     (if sv_group (srv_view s) k g then srv_view w' = srv_view s \<and> err_of r \<noteq> None
      else group_made k g (srv_view s) (srv_view w') \<and> err_of r = None)) s"
proof (cases "gm_get (srv_groups s) (k, g)")
  case None
  with create_step [OF s None refl] show ?thesis
    by (simp add: srv_XGroupCreate_def wp_def err_of_def) (simp add: srv_view_def)
next
  case (Some d)
  with s show ?thesis by (simp add: srv_XGroupCreate_def wp_def err_of_def) (simp add: srv_view_def)
qed

lemma srv_stream_laws: "redis_streams redis_srv srv_view srv_idle srv_inv"
proof
  fix s assume s: "srv_inv s"
  note plain = redis_srv_def redis_if.select_convs
  have run: "run_state (srv_XAdd a) t = (Inr (xm_ID (new_entry t (xa_Values a))), after_add a t)" for a t
    by (simp add: after_add_def srv_XAdd_def Let_def)
  show "wp (rd_XAdd redis_srv a) (\<lambda>r w'. srv_inv w' \<and>
      ((\<exists>m. added a m (srv_view s) (srv_view w') \<and> (case r of Inr i \<Rightarrow> i = xm_ID m | Inl _ \<Rightarrow> True)) \<or>
       (\<exists>e. r = Inl e) \<and> srv_view w' = srv_view s)) s" for a
    unfolding plain
  proof (rule wp_commandI)
    show "wp (srv_XAdd a) (\<lambda>r w'. srv_inv w' \<and>
      ((\<exists>m. added a m (srv_view s) (srv_view w') \<and> (case r of Inr i \<Rightarrow> i = xm_ID m | Inl _ \<Rightarrow> True)) \<or>
       (\<exists>e. r = Inl e) \<and> srv_view w' = srv_view s)) (s\<lparr>srv_faults := fs\<rparr>)" for fs
      using after_add_inv [of "s\<lparr>srv_faults := fs\<rparr>" a] after_add_added [of "s\<lparr>srv_faults := fs\<rparr>" a] s
      by (auto simp: wp_def run)
  qed (use s in auto)
  show "wp (rd_XReadGroup redis_srv ra) (\<lambda>r w'. srv_inv w' \<and>
      (case r of
         Inr ss \<Rightarrow> \<exists>m. ss = [\<lparr>xs_Stream = k, xs_Messages = [m]\<rparr>] \<and> delivered k (xr_Group ra) m (srv_view s) (srv_view w')
       | Inl e \<Rightarrow> (srv_view w' = srv_view s \<or>
             \<not> errors_is e RedisNil \<and> (\<exists>m. delivered k (xr_Group ra) m (srv_view s) (srv_view w'))) \<and>
           (errors_is e RedisNil \<longrightarrow> sv_fresh (srv_view s) k (xr_Group ra) = []))) s"
    if "xr_Streams ra = [k, ''>'']" for ra k
    unfolding plain
    by (rule wp_commandI, rule wp_mono [OF srv_XReadGroup_law [OF _ that]])
       (use s in \<open>auto split: sum.splits\<close>)
  show "wp (rd_XAutoClaim redis_srv ca) (\<lambda>r w'. srv_inv w' \<and> srv_view w' = srv_view s \<and>
      (case r of Inl _ \<Rightarrow> True
       | Inr (ms, _) \<Rightarrow> distinct ms \<and> int (length ms) \<le> max 0 (xc_Count ca) \<and>
           (\<forall>m \<in> set ms. m \<in> sv_pel (srv_view s) (xc_Stream ca) (xc_Group ca) \<and>
              srv_idle s (xc_Stream ca) (xc_Group ca) (xm_ID m) \<ge> xc_MinIdle ca))) s" for ca
    unfolding plain
    by (rule wp_commandI, rule wp_mono [OF srv_XAutoClaim_law]) (use s in \<open>auto split: sum.splits\<close>)
  show "wp (rd_XAck redis_srv k g i) (\<lambda>r w'. srv_inv w' \<and>
      (acked k g i (srv_view s) (srv_view w') \<or> r \<noteq> None \<and> srv_view w' = srv_view s)) s" for k g i
    unfolding plain
    by (rule wp_command_errI, rule wp_mono [OF srv_XAck_law]) (use s in auto)
  show "wp (rd_XRangeN redis_srv k ''-'' ''+'' n) (\<lambda>r w'. srv_inv w' \<and> srv_view w' = srv_view s \<and>
      (case r of Inl e \<Rightarrow> errors_is e RedisNil \<longrightarrow> sv_entries (srv_view s) k = []
       | Inr ms \<Rightarrow> ms = take (nat n) (sv_entries (srv_view s) k))) s" for k n
    unfolding plain
    by (rule wp_commandI) (simp_all add: wp_def srv_XRangeN_def s, simp add: srv_view_def)
  show "wp (rd_XGroupCreateMkStream redis_srv k g ''$'') (\<lambda>r w'. srv_inv w' \<and>
      (if sv_group (srv_view s) k g then srv_view w' = srv_view s \<and> r \<noteq> None
       else group_made k g (srv_view s) (srv_view w') \<or> r \<noteq> None \<and> srv_view w' = srv_view s) \<and>
      (\<forall>e. r = Some e \<longrightarrow> contains (err_msg e) ''BUSYGROUP'' \<longrightarrow> sv_group (srv_view s) k g)) s" for k g
    unfolding plain
  proof (rule wp_command_errI)
    show "wp (srv_XGroupCreate k g) (\<lambda>r w'. srv_inv w' \<and>
      (if sv_group (srv_view s) k g then srv_view w' = srv_view s \<and> err_of r \<noteq> None
       else group_made k g (srv_view s) (srv_view w') \<or> err_of r \<noteq> None \<and> srv_view w' = srv_view s) \<and>
      (\<forall>e. err_of r = Some e \<longrightarrow> contains (err_msg e) ''BUSYGROUP'' \<longrightarrow> sv_group (srv_view s) k g)) (s\<lparr>srv_faults := fs\<rparr>)" for fs
      by (rule wp_mono [OF srv_XGroupCreate_law]) (use s in \<open>auto split: if_splits\<close>)
  qed (use s in auto)
qed

section \<open>Strings and streams do not disturb each other\<close>

lemma srv_view_kv [simp]: "srv_view (s\<lparr>srv_kv := m\<rparr>) = srv_view s" "srv_view (s\<lparr>srv_seed := n\<rparr>) = srv_view s"
  by (simp_all add: srv_view_def entries_of_def group_of_def fun_eq_iff)

lemma strings_keep_streams:
  "keeps srv_inv srv_view any_result (rd_Set redis_srv k v t)"
  "keeps srv_inv srv_view any_result (rd_Get redis_srv k)"
  "keeps srv_inv srv_view any_result (rd_Scan redis_srv c p n)"
  unfolding keeps_def redis_srv_def redis_if.select_convs
  by (intro allI impI, (rule wp_commandI wp_command_errI;
      auto simp: wp_def srv_Set_def srv_Get_def srv_Scan_def Let_def srv_inv_def split: option.split))+

lemma streams_keep_strings_run:
  "wp (rd_XAdd redis_srv a) (\<lambda>_ s'. srv_kv s' = srv_kv s) s"
  "wp (rd_XReadGroup redis_srv ra) (\<lambda>_ s'. srv_kv s' = srv_kv s) s"
  "wp (rd_XAutoClaim redis_srv ca) (\<lambda>_ s'. srv_kv s' = srv_kv s) s"
  "wp (rd_XAck redis_srv k g i) (\<lambda>_ s'. srv_kv s' = srv_kv s) s"
  "wp (rd_XRangeN redis_srv k lo hi n) (\<lambda>_ s'. srv_kv s' = srv_kv s) s"
  "wp (rd_XGroupCreateMkStream redis_srv k g st) (\<lambda>_ s'. srv_kv s' = srv_kv s) s"
  unfolding redis_srv_def redis_if.select_convs
  by (rule wp_commandI wp_command_errI;
      auto simp: wp_def srv_XAdd_def srv_XReadGroup_def srv_XAutoClaim_def srv_XAck_def srv_XRangeN_def
        srv_XGroupCreate_def Let_def split: option.split list.split)+

lemma keeps_conjI:
  assumes "\<And>w. I w \<Longrightarrow> wp m (\<lambda>_ w'. I w') w" "\<And>w. I w \<Longrightarrow> wp m (\<lambda>_ w'. v w' = v w) w"
  shows "keeps I v any_result m"
  unfolding keeps_def using assms by (auto simp: wp_conj)

lemma streams_keep_strings:
  "keeps srv_inv srv_strings any_result (rd_XAdd redis_srv a)"
  "xr_Streams ra = [k, ''>''] \<Longrightarrow> xr_Count ra = 1 \<Longrightarrow> keeps srv_inv srv_strings any_result (rd_XReadGroup redis_srv ra)"
  "xc_Start ca = ''0-0'' \<Longrightarrow> keeps srv_inv srv_strings any_result (rd_XAutoClaim redis_srv ca)"
  "keeps srv_inv srv_strings any_result (rd_XAck redis_srv k g i)"
  "n > 0 \<Longrightarrow> keeps srv_inv srv_strings any_result (rd_XRangeN redis_srv k ''-'' ''+'' n)"
  "keeps srv_inv srv_strings any_result (rd_XGroupCreateMkStream redis_srv k g ''$'')"
proof -
  note kv = streams_keep_strings_run [THEN wp_mono] and law = redis_streams.xadd [OF srv_stream_laws]
    redis_streams.xreadgroup [OF srv_stream_laws] redis_streams.xautoclaim [OF srv_stream_laws]
    redis_streams.xack [OF srv_stream_laws] redis_streams.xrangen [OF srv_stream_laws]
    redis_streams.xgroup [OF srv_stream_laws]
  show "keeps srv_inv srv_strings any_result (rd_XAdd redis_srv a)"
    by (rule keeps_conjI, rule law(1) [THEN wp_mono], assumption, blast, rule kv(1), simp)
  show "keeps srv_inv srv_strings any_result (rd_XReadGroup redis_srv ra)"
    if "xr_Streams ra = [k, ''>'']" "xr_Count ra = 1"
    by (rule keeps_conjI, rule law(2) [OF _ that, THEN wp_mono], assumption, blast, rule kv(2), simp)
  show "keeps srv_inv srv_strings any_result (rd_XAutoClaim redis_srv ca)" if "xc_Start ca = ''0-0''"
    by (rule keeps_conjI, rule law(3) [OF _ that, THEN wp_mono], assumption, blast, rule kv(3), simp)
  show "keeps srv_inv srv_strings any_result (rd_XAck redis_srv k g i)"
    by (rule keeps_conjI, rule law(4) [THEN wp_mono], assumption, blast, rule kv(4), simp)
  show "keeps srv_inv srv_strings any_result (rd_XRangeN redis_srv k ''-'' ''+'' n)" if "n > 0"
    by (rule keeps_conjI, rule law(5) [OF _ that, THEN wp_mono], assumption, blast, rule kv(5), simp)
  show "keeps srv_inv srv_strings any_result (rd_XGroupCreateMkStream redis_srv k g ''$'')"
    by (rule keeps_conjI, rule law(6) [THEN wp_mono], assumption, blast, rule kv(6), simp)
qed

lemma sys_keeps:
  "keeps srv_inv (\<lambda>s. (srv_strings s, srv_view s)) time_ok (sys_now srv_sys)"
  "keeps srv_inv (\<lambda>s. (srv_strings s, srv_view s)) (\<lambda>b. length b = n) (sys_rand srv_sys n)"
  "keeps srv_inv (\<lambda>s. (srv_strings s, srv_view s)) (\<lambda>e. e \<in> {None, Some (Sentinel CtxDeadlineExceeded)}) (sys_ctx_err srv_sys)"
  "keeps srv_inv (\<lambda>s. (srv_strings s, srv_view s)) any_result (sys_sleep srv_sys d)"
  by (auto simp: keeps_def wp_def srv_sys_def) (auto simp: srv_inv_def)

section \<open>The store and the queue on the server\<close>

interpretation rs: redis_job_store redis_srv srv_strings srv_inv srv_todo srv_rank text_codec n for n
  by (intro redis_job_store.intro srv_kv_laws redis_job_store_axioms.intro text_codec_ok)

lemma srv_now: "srv_inv s \<Longrightarrow> wp (sys_now srv_sys) (\<lambda>t s'. s' = s \<and> t = srv_clock s) s"
  by (simp add: wp_def srv_sys_def)

interpretation rq: redis_job_queue redis_srv srv_view srv_idle srv_inv srv_sys int_time_text
proof (intro redis_job_queue.intro srv_stream_laws redis_job_queue_axioms.intro)
  show "wp (sys_now srv_sys) (\<lambda>_ w'. srv_inv w' \<and> srv_view w' = srv_view w) w" if "srv_inv w" for w
    by (rule wp_mono [OF srv_now [OF that]]) (use that in auto)
qed

end
