(* ===== verification/Docker_Sim.thy ===== *)
theory Docker_Sim
  imports Docker_Laws Provisioner_Text Redis_Server
begin

text \<open>
  A docker daemon that keeps the laws of \<open>Docker_Laws\<close> and \<open>Provisioner_Text\<close>: containers with ids,
  labels, environment and published ports, the images that are present, and a script of faults under
  which a command is refused or carried out while its outcome is reported as an error. It stands for
  the daemon where a concrete one is needed; nothing about the program rests on more than the laws.
\<close>

section \<open>The output of docker inspect\<close>

definition port_fields :: "string \<times> binding list \<Rightarrow> string \<times> string" where
  "port_fields = (\<lambda>(k, bs). (k, pack (concat (map (\<lambda>b. [HostIp b, HostPort b]) bs))))"

definition un_pairs :: "(string \<times> string) list \<Rightarrow> string list" where
  "un_pairs xs = concat (map (\<lambda>(a, b). [a, b]) xs)"

definition inspect_text :: "inspect \<Rightarrow> string" where
  "inspect_text i =
     pack [if in_Running i then ''1'' else ''0'', pack (in_Env i), pack (un_pairs (map port_fields (in_Ports i)))]"

fun bindings_of :: "string list \<Rightarrow> binding list" where
  "bindings_of (a # b # r) = \<lparr>HostIp = a, HostPort = b\<rparr> # bindings_of r"
| "bindings_of _ = []"

definition port_of :: "string \<times> string \<Rightarrow> string \<times> binding list" where
  "port_of = (\<lambda>(k, t). (k, case unpack t of None \<Rightarrow> [] | Some bs \<Rightarrow> bindings_of bs))"

definition decode_error :: goerr where
  "decode_error = NewErr ''invalid character''"

text \<open>As \<open>encoding/json\<close> does, the decoder hands out valid text only.\<close>

definition inspect_decode :: "string \<Rightarrow> goerr + inspect list" where
  "inspect_decode t =
     (case unpack t of
        Some [r, e, ps] \<Rightarrow>
          (case (unpack e, unpack ps) of
             (Some env, Some ports) \<Rightarrow>
               (let i = \<lparr>in_Running = (r = ''1''), in_Env = env, in_Ports = map port_of (flag_pairs ports)\<rparr>
                in if info_ok i then Inr [i] else Inl decode_error)
           | _ \<Rightarrow> Inl decode_error)
      | _ \<Rightarrow> Inl decode_error)"

lemma flag_pairs_un_pairs [simp]: "flag_pairs (un_pairs xs) = xs"
  by (induction xs) (auto simp: un_pairs_def)

lemma bindings_of_fields [simp]: "bindings_of (concat (map (\<lambda>b. [HostIp b, HostPort b]) bs)) = bs"
  by (induction bs) simp_all

lemma port_of_fields [simp]: "port_of (port_fields x) = x"
  by (cases x) (simp add: port_of_def port_fields_def)

lemma map_port_of_fields [simp]: "map port_of (map port_fields xs) = xs"
  by (induction xs) simp_all

lemma inspect_decode_text: "info_ok i \<Longrightarrow> inspect_decode (inspect_text i) = Inr [i]"
  by (simp add: inspect_decode_def inspect_text_def Let_def info_ok_def del: map_map)

lemma inspect_decode_ok: "inspect_decode t = Inr infos \<Longrightarrow> list_all info_ok infos"
  by (auto simp: inspect_decode_def Let_def split: option.splits list.splits if_splits)

lemma inspect_decode_err: "inspect_decode t = Inl e \<Longrightarrow> e = decode_error"
  by (auto simp: inspect_decode_def Let_def split: option.splits list.splits if_splits)

lemma show_nat_ascii: "is_ascii (show_nat n)"
  using show_nat_digits [of n] by (auto simp: is_ascii_def is_digit_def list_all_iff)

lemma utf8_valid_show_nat [simp]: "utf8_valid (show_nat n)"
  by (rule utf8_valid_ascii, rule show_nat_ascii)

lemma utf8_valid_pack: "list_all utf8_valid xs \<Longrightarrow> utf8_valid (pack xs)"
proof (induction xs)
  case (Cons x xs)
  have "utf8_valid (show_nat (length x) @ [CHR '':''] @ x)"
    using Cons.prems by (intro utf8_valid_append) (simp_all add: utf8_valid_ascii is_ascii_def)
  with Cons show ?case unfolding pack_def list.map concat.simps
    by (intro utf8_valid_append) (simp_all add: pack_one_def)
qed (simp add: pack_def)

lemma info_text_valid: "info_ok i \<Longrightarrow> utf8_valid (inspect_text i)"
proof -
  assume i: "info_ok i"
  have b: "list_all utf8_valid (concat (map (\<lambda>b. [HostIp b, HostPort b]) bs))" if "list_all binding_ok bs" for bs
    using that by (induction bs) (auto simp: binding_ok_def)
  have "list_all utf8_valid (un_pairs (map port_fields xs))"
    if "list_all (\<lambda>(k, bs). utf8_valid k \<and> list_all binding_ok bs) xs" for xs
    using that by (induction xs) (auto simp: un_pairs_def port_fields_def intro!: utf8_valid_pack b)
  with i have "utf8_valid (pack (un_pairs (map port_fields (in_Ports i))))" "utf8_valid (pack (in_Env i))"
    by (auto simp: info_ok_def intro!: utf8_valid_pack)
  then show ?thesis unfolding inspect_text_def
    by (intro utf8_valid_pack) (simp add: utf8_valid_ascii is_ascii_def)
qed

section \<open>State and commands\<close>

record docker_sim =
  ds_cts :: "(string, container) gomap"
  ds_next :: nat
  ds_images :: "string list"
  ds_faults :: "fault list"

definition ct_name :: "nat \<Rightarrow> string" where
  "ct_name n = CHR ''c'' # show_nat n"

definition fine_out :: "string \<Rightarrow> cmd_out" where
  "fine_out s = \<lparr>co_out = s, co_stderr = [], co_err = None, co_exit = False\<rparr>"

definition fail_out :: "string \<Rightarrow> cmd_out" where
  "fail_out s = \<lparr>co_out = s, co_stderr = s, co_err = Some (NewErr ''exit status 1''), co_exit = True\<rparr>"

definition lost_out :: cmd_out where
  "lost_out = \<lparr>co_out = [], co_stderr = [], co_err = Some (NewErr ''signal: killed''), co_exit = False\<rparr>"

text \<open>Run a command under the next fault of the script.\<close>

definition docker_cmd :: "(docker_sim \<Rightarrow> cmd_out \<times> docker_sim) \<Rightarrow> (docker_sim, cmd_out) state" where
  "docker_cmd f = State (\<lambda>d.
     case ds_faults d of
       [] \<Rightarrow> f d
     | x # xs \<Rightarrow>
         (let d1 = d\<lparr>ds_faults := xs\<rparr>
          in case x of
               Fine \<Rightarrow> f d1
             | Refuse \<Rightarrow> (lost_out, d1)
             | ReplyLost \<Rightarrow> (lost_out, snd (f d1))))"

definition sim_inspect :: "string \<Rightarrow> docker_sim \<Rightarrow> cmd_out \<times> docker_sim" where
  "sim_inspect name d =
     (case gm_get (ds_cts d) name of
        None \<Rightarrow> (fail_out ''Error: No such object'', d)
      | Some ct \<Rightarrow> (fine_out (inspect_text (ct_info ct)), d))"

definition job_label :: string where
  "job_label = ''infraforge.job=''"

definition label_of :: "string list \<Rightarrow> string option" where
  "label_of args = map_option (\<lambda>l. trim_prefix l job_label) (List.find (prefix job_label) (flag_values ''--label'' args))"

definition published :: "nat \<Rightarrow> string list \<Rightarrow> (string, binding list) gomap" where
  "published n args =
     map (\<lambda>v. (drop 11 v @ ''/tcp'', [\<lparr>HostIp = ''127.0.0.1'', HostPort = show_nat (32768 + n)\<rparr>]))
       (filter (prefix ''127.0.0.1::'') (flag_values ''-p'' args))"

definition new_ct :: "nat \<Rightarrow> string list \<Rightarrow> string \<Rightarrow> container" where
  "new_ct n args j =
     \<lparr>ct_id = ct_name n, ct_job = j,
      ct_info = \<lparr>in_Running = True, in_Env = flag_values ''-e'' args @ [''PATH=/usr/local/bin''],
                 in_Ports = published n args\<rparr>\<rparr>"

definition sim_run :: "string list \<Rightarrow> docker_sim \<Rightarrow> cmd_out \<times> docker_sim" where
  "sim_run args d =
     (let name = args ! 3 in
      if gm_get (ds_cts d) name \<noteq> None then (fail_out ''Conflict. The container name is already in use'', d)
      else if last args \<notin> set (ds_images d) then (fail_out ''Unable to find image: pull access denied'', d)
      else case label_of args of
             None \<Rightarrow> (fail_out ''missing label'', d)
           | Some j \<Rightarrow>
               (let ct = new_ct (ds_next d) args j
                in if info_ok (ct_info ct)
                   then (fine_out (ct_id ct), d\<lparr>ds_cts := gm_put name ct (ds_cts d), ds_next := Suc (ds_next d)\<rparr>)
                   else (fail_out ''invalid argument'', d)))"

definition sim_start :: "string \<Rightarrow> docker_sim \<Rightarrow> cmd_out \<times> docker_sim" where
  "sim_start name d =
     (case gm_get (ds_cts d) name of
        None \<Rightarrow> (fail_out ''Error: No such container'', d)
      | Some ct \<Rightarrow> (fine_out name, d\<lparr>ds_cts := gm_put name (ct\<lparr>ct_info := (ct_info ct)\<lparr>in_Running := True\<rparr>\<rparr>) (ds_cts d)\<rparr>))"

definition sim_ps :: "string \<Rightarrow> docker_sim \<Rightarrow> cmd_out \<times> docker_sim" where
  "sim_ps i d =
     (fine_out (concat (map (\<lambda>(n, ct). ct_id ct @ [CHR 0x0A]) (filter (\<lambda>(n, ct). ct_job ct = i) (ds_cts d)))), d)"

definition sim_rm :: "string list \<Rightarrow> docker_sim \<Rightarrow> cmd_out \<times> docker_sim" where
  "sim_rm ids d = (fine_out [], d\<lparr>ds_cts := filter (\<lambda>(n, ct). ct_id ct \<notin> set ids) (ds_cts d)\<rparr>)"

definition sim_unknown :: "docker_sim \<Rightarrow> cmd_out \<times> docker_sim" where
  "sim_unknown d = (fail_out ''unknown command'', d)"

definition job_filter :: string where
  "job_filter = ''label=infraforge.job=''"

definition sim_output :: "string list \<Rightarrow> docker_sim \<Rightarrow> cmd_out \<times> docker_sim" where
  "sim_output args =
     (case args of
        [c, name] \<Rightarrow> if c = ''inspect'' then sim_inspect name else sim_unknown
      | [c, a, f, l] \<Rightarrow>
          if c = ''ps'' \<and> a = ''-aq'' \<and> f = ''-f'' \<and> prefix job_filter l then sim_ps (trim_prefix l job_filter)
          else sim_unknown
      | _ \<Rightarrow> sim_unknown)"

definition sim_combined :: "string list \<Rightarrow> docker_sim \<Rightarrow> cmd_out \<times> docker_sim" where
  "sim_combined args =
     (case args of
        c # r \<Rightarrow>
          if c = ''run'' \<and> length r \<ge> 3 \<and> r ! 0 = ''-d'' \<and> r ! 1 = ''--name'' then sim_run args
          else if c = ''start'' \<and> length r = 1 \<and> utf8_valid (r ! 0) then sim_start (r ! 0)
          else if c = ''rm'' \<and> r \<noteq> [] \<and> hd r = ''-f'' then sim_rm (tl r)
          else sim_unknown
      | [] \<Rightarrow> sim_unknown)"

definition sim_exec :: "string list \<Rightarrow> docker_sim \<Rightarrow> cmd_out \<times> docker_sim" where
  "sim_exec args d =
     (case gm_get (ds_cts d) (if length args > 1 then args ! 1 else []) of
        Some ct \<Rightarrow> if in_Running (ct_info ct) then (fine_out [], d) else (fail_out ''not running'', d)
      | None \<Rightarrow> (fail_out ''Error: No such container'', d))"

definition docker_sim_if :: "docker_sim docker_if" where
  "docker_sim_if =
     \<lparr>dk_Output = (\<lambda>args. docker_cmd (sim_output args)),
      dk_CombinedOutput = (\<lambda>args. docker_cmd (sim_combined args)),
      dk_Run = (\<lambda>args. do { c \<leftarrow> docker_cmd (sim_exec args); State_Monad.return (co_err c) }),
      hc_Get = (\<lambda>url. do { c \<leftarrow> docker_cmd (\<lambda>d. (fine_out [], d));
                          State_Monad.return (Ret (case co_err c of None \<Rightarrow> Inr 200 | Some e \<Rightarrow> Inl e)) })\<rparr>"

section \<open>Views and invariant\<close>

definition ds_view :: "docker_sim \<Rightarrow> containers" where
  "ds_view d = gm_get (ds_cts d)"

definition ds_inv :: "docker_sim \<Rightarrow> bool" where
  "ds_inv d \<longleftrightarrow> gm_wf (ds_cts d) \<and> ids_unique (ds_view d) \<and>
     (\<forall>n ct. ds_view d n = Some ct \<longrightarrow> info_ok (ct_info ct) \<and> (\<exists>k < ds_next d. ct_id ct = ct_name k))"

lemma ct_name_inject [simp]: "ct_name a = ct_name b \<longleftrightarrow> a = b"
  by (metis ct_name_def digits_val_show_nat list.inject)

lemma ct_name_solid: "solid (ct_name n)"
  using show_nat_digits [of n] by (auto simp: ct_name_def solid_def is_digit_def list_all_iff)

lemma ds_faults_invisible [simp]:
  "ds_inv (d\<lparr>ds_faults := fs\<rparr>) = ds_inv d" "ds_view (d\<lparr>ds_faults := fs\<rparr>) = ds_view d"
  by (simp_all add: ds_inv_def ds_view_def)

lemma wp_docker_cmd:
  assumes "\<And>fs. Q (fst (f (d\<lparr>ds_faults := fs\<rparr>))) (snd (f (d\<lparr>ds_faults := fs\<rparr>)))"
    and "\<And>fs. Q lost_out (d\<lparr>ds_faults := fs\<rparr>)"
    and "\<And>fs. Q lost_out (snd (f (d\<lparr>ds_faults := fs\<rparr>)))"
  shows "wp (docker_cmd f) Q d"
proof (cases "ds_faults d")
  case Nil
  then have "d\<lparr>ds_faults := []\<rparr> = d" by (cases d) simp
  with Nil assms(1) [of "[]"] show ?thesis by (simp add: wp_def docker_cmd_def case_prod_beta)
next
  case (Cons x xs)
  with assms [of xs] show ?thesis by (cases x) (auto simp: wp_def docker_cmd_def Let_def split: prod.splits)
qed

text \<open>A new container: its id is new, its name was free.\<close>

lemma ids_unique_new:
  assumes "ids_unique m" "\<And>n' c. m n' = Some c \<Longrightarrow> ct_id c \<noteq> ct_id ct"
  shows "ids_unique (m(name \<mapsto> ct))"
  unfolding ids_unique_def
proof (intro allI impI)
  fix n n' c c'
  assume h: "(m(name \<mapsto> ct)) n = Some c" "(m(name \<mapsto> ct)) n' = Some c'" "ct_id c = ct_id c'"
  show "n = n'"
  proof (cases "n = name"; cases "n' = name")
    assume "n \<noteq> name" "n' \<noteq> name"
    with h assms(1) show ?thesis by (auto simp: ids_unique_def)
  qed (use h assms(2) in \<open>auto dest: sym\<close>)
qed

lemma ids_unique_same:
  assumes "ids_unique m" "m name = Some ct0" "ct_id ct = ct_id ct0"
  shows "ids_unique (m(name \<mapsto> ct))"
  unfolding ids_unique_def
proof (intro allI impI)
  fix n n' c c'
  assume h: "(m(name \<mapsto> ct)) n = Some c" "(m(name \<mapsto> ct)) n' = Some c'" "ct_id c = ct_id c'"
  obtain d d' where "m n = Some d" "m n' = Some d'" "ct_id d = ct_id c" "ct_id d' = ct_id c'"
    using h(1,2) assms(2,3) by (auto split: if_splits)
  with h(3) assms(1) show "n = n'" unfolding ids_unique_def by metis
qed

lemma ds_inv_new:
  assumes "ds_inv d" "info_ok (ct_info (new_ct (ds_next d) args j))"
  shows "ds_inv (d\<lparr>ds_cts := gm_put name (new_ct (ds_next d) args j) (ds_cts d), ds_next := Suc (ds_next d)\<rparr>)"
proof -
  have id: "ct_id (new_ct (ds_next d) args j) = ct_name (ds_next d)" by (simp add: new_ct_def)
  have "ct_id c \<noteq> ct_name (ds_next d)" if "ds_view d n' = Some c" for n' c
    using assms(1) that by (fastforce simp: ds_inv_def)
  then have "ids_unique ((ds_view d)(name \<mapsto> new_ct (ds_next d) args j))"
    using assms(1) by (intro ids_unique_new) (auto simp: ds_inv_def id)
  with assms id show ?thesis
    by (auto simp: ds_inv_def ds_view_def less_Suc_eq)
qed

lemma ds_inv_started:
  assumes "ds_inv d" "ds_view d name = Some ct"
  shows "ds_inv (d\<lparr>ds_cts := gm_put name (ct\<lparr>ct_info := (ct_info ct)\<lparr>in_Running := True\<rparr>\<rparr>) (ds_cts d)\<rparr>)"
proof -
  have "ids_unique ((ds_view d)(name \<mapsto> ct\<lparr>ct_info := (ct_info ct)\<lparr>in_Running := True\<rparr>\<rparr>))"
    using assms by (intro ids_unique_same [of _ _ ct]) (auto simp: ds_inv_def)
  with assms show ?thesis by (auto simp: ds_inv_def ds_view_def info_ok_def)
qed

lemma gm_get_filter:
  assumes "gm_wf m"
  shows "gm_get (filter (\<lambda>(n, v). P v) m) n = (case gm_get m n of None \<Rightarrow> None | Some v \<Rightarrow> if P v then Some v else None)"
  using assms
proof (induction m)
  case (Cons x m)
  obtain k v where x: "x = (k, v)" by fastforce
  have none: "gm_get m k = None" using Cons.prems x by (simp add: gm_wf_def gm_get_def map_of_eq_None_iff)
  have IH: "gm_get (filter (\<lambda>(n, v). P v) m) n = (case gm_get m n of None \<Rightarrow> None | Some v \<Rightarrow> if P v then Some v else None)"
    using Cons by (simp add: gm_wf_def)
  show ?case using IH none by (auto simp: x gm_get_def split: option.splits)
qed simp

lemma gm_wf_filter [simp]: "gm_wf m \<Longrightarrow> gm_wf (filter P m)"
  by (induction m) (auto simp: gm_wf_def)

lemma sim_rm_view: "ds_inv d \<Longrightarrow> ds_view (snd (sim_rm ids d)) = Docker_Laws.removed (set ids) (ds_view d)"
  using gm_get_filter [of "ds_cts d" "\<lambda>ct. ct_id ct \<notin> set ids"]
  by (auto simp: fun_eq_iff ds_view_def sim_rm_def removed_def ds_inv_def split: option.split)

lemma sim_rm_inv: "ds_inv d \<Longrightarrow> ds_inv (snd (sim_rm ids d))"
proof -
  assume d: "ds_inv d"
  have sub: "ds_view (snd (sim_rm ids d)) n = Some ct \<Longrightarrow> ds_view d n = Some ct" for n ct
    by (auto simp: sim_rm_view [OF d] removed_def split: option.splits if_splits)
  have "ids_unique (ds_view (snd (sim_rm ids d)))"
    using d sub unfolding ds_inv_def ids_unique_def by metis
  moreover have "gm_wf (ds_cts (snd (sim_rm ids d)))" "ds_next (snd (sim_rm ids d)) = ds_next d"
    using d by (simp_all add: sim_rm_def ds_inv_def)
  ultimately show ?thesis using d sub unfolding ds_inv_def by metis
qed

section \<open>What the commands do\<close>

lemma outs_text [simp]:
  "cmd_text (fine_out s) = utf8_valid s" "cmd_text (fail_out s) = utf8_valid s" "cmd_text lost_out"
  by (simp_all add: cmd_text_def fine_out_def fail_out_def lost_out_def error_ok_def utf8_valid_ascii is_ascii_def)

lemma outs_err [simp]:
  "co_err (fine_out s) = None" "co_err (fail_out s) = Some (NewErr ''exit status 1'')"
  "co_err lost_out = Some (NewErr ''signal: killed'')"
  "co_out (fine_out s) = s" "\<not> co_exit lost_out" "co_exit (fail_out s)"
  by (simp_all add: fine_out_def fail_out_def lost_out_def)

lemma outs_utf8 [simp]:
  "utf8_valid ''Error: No such object''" "utf8_valid ''Error: No such container''" "utf8_valid ''unknown command''"
  "utf8_valid ''Conflict. The container name is already in use''" "utf8_valid ''missing label''"
  "utf8_valid ''Unable to find image: pull access denied''" "utf8_valid ''invalid argument''" "utf8_valid ''not running''"
  by (simp_all add: utf8_valid_ascii is_ascii_def)

lemma utf8_valid_ct_name [simp]: "utf8_valid (ct_name n)"
  using show_nat_ascii [of n] by (intro utf8_valid_ascii) (simp add: ct_name_def is_ascii_def)

lemma sim_inspect_text: "ds_inv d \<Longrightarrow> cmd_text (fst (sim_inspect name d)) \<and> snd (sim_inspect name d) = d"
  by (auto simp: sim_inspect_def ds_inv_def ds_view_def intro!: info_text_valid split: option.split)

lemma ps_text: "ds_inv d \<Longrightarrow> cmd_text (fst (sim_ps i d)) \<and> snd (sim_ps i d) = d"
proof -
  assume d: "ds_inv d"
  have newline: "utf8_valid [CHR 0x0A]" by (simp add: utf8_valid_ascii is_ascii_def)
  have "utf8_valid (concat (map (\<lambda>(n, ct). ct_id ct @ [CHR 0x0A]) xs))" if "set xs \<subseteq> set (ds_cts d)" for xs
    using that
  proof (induction xs)
    case (Cons x xs)
    obtain n ct where x: "x = (n, ct)" by fastforce
    have "ds_view d n = Some ct" using Cons.prems d x by (auto simp: ds_view_def ds_inv_def gm_get_set)
    with d obtain k where "ct_id ct = ct_name k" unfolding ds_inv_def by blast
    then have "utf8_valid (ct_id ct)" by simp
    with Cons x show ?case
      by (auto intro!: utf8_valid_append simp: newline simp del: append.simps)
  qed simp
  then show ?thesis by (simp add: sim_ps_def filter_is_subset)
qed

lemma sim_output_ok:
  assumes "ds_inv d"
  shows "cmd_text (fst (sim_output args d)) \<and> snd (sim_output args d) = d"
  using assms sim_inspect_text ps_text
  by (auto simp: sim_output_def sim_unknown_def split: list.split)

lemma sim_run_ok:
  assumes "ds_inv d"
  shows "cmd_text (fst (sim_run args d)) \<and> ds_inv (snd (sim_run args d))"
  using assms ds_inv_new [OF assms]
  by (auto simp: sim_run_def Let_def new_ct_def split: option.split)

lemma sim_start_ok:
  assumes "ds_inv d" "utf8_valid name"
  shows "cmd_text (fst (sim_start name d)) \<and> ds_inv (snd (sim_start name d))"
  using assms ds_inv_started [OF assms(1)] by (auto simp: sim_start_def ds_view_def split: option.split)

lemma sim_combined_ok:
  assumes "ds_inv d"
  shows "cmd_text (fst (sim_combined args d)) \<and> ds_inv (snd (sim_combined args d))"
proof (cases args)
  case (Cons c r)
  have "cmd_text (fst (sim_rm ids d))" for ids by (simp add: sim_rm_def)
  with assms sim_run_ok sim_start_ok sim_rm_inv show ?thesis
    unfolding sim_combined_def Cons list.case by (simp add: sim_unknown_def)
qed (simp add: sim_combined_def sim_unknown_def assms)

lemma label_of_made:
  assumes "label_of args = Some j"
  shows "made_by args (new_ct n args j)"
proof -
  from assms obtain l where l: "List.find (prefix job_label) (flag_values ''--label'' args) = Some l"
    and j: "j = trim_prefix l job_label" by (auto simp: label_of_def)
  from find_SomeD [OF l] obtain r where "l \<in> set (flag_values ''--label'' args)" "l = job_label @ r"
    by (auto simp: prefix_def)
  with j have "job_label @ j \<in> set (flag_values ''--label'' args)" by simp
  then have "''infraforge.job='' @ j \<in> set (flag_values ''--label'' args)" by (simp only: job_label_def)
  moreover have "\<not> pg_var ''PATH=/usr/local/bin''" by (simp add: pg_var_def)
  ultimately show ?thesis by (simp add: made_by_def new_ct_def)
qed

lemma sim_run_view:
  assumes "ds_inv d" "args = ''run'' # ''-d'' # ''--name'' # name # rest"
  shows "(ds_view (snd (sim_run args d)) = ds_view d \<and> co_err (fst (sim_run args d)) \<noteq> None) \<or>
    (\<exists>ct. ds_view d name = None \<and> ds_view (snd (sim_run args d)) = (ds_view d)(name \<mapsto> ct) \<and> made_by args ct \<and>
       in_Running (ct_info ct))"
proof -
  have name: "args ! 3 = name" by (simp add: assms(2))
  show ?thesis
  proof (cases "label_of args")
    case (Some j)
    with label_of_made [OF Some, of "ds_next d"] show ?thesis
      unfolding sim_run_def Let_def name by (auto simp: ds_view_def new_ct_def intro!: exI [of _ "new_ct (ds_next d) args j"])
  qed (simp add: sim_run_def Let_def)
qed

lemma fields_ids:
  assumes "\<forall>x \<in> set xs. solid x \<and> x \<noteq> []"
  shows "strings_fields (concat (map (\<lambda>x. x @ [CHR 0x0A]) xs)) = xs"
proof -
  have nl: "space_width (CHR 0x0A # t) = 1" for t
  proof -
    have "char_of (9 :: nat) \<noteq> CHR 0x0A" "char_of (10 :: nat) = CHR 0x0A" by code_simp+
    then show ?thesis by (simp add: space_width_def utf8_spaces_def)
  qed
  have "fields_from [] (concat (map (\<lambda>x. x @ [CHR 0x0A]) xs)) = xs"
    using assms
  proof (induction xs)
    case Nil
    then show ?case by (simp add: fields_from.simps)
  next
    case (Cons x xs)
    have "fields_from [] (x @ CHR 0x0A # concat (map (\<lambda>x. x @ [CHR 0x0A]) xs)) =
        fields_from x (CHR 0x0A # concat (map (\<lambda>x. x @ [CHR 0x0A]) xs))"
      using Cons.prems fields_from_solid [of x "[]"] by simp
    also have "\<dots> = x # fields_from [] (concat (map (\<lambda>x. x @ [CHR 0x0A]) xs))"
      using Cons.prems by (subst fields_from.simps) (simp add: nl)
    finally show ?case using Cons by simp
  qed
  then show ?thesis by (simp add: strings_fields_def)
qed

lemma sim_ps_ids:
  assumes "ds_inv d"
  shows "set (strings_fields (co_out (fst (sim_ps i d)))) = ct_id ` {ct \<in> ran (ds_view d). ct_job ct = i}"
proof -
  let ?xs = "filter (\<lambda>(n, ct). ct_job ct = i) (ds_cts d)"
  have in_view: "ds_view d n = Some ct \<longleftrightarrow> (n, ct) \<in> set (ds_cts d)" for n ct
    using assms by (simp add: ds_view_def ds_inv_def gm_get_set)
  have "solid (ct_id ct) \<and> ct_id ct \<noteq> []" if "(n, ct) \<in> set (ds_cts d)" for n ct
    using that assms ct_name_solid by (force simp: ds_inv_def ct_name_def simp flip: in_view)
  then have "strings_fields (concat (map (\<lambda>x. x @ [CHR 0x0A]) (map (ct_id \<circ> snd) ?xs))) = map (ct_id \<circ> snd) ?xs"
    by (intro fields_ids) auto
  moreover have "map (\<lambda>x. x @ [CHR 0x0A]) (map (ct_id \<circ> snd) ?xs) = map (\<lambda>(n, ct). ct_id ct @ [CHR 0x0A]) ?xs"
    by auto
  ultimately have "strings_fields (co_out (fst (sim_ps i d))) = map (ct_id \<circ> snd) ?xs"
    by (simp only: sim_ps_def fst_conv outs_err)
  then show ?thesis by (force simp: ran_def in_view image_iff)
qed

section \<open>The laws, at the interface\<close>

lemma sim_out_text: "keeps ds_inv ds_cts cmd_text (dk_Output docker_sim_if args)"
  unfolding keeps_def docker_sim_if_def docker_if.select_convs
  by (intro allI impI wp_docker_cmd) (simp_all add: sim_output_ok)

lemma sim_out_law:
  assumes "ds_inv d"
  shows "wp (dk_Output docker_sim_if [''inspect'', name]) (\<lambda>c d'. ds_inv d' \<and> ds_view d' = ds_view d \<and>
    (case co_err c of None \<Rightarrow> \<exists>ct. ds_view d name = Some ct \<and> inspect_decode (co_out c) = Inr [ct_info ct]
     | Some _ \<Rightarrow> co_exit c \<longrightarrow> ds_view d name = None)) d"
proof -
  have run: "sim_output [''inspect'', name] = sim_inspect name" by (simp add: sim_output_def)
  show ?thesis
    unfolding docker_sim_if_def docker_if.select_convs run
    by (rule wp_docker_cmd)
       (use assms in \<open>auto simp: sim_inspect_def ds_view_def ds_inv_def inspect_decode_text split: option.split\<close>)
qed

lemma sim_ps_law:
  assumes "ds_inv d"
  shows "wp (dk_Output docker_sim_if [''ps'', ''-aq'', ''-f'', ''label=infraforge.job='' @ i]) (\<lambda>c d'. ds_inv d' \<and>
    ds_view d' = ds_view d \<and> (co_err c = None \<longrightarrow>
      set (strings_fields (co_out c)) = ct_id ` {ct \<in> ran (ds_view d). ct_job ct = i})) d"
proof -
  have "prefix job_filter (job_filter @ i)" by simp
  then have run: "sim_output [''ps'', ''-aq'', ''-f'', job_filter @ i] = sim_ps i"
    unfolding sim_output_def list.case by simp
  show ?thesis
    unfolding docker_sim_if_def docker_if.select_convs run [unfolded job_filter_def]
    by (rule wp_docker_cmd) (use assms in \<open>simp_all add: sim_ps_ids ps_text\<close>)
qed

lemma sim_comb_text:
  "ds_inv d \<Longrightarrow> wp (dk_CombinedOutput docker_sim_if args) (\<lambda>c d'. ds_inv d' \<and> cmd_text c) d"
  unfolding docker_sim_if_def docker_if.select_convs
  by (rule wp_docker_cmd) (simp_all add: sim_combined_ok)

lemma sim_run_law:
  assumes "ds_inv d" "args = ''run'' # ''-d'' # ''--name'' # name # rest"
  shows "wp (dk_CombinedOutput docker_sim_if args) (\<lambda>c d'. ds_inv d' \<and>
    (ds_view d' = ds_view d \<and> co_err c \<noteq> None \<or>
     (\<exists>ct. ds_view d name = None \<and> ds_view d' = (ds_view d)(name \<mapsto> ct) \<and> made_by args ct \<and>
        (co_err c = None \<longrightarrow> in_Running (ct_info ct))))) d"
proof -
  have run: "sim_combined args = sim_run args" by (simp add: sim_combined_def assms(2))
  have "\<exists>e. co_err lost_out = Some e" by simp
  then show ?thesis
    unfolding docker_sim_if_def docker_if.select_convs run
  proof (intro wp_docker_cmd)
    fix fs
    let ?d = "d\<lparr>ds_faults := fs\<rparr>"
    have "ds_inv ?d" using assms(1) by simp
    from sim_run_view [OF this assms(2)] sim_run_ok [OF this, of args]
    show "ds_inv (snd (sim_run args ?d)) \<and> (ds_view (snd (sim_run args ?d)) = ds_view d \<and> co_err (fst (sim_run args ?d)) \<noteq> None \<or>
        (\<exists>ct. ds_view d name = None \<and> ds_view (snd (sim_run args ?d)) = (ds_view d)(name \<mapsto> ct) \<and> made_by args ct \<and>
           (co_err (fst (sim_run args ?d)) = None \<longrightarrow> in_Running (ct_info ct))))"
      and "ds_inv (snd (sim_run args ?d)) \<and> (ds_view (snd (sim_run args ?d)) = ds_view d \<and> co_err lost_out \<noteq> None \<or>
        (\<exists>ct. ds_view d name = None \<and> ds_view (snd (sim_run args ?d)) = (ds_view d)(name \<mapsto> ct) \<and> made_by args ct \<and>
           (co_err lost_out = None \<longrightarrow> in_Running (ct_info ct))))"
      by (simp_all, blast+)
  qed (use assms(1) in simp)
qed

lemma sim_start_law:
  assumes "ds_inv d"
  shows "wp (dk_CombinedOutput docker_sim_if [''start'', name]) (\<lambda>c d'. ds_inv d' \<and>
    (ds_view d' = ds_view d \<and> co_err c \<noteq> None \<or>
     (\<exists>ct ct'. ds_view d name = Some ct \<and> ds_view d' = (ds_view d)(name \<mapsto> ct') \<and> ct_id ct' = ct_id ct \<and>
        ct_job ct' = ct_job ct \<and> in_Env (ct_info ct') = in_Env (ct_info ct) \<and> in_Running (ct_info ct')))) d"
proof (cases "utf8_valid name")
  case True
  then have run: "sim_combined [''start'', name] = sim_start name" by (simp add: sim_combined_def)
  have "ds_inv (snd (sim_start name (d\<lparr>ds_faults := fs\<rparr>)))" for fs using sim_start_ok [OF _ True] assms by simp
  moreover have "ds_view (snd (sim_start name (d\<lparr>ds_faults := fs\<rparr>))) = ds_view d \<and> co_err (fst (sim_start name (d\<lparr>ds_faults := fs\<rparr>))) \<noteq> None \<or>
     (\<exists>ct ct'. ds_view d name = Some ct \<and> ds_view (snd (sim_start name (d\<lparr>ds_faults := fs\<rparr>))) = (ds_view d)(name \<mapsto> ct') \<and>
        ct_id ct' = ct_id ct \<and> ct_job ct' = ct_job ct \<and> in_Env (ct_info ct') = in_Env (ct_info ct) \<and> in_Running (ct_info ct'))" for fs
    by (cases "gm_get (ds_cts d) name") (auto simp: sim_start_def ds_view_def)
  ultimately show ?thesis
    unfolding docker_sim_if_def docker_if.select_convs run
    by (intro wp_docker_cmd) (use assms in \<open>auto\<close>)
next
  case False
  then have run: "sim_combined [''start'', name] = sim_unknown" by (simp add: sim_combined_def)
  show ?thesis unfolding docker_sim_if_def docker_if.select_convs run
    by (rule wp_docker_cmd) (simp_all add: sim_unknown_def assms)
qed

lemma sim_rm_law:
  assumes "ds_inv d"
  shows "wp (dk_CombinedOutput docker_sim_if ([''rm'', ''-f''] @ ids)) (\<lambda>c d'. ds_inv d' \<and>
    (\<exists>X \<subseteq> set ids. ds_view d' = Docker_Laws.removed X (ds_view d) \<and> (co_err c = None \<longrightarrow> X = set ids))) d"
proof -
  have run: "sim_combined ([''rm'', ''-f''] @ ids) = sim_rm ids" by (simp add: sim_combined_def)
  have none: "Docker_Laws.removed {} m = m" for m by (auto simp: removed_def fun_eq_iff split: option.split)
  show ?thesis
    unfolding docker_sim_if_def docker_if.select_convs run
  proof (rule wp_docker_cmd, goal_cases)
    case (2 fs)
    show ?case using assms none by (intro conjI exI [of _ "{}"]) simp_all
  qed (use assms in \<open>auto simp: sim_rm_view sim_rm_inv\<close>)
qed

lemma sim_exec_law: "keeps ds_inv ds_cts any_result (dk_Run docker_sim_if args)"
  unfolding keeps_def docker_sim_if_def docker_if.select_convs wp_bind wp_return
  by (intro allI impI wp_docker_cmd) (auto simp: sim_exec_def split: option.split)

lemma sim_get_law: "keeps ds_inv ds_cts (\<lambda>x. x \<noteq> Panic) (hc_Get docker_sim_if url)"
  unfolding keeps_def docker_sim_if_def docker_if.select_convs wp_bind wp_return
  by (intro allI impI wp_docker_cmd) auto

end
