(* ===== verification/Xds_Registry.thy ===== *)
theory Xds_Registry
  imports Go_Map Go_Numbers Job_Model
begin

text \<open>
  \<open>internal/xds/registry.go\<close>: the registry of routable endpoints per service and the Envoy
  snapshot built from it. The state is the record \<open>registry\<close>; each method is its critical
  section (what runs under \<open>r.mu\<close>) followed by \<open>pushSnapshot\<close>, which runs after the unlock.

  The snapshot cache and the consistency check of go-control-plane are not part of the sources:
  they are the argument \<open>cache_if\<close>. A snapshot is modelled by what the sources hand to
  \<open>NewSnapshot\<close>: the version, the listener, the route configuration and the clusters.
\<close>

section \<open>Endpoints\<close>

definition NodeID :: string where "NodeID = ''infraforge-edge''"
definition ListenerName :: string where "ListenerName = ''infraforge_ingress''"
definition RouteCfgName :: string where "RouteCfgName = ''infraforge_routes''"
definition ListenerPort :: int where "ListenerPort = 10000"

datatype endpoint = Endpoint (ep_Host: string) (ep_Port: int)

definition endpointKey :: "endpoint \<Rightarrow> string" where
  "endpointKey e = ep_Host e @ '':'' @ show_int (ep_Port e)"

lemma endpointKey_inject [simp]: "endpointKey e = endpointKey f \<longleftrightarrow> e = f"
proof
  assume "endpointKey e = endpointKey f"
  then have "ep_Host e @ CHR '':'' # show_int (ep_Port e) = ep_Host f @ CHR '':'' # show_int (ep_Port f)"
    by (simp add: endpointKey_def)
  then have "ep_Host e = ep_Host f \<and> show_int (ep_Port e) = show_int (ep_Port f)"
    by (rule last_colon_split) (simp_all add: show_int_no_colon)
  then show "e = f" by (simp add: endpoint.expand)
qed simp

lemma inj_endpointKey: "inj_on endpointKey A"
  by (simp add: inj_on_def)

text \<open>
  Endpoints are compared by their keys, as \<open>List\<close> sorts them; injectivity makes this a linear
  order.
\<close>

instantiation endpoint :: linorder
begin

definition less_eq_endpoint :: "endpoint \<Rightarrow> endpoint \<Rightarrow> bool" where
  "less_eq_endpoint e f \<longleftrightarrow> endpointKey e \<le> endpointKey f"

definition less_endpoint :: "endpoint \<Rightarrow> endpoint \<Rightarrow> bool" where
  "less_endpoint e f \<longleftrightarrow> endpointKey e < endpointKey f"

instance
  by standard (auto simp: less_eq_endpoint_def less_endpoint_def order_less_le)

end

lemma endpoint_le_key: "e \<le> f \<longleftrightarrow> endpointKey e \<le> endpointKey f"
  by (simp add: less_eq_endpoint_def)

section \<open>The xDS resources\<close>

record lbEndpoint =
  lb_Address :: string
  lb_PortValue :: int

datatype discoveryType = Cluster_STATIC
datatype lbPolicy = Cluster_ROUND_ROBIN

record cluster =
  cl_Name :: string
  cl_ConnectTimeout :: duration
  cl_DiscoveryType :: discoveryType
  cl_LbPolicy :: lbPolicy
  cl_ClusterName :: string
  cl_LbEndpoints :: "lbEndpoint list"

record route =
  rt_Prefix :: string
  rt_Cluster :: string
  rt_PrefixRewrite :: string

record virtualHost =
  vh_Name :: string
  vh_Domains :: "string list"
  vh_Routes :: "route list"

record routeConfiguration =
  rc_Name :: string
  rc_VirtualHosts :: "virtualHost list"

datatype configSource = Ads_V3
datatype codecType = Codec_AUTO

record httpConnectionManager =
  hcm_CodecType :: codecType
  hcm_StatPrefix :: string
  hcm_ConfigSource :: configSource
  hcm_RouteConfigName :: string
  hcm_HttpFilters :: "string list"

record listener =
  ls_Name :: string
  ls_Address :: string
  ls_PortValue :: int
  ls_FilterName :: string
  ls_Filter :: httpConnectionManager

record snapshot =
  snap_version :: string
  snap_listener :: listener
  snap_routes :: routeConfiguration
  snap_clusters :: "cluster list"

definition makeCluster :: "string \<Rightarrow> lbEndpoint list \<Rightarrow> cluster" where
  "makeCluster name lbEndpoints =
     \<lparr>cl_Name = name, cl_ConnectTimeout = 1 * second, cl_DiscoveryType = Cluster_STATIC,
      cl_LbPolicy = Cluster_ROUND_ROBIN, cl_ClusterName = name, cl_LbEndpoints = lbEndpoints\<rparr>"

definition makeLBEndpoint :: "string \<Rightarrow> int \<Rightarrow> lbEndpoint" where
  "makeLBEndpoint host port = \<lparr>lb_Address = host, lb_PortValue = port\<rparr>"

definition makePrefixRoute :: "string \<Rightarrow> route" where
  "makePrefixRoute service =
     \<lparr>rt_Prefix = ''/'' @ service @ ''/'', rt_Cluster = service, rt_PrefixRewrite = ''/''\<rparr>"

definition makeADSConfigSource :: configSource where
  "makeADSConfigSource = Ads_V3"

definition makeListener :: listener where
  "makeListener =
     \<lparr>ls_Name = ListenerName, ls_Address = ''0.0.0.0'', ls_PortValue = ListenerPort,
      ls_FilterName = ''envoy.filters.network.http_connection_manager'',
      ls_Filter =
        \<lparr>hcm_CodecType = Codec_AUTO, hcm_StatPrefix = ''ingress_http'',
         hcm_ConfigSource = makeADSConfigSource, hcm_RouteConfigName = RouteCfgName,
         hcm_HttpFilters = [''envoy.filters.http.router'']\<rparr>\<rparr>"

section \<open>The registry and its operations\<close>

type_synonym services = "(string, (string, endpoint) gomap) gomap"

text \<open>The snapshot cache of go-control-plane, over its own state \<open>'c\<close>.\<close>

record 'c cache_if =
  cache_Consistent :: "snapshot \<Rightarrow> goerr option"
  cache_SetSnapshot :: "string \<Rightarrow> snapshot \<Rightarrow> ('c, goerr option) state"

record 'c registry =
  reg_services :: services
  reg_version :: int
  reg_cache :: 'c

definition NewRegistry :: "'c \<Rightarrow> 'c registry" where
  "NewRegistry c = \<lparr>reg_services = [], reg_version = 0, reg_cache = c\<rparr>"

text \<open>The two orders in which Go ranges over the outer and the inner maps.\<close>

record range_if =
  rng_services :: "services \<Rightarrow> services"
  rng_endpoints :: "(string, endpoint) gomap \<Rightarrow> (string, endpoint) gomap"
  rng_desired :: "(string, endpoint list) gomap \<Rightarrow> (string, endpoint list) gomap"

definition range_if_ok :: "range_if \<Rightarrow> bool" where
  "range_if_ok R \<longleftrightarrow> range_order (rng_services R) \<and> range_order (rng_endpoints R) \<and>
     range_order (rng_desired R)"

text \<open>A map read: the zero value for a missing key. A nil map reads as an empty one.\<close>

definition bucket_of :: "services \<Rightarrow> string \<Rightarrow> (string, endpoint) gomap" where
  "bucket_of m svc = (case gm_get m svc of None \<Rightarrow> [] | Some b \<Rightarrow> b)"

definition endpoint_at :: "(string, endpoint) gomap \<Rightarrow> string \<Rightarrow> endpoint" where
  "endpoint_at b k = (case gm_get b k of None \<Rightarrow> Endpoint [] 0 | Some e \<Rightarrow> e)"

definition lbEndpoints_of :: "range_if \<Rightarrow> (string, endpoint) gomap \<Rightarrow> lbEndpoint list" where
  "lbEndpoints_of R endpoints =
     (let keys = sort (map fst (rng_endpoints R endpoints))
      in map (\<lambda>k. let e = endpoint_at endpoints k
                  in makeLBEndpoint (ep_Host e) (uint32_of (ep_Port e))) keys)"

definition resources_of :: "range_if \<Rightarrow> services \<Rightarrow> cluster list \<times> routeConfiguration" where
  "resources_of R m =
     (let services = sort (map fst (rng_services R m));
          clusters = map (\<lambda>svc. makeCluster svc (lbEndpoints_of R (bucket_of m svc))) services;
          routes = map makePrefixRoute services
      in (clusters,
          \<lparr>rc_Name = RouteCfgName,
           rc_VirtualHosts = [\<lparr>vh_Name = ''all'', vh_Domains = [''*''], vh_Routes = routes\<rparr>]\<rparr>))"

text \<open>\<open>buildLocked\<close>; \<open>t\<close> is \<open>time.Now().Unix()\<close>.\<close>

definition buildLocked :: "range_if \<Rightarrow> int \<Rightarrow> 'c registry \<Rightarrow> snapshot \<times> 'c registry" where
  "buildLocked R t r =
     (let (clusters, routeCfg) = resources_of R (reg_services r);
          n = wrap64 (reg_version r + 1)
      in (\<lparr>snap_version = ''v'' @ show_int n @ ''-'' @ show_int t, snap_listener = makeListener,
           snap_routes = routeCfg, snap_clusters = clusters\<rparr>,
          r\<lparr>reg_version := n\<rparr>))"

definition pushSnapshot :: "'c cache_if \<Rightarrow> snapshot \<Rightarrow> 'c registry \<Rightarrow> goerr option \<times> 'c registry" where
  "pushSnapshot C snap r =
     (case cache_Consistent C snap of
        Some e \<Rightarrow> (Some (errorf_w ''snapshot inconsistent'' e), r)
      | None \<Rightarrow>
          (case run_state (cache_SetSnapshot C NodeID snap) (reg_cache r) of
             (Some e, c) \<Rightarrow> (Some (errorf_w ''set snapshot'' e), r\<lparr>reg_cache := c\<rparr>)
           | (None, c) \<Rightarrow> (None, r\<lparr>reg_cache := c\<rparr>)))"

text \<open>The critical sections: what each method does to the map while it holds the lock.\<close>

definition register_map :: "string \<Rightarrow> endpoint \<Rightarrow> services \<Rightarrow> services" where
  "register_map service e m =
     (let m1 = (if gm_get m service = None then gm_put service [] m else m)
      in gm_put service (gm_put (endpointKey e) e (bucket_of m1 service)) m1)"

definition unregister_map :: "string \<Rightarrow> endpoint \<Rightarrow> services \<Rightarrow> services" where
  "unregister_map service e m =
     (case gm_get m service of
        None \<Rightarrow> m
      | Some endpoints \<Rightarrow>
          (let b = gm_del (endpointKey e) endpoints
           in if b = [] then gm_del service m else gm_put service b m))"

definition bucket_from :: "endpoint list \<Rightarrow> (string, endpoint) gomap" where
  "bucket_from eps = foldl (\<lambda>b e. gm_put (endpointKey e) e b) [] eps"

definition replace_map :: "range_if \<Rightarrow> (string, endpoint list) gomap \<Rightarrow> services" where
  "replace_map R desired =
     foldl (\<lambda>m (svc, eps). gm_put svc (bucket_from eps) m) [] (rng_desired R desired)"

definition Register ::
  "'c cache_if \<Rightarrow> range_if \<Rightarrow> int \<Rightarrow> string \<Rightarrow> endpoint \<Rightarrow> 'c registry \<Rightarrow> goerr option \<times> 'c registry" where
  "Register C R t service e r =
     (let (snap, r1) = buildLocked R t (r\<lparr>reg_services := register_map service e (reg_services r)\<rparr>)
      in pushSnapshot C snap r1)"

definition Unregister ::
  "'c cache_if \<Rightarrow> range_if \<Rightarrow> int \<Rightarrow> string \<Rightarrow> endpoint \<Rightarrow> 'c registry \<Rightarrow> goerr option \<times> 'c registry" where
  "Unregister C R t service e r =
     (let (snap, r1) = buildLocked R t (r\<lparr>reg_services := unregister_map service e (reg_services r)\<rparr>)
      in pushSnapshot C snap r1)"

definition PushEmpty ::
  "'c cache_if \<Rightarrow> range_if \<Rightarrow> int \<Rightarrow> 'c registry \<Rightarrow> goerr option \<times> 'c registry" where
  "PushEmpty C R t r = (let (snap, r1) = buildLocked R t r in pushSnapshot C snap r1)"

definition equalLocked :: "range_if \<Rightarrow> (string, endpoint list) gomap \<Rightarrow> services \<Rightarrow> bool" where
  "equalLocked R desired m =
     (if length m \<noteq> length desired then False
      else list_all (\<lambda>(svc, wantList).
             let have = bucket_of m svc
             in length have = length wantList \<and>
                list_all (\<lambda>e. gm_get have (endpointKey e) \<noteq> None) wantList)
           (rng_desired R desired))"

definition ReplaceAll ::
  "'c cache_if \<Rightarrow> range_if \<Rightarrow> int \<Rightarrow> (string, endpoint list) gomap \<Rightarrow> 'c registry \<Rightarrow>
   (bool \<times> goerr option) \<times> 'c registry" where
  "ReplaceAll C R t desired r =
     (if equalLocked R desired (reg_services r) then ((False, None), r)
      else let (snap, r1) = buildLocked R t (r\<lparr>reg_services := replace_map R desired\<rparr>);
               (err, r2) = pushSnapshot C snap r1
           in ((True, err), r2))"

definition Registry_List :: "range_if \<Rightarrow> 'c registry \<Rightarrow> (string, endpoint list) gomap" where
  "Registry_List R r =
     foldl (\<lambda>out (svc, eps). gm_put svc (sort (map snd (rng_endpoints R eps))) out) []
       (rng_services R (reg_services r))"

end
