(* ===== verification/Xds_Registry_Laws.thy ===== *)
theory Xds_Registry_Laws
  imports Xds_Registry
begin

text \<open>
  What the registry promises. The nested map is a representation of a set of pairs
  (service, endpoint): \<open>reg_abs\<close> is the abstraction and \<open>services_wf\<close> the representation
  invariant (distinct keys, no empty bucket, every endpoint under its own key). The locale
  \<open>service_registry\<close> is the contract the control plane's clients rely on; it is interpreted on
  the source's critical sections. The remaining lemmas are about \<open>ReplaceAll\<close>'s equality test
  and about the snapshot.
\<close>

section \<open>Representation\<close>

definition bucket_wf :: "(string, endpoint) gomap \<Rightarrow> bool" where
  "bucket_wf b \<longleftrightarrow> gm_wf b \<and> list_all (\<lambda>(k, e). k = endpointKey e) b"

definition services_wf :: "services \<Rightarrow> bool" where
  "services_wf m \<longleftrightarrow> gm_wf m \<and> list_all (\<lambda>(s, b). bucket_wf b \<and> b \<noteq> []) m"

definition reg_abs :: "services \<Rightarrow> (string \<times> endpoint) set" where
  "reg_abs m = {(s, e). gm_get (bucket_of m s) (endpointKey e) = Some e}"

definition desired_abs :: "(string, endpoint list) gomap \<Rightarrow> (string \<times> endpoint) set" where
  "desired_abs d = {(s, e). \<exists>l. gm_get d s = Some l \<and> e \<in> set l}"

lemma bucket_wf_empty [simp]: "bucket_wf []"
  by (simp add: bucket_wf_def)

lemma bucket_wf_iff:
  "bucket_wf b \<longleftrightarrow> gm_wf b \<and> (\<forall>k e. gm_get b k = Some e \<longrightarrow> k = endpointKey e)"
  by (auto simp: bucket_wf_def list_all_iff gm_get_set)

lemma bucket_wf_put [simp]: "bucket_wf b \<Longrightarrow> bucket_wf (gm_put (endpointKey e) e b)"
  by (auto simp: bucket_wf_iff)

lemma bucket_wf_del [simp]: "bucket_wf b \<Longrightarrow> bucket_wf (gm_del k b)"
  by (auto simp: bucket_wf_iff split: if_splits)

lemma services_wf_iff:
  "services_wf m \<longleftrightarrow> gm_wf m \<and> (\<forall>s b. gm_get m s = Some b \<longrightarrow> bucket_wf b \<and> b \<noteq> [])"
  by (fastforce simp: services_wf_def list_all_iff gm_get_set)

lemma services_wf_gm [dest]: "services_wf m \<Longrightarrow> gm_wf m"
  by (simp add: services_wf_def)

lemma bucket_wf_of [simp]: "services_wf m \<Longrightarrow> bucket_wf (bucket_of m s)"
  by (auto simp: services_wf_iff bucket_of_def split: option.splits)

lemma bucket_of_put [simp]: "bucket_of (gm_put s b m) = (bucket_of m)(s := b)"
  by (auto simp: bucket_of_def fun_eq_iff)

lemma bucket_of_del [simp]: "bucket_of (gm_del s m) = (bucket_of m)(s := [])"
  by (auto simp: bucket_of_def fun_eq_iff)

lemma services_wf_put: "services_wf m \<Longrightarrow> bucket_wf b \<Longrightarrow> b \<noteq> [] \<Longrightarrow> services_wf (gm_put s b m)"
  by (auto simp: services_wf_iff split: if_splits)

lemma services_wf_del: "services_wf m \<Longrightarrow> services_wf (gm_del s m)"
  by (auto simp: services_wf_iff split: if_splits)

text \<open>\<open>Register\<close> creates the bucket first when the service is new; both cases are one write.\<close>

lemma register_map_put:
  "register_map s e m = gm_put s (gm_put (endpointKey e) e (bucket_of m s)) m"
  by (auto simp: register_map_def Let_def bucket_of_def)

lemma reg_abs_iff: "p \<in> reg_abs m \<longleftrightarrow> gm_get (bucket_of m (fst p)) (endpointKey (snd p)) = Some (snd p)"
  by (cases p) (simp add: reg_abs_def)

lemma reg_abs_register [simp]: "reg_abs (register_map s e m) = insert (s, e) (reg_abs m)"
  by (rule set_eqI) (simp add: reg_abs_iff register_map_put prod_eq_iff eq_commute)

lemma services_wf_register: "services_wf m \<Longrightarrow> services_wf (register_map s e m)"
  unfolding register_map_put by (rule services_wf_put) simp_all

lemma bucket_of_unregister:
  "bucket_of (unregister_map s e m) = (bucket_of m)(s := gm_del (endpointKey e) (bucket_of m s))"
  by (auto simp: unregister_map_def Let_def bucket_of_def fun_eq_iff split: option.splits)

lemma reg_abs_unregister [simp]: "reg_abs (unregister_map s e m) = reg_abs m - {(s, e)}"
  by (rule set_eqI) (simp add: reg_abs_iff bucket_of_unregister prod_eq_iff eq_commute)

lemma services_wf_unregister:
  assumes wf: "services_wf m"
  shows "services_wf (unregister_map s e m)"
proof (cases "gm_get m s")
  case None
  with wf show ?thesis by (simp add: unregister_map_def)
next
  case (Some b)
  with wf have "bucket_wf b" by (simp add: services_wf_iff)
  with wf Some show ?thesis
    by (simp add: unregister_map_def Let_def services_wf_del services_wf_put)
qed

lemma reg_abs_empty [simp]: "reg_abs [] = {}"
  by (simp add: reg_abs_def bucket_of_def)

lemma services_wf_empty [simp]: "services_wf []"
  by (simp add: services_wf_def)

section \<open>The contract of a service registry\<close>

datatype reg_event = Registered string endpoint | Unregistered string endpoint

fun event_pair :: "reg_event \<Rightarrow> string \<times> endpoint" where
  "event_pair (Registered s e) = (s, e)"
| "event_pair (Unregistered s e) = (s, e)"

fun is_registered :: "reg_event \<Rightarrow> bool" where
  "is_registered (Registered s e) = True"
| "is_registered (Unregistered s e) = False"

text \<open>A sequence of register and unregister calls, as the worker makes them over time.\<close>

fun replay ::
  "(string \<Rightarrow> endpoint \<Rightarrow> 'm \<Rightarrow> 'm) \<Rightarrow> (string \<Rightarrow> endpoint \<Rightarrow> 'm \<Rightarrow> 'm) \<Rightarrow> reg_event list \<Rightarrow> 'm \<Rightarrow> 'm"
where
  "replay reg unreg [] m = m"
| "replay reg unreg (Registered s e # evs) m = replay reg unreg evs (reg s e m)"
| "replay reg unreg (Unregistered s e # evs) m = replay reg unreg evs (unreg s e m)"

text \<open>What the last event about a pair says, if there is one.\<close>

definition last_says :: "reg_event list \<Rightarrow> string \<times> endpoint \<Rightarrow> bool option" where
  "last_says evs p =
     (case filter (\<lambda>ev. event_pair ev = p) (rev evs) of [] \<Rightarrow> None | ev # _ \<Rightarrow> Some (is_registered ev))"

lemma last_says_Nil [simp]: "last_says [] p = None"
  by (simp add: last_says_def)

lemma last_says_Cons:
  "last_says (ev # evs) p =
     (case last_says evs p of Some b \<Rightarrow> Some b
      | None \<Rightarrow> if event_pair ev = p then Some (is_registered ev) else None)"
  by (auto simp: last_says_def split: list.splits)

locale service_registry =
  fixes reg :: "string \<Rightarrow> endpoint \<Rightarrow> 'm \<Rightarrow> 'm"
    and unreg :: "string \<Rightarrow> endpoint \<Rightarrow> 'm \<Rightarrow> 'm"
    and new :: 'm
    and inv :: "'m \<Rightarrow> bool"
    and abs :: "'m \<Rightarrow> (string \<times> endpoint) set"
  assumes inv_new: "inv new"
    and abs_new: "abs new = {}"
    and inv_reg: "inv m \<Longrightarrow> inv (reg s e m)"
    and abs_reg: "inv m \<Longrightarrow> abs (reg s e m) = insert (s, e) (abs m)"
    and inv_unreg: "inv m \<Longrightarrow> inv (unreg s e m)"
    and abs_unreg: "inv m \<Longrightarrow> abs (unreg s e m) = abs m - {(s, e)}"
begin

text \<open>After any sequence of events, a pair is registered iff the last event about it says so.\<close>

lemma replay_last:
  "inv m \<Longrightarrow> inv (replay reg unreg evs m) \<and>
     (p \<in> abs (replay reg unreg evs m) \<longleftrightarrow>
        (case last_says evs p of None \<Rightarrow> p \<in> abs m | Some b \<Rightarrow> b))"
proof (induction evs arbitrary: m)
  case Nil
  then show ?case by simp
next
  case (Cons ev evs)
  then show ?case
    by (cases ev) (auto simp: inv_reg abs_reg inv_unreg abs_unreg last_says_Cons split: option.splits)
qed

lemma reg_idem: "inv m \<Longrightarrow> (s, e) \<in> abs m \<Longrightarrow> abs (reg s e m) = abs m"
  by (auto simp: abs_reg)

lemma unreg_reg: "inv m \<Longrightarrow> (s, e) \<notin> abs m \<Longrightarrow> abs (unreg s e (reg s e m)) = abs m"
  by (simp add: abs_reg abs_unreg inv_reg)

end

interpretation xr: service_registry register_map unregister_map "[]" services_wf reg_abs
  by unfold_locales
     (simp_all add: services_wf_register services_wf_unregister)

section \<open>Buckets as sets of endpoints\<close>

definition bucket_set :: "(string, endpoint) gomap \<Rightarrow> endpoint set" where
  "bucket_set b = snd ` set b"

lemma bucket_get: "bucket_wf b \<Longrightarrow> gm_get b k = Some e \<longleftrightarrow> k = endpointKey e \<and> e \<in> bucket_set b"
  by (force simp: bucket_wf_def gm_get_set bucket_set_def list_all_iff)

lemma bucket_has: "bucket_wf b \<Longrightarrow> gm_get b (endpointKey e) \<noteq> None \<longleftrightarrow> e \<in> bucket_set b"
  using bucket_get by fastforce

lemma bucket_keys: "bucket_wf b \<Longrightarrow> map fst b = map endpointKey (map snd b)"
  by (auto simp: bucket_wf_def list_all_iff)

lemma bucket_distinct: "bucket_wf b \<Longrightarrow> distinct (map snd b)"
  by (metis bucket_keys bucket_wf_def distinct_map gm_wf_def)

lemma bucket_length: "bucket_wf b \<Longrightarrow> length b = card (bucket_set b)"
  by (metis bucket_distinct bucket_set_def distinct_card length_map list.set_map)

lemma finite_bucket_set [simp]: "finite (bucket_set b)"
  by (simp add: bucket_set_def)

lemma reg_abs_bucket: "services_wf m \<Longrightarrow> (s, e) \<in> reg_abs m \<longleftrightarrow> e \<in> bucket_set (bucket_of m s)"
  by (simp add: reg_abs_def bucket_get)

lemma reg_abs_services: "services_wf m \<Longrightarrow> fst ` reg_abs m = dom (gm_get m)"
proof (intro equalityI subsetI)
  fix s
  assume "services_wf m" "s \<in> fst ` reg_abs m"
  then show "s \<in> dom (gm_get m)"
    by (auto simp: reg_abs_def bucket_of_def split: option.splits)
next
  fix s
  assume wf: "services_wf m" and "s \<in> dom (gm_get m)"
  then obtain b where b: "gm_get m s = Some b" by blast
  with wf have "b \<noteq> []" by (simp add: services_wf_iff)
  then obtain e where "e \<in> bucket_set b" by (cases b) (auto simp: bucket_set_def)
  with wf b have "(s, e) \<in> reg_abs m" by (simp add: reg_abs_bucket bucket_of_def)
  then show "s \<in> fst ` reg_abs m" by force
qed

section \<open>Wholesale replacement\<close>

definition desired_wf :: "(string, endpoint list) gomap \<Rightarrow> bool" where
  "desired_wf d \<longleftrightarrow> gm_wf d \<and> list_all (\<lambda>(s, l). l \<noteq> []) d"

definition desired_distinct :: "(string, endpoint list) gomap \<Rightarrow> bool" where
  "desired_distinct d \<longleftrightarrow> list_all (\<lambda>(s, l). distinct l) d"

lemma bucket_from_fold:
  "bucket_wf b \<Longrightarrow> bucket_wf (foldl (\<lambda>b e. gm_put (endpointKey e) e b) b eps) \<and>
     bucket_set (foldl (\<lambda>b e. gm_put (endpointKey e) e b) b eps) = set eps \<union> bucket_set b"
proof (induction eps arbitrary: b)
  case Nil
  then show ?case by simp
next
  case (Cons e eps)
  then have wf: "bucket_wf (gm_put (endpointKey e) e b)" by simp
  have "bucket_set (gm_put (endpointKey e) e b) = insert e (bucket_set b)"
  proof (rule set_eqI)
    fix f
    show "f \<in> bucket_set (gm_put (endpointKey e) e b) \<longleftrightarrow> f \<in> insert e (bucket_set b)"
      using bucket_has [OF wf, of f] bucket_has [OF Cons.prems, of f] by (cases "f = e") auto
  qed
  with Cons.IH [OF wf] show ?case by simp
qed

lemma bucket_from_wf [simp]: "bucket_wf (bucket_from eps)"
  and bucket_from_set [simp]: "bucket_set (bucket_from eps) = set eps"
  using bucket_from_fold [of "[]" eps] by (simp_all add: bucket_from_def bucket_set_def)

lemma bucket_from_empty [simp]: "bucket_from eps = [] \<longleftrightarrow> eps = []"
  by (metis bucket_from_set bucket_set_def image_is_empty set_empty)

text \<open>A loop that writes one entry per key of a map.\<close>

lemma fold_put_get:
  assumes "gm_wf xs"
  shows "gm_get (foldl (\<lambda>m (s, l). gm_put s (f l) m) acc xs) k =
    (case gm_get xs k of None \<Rightarrow> gm_get acc k | Some l \<Rightarrow> Some (f l))"
  using assms
proof (induction xs arbitrary: acc)
  case Nil
  then show ?case by simp
next
  case (Cons x xs)
  obtain s l where x: "x = (s, l)" by fastforce
  from Cons.prems x have wf: "gm_wf xs" and fresh: "gm_get xs s = None"
    by (simp_all add: gm_wf_def gm_get_def map_of_eq_None_iff)
  have "gm_get (x # xs) k = (if k = s then Some l else gm_get xs k)"
    by (simp add: x gm_get_def)
  with Cons.IH [OF wf, of "gm_put s (f l) acc"] x fresh show ?case
    by (auto split: option.split)
qed

lemma fold_put_wf: "gm_wf acc \<Longrightarrow> gm_wf (foldl (\<lambda>m (s, l). gm_put s (f l) m) acc xs)"
  by (induction xs arbitrary: acc) (auto split: prod.splits)

lemma replace_map_get:
  assumes "range_if_ok R" "gm_wf d"
  shows "gm_get (replace_map R d) s = map_option bucket_from (gm_get d s)"
  unfolding replace_map_def
  using assms range_order_wf [of "rng_desired R" d] gm_get_range [of "rng_desired R" d]
  by (simp add: range_if_ok_def fold_put_get map_option_case split: option.split)

lemma replace_map_wf: "range_if_ok R \<Longrightarrow> desired_wf d \<Longrightarrow> services_wf (replace_map R d)"
  unfolding services_wf_iff
proof (intro conjI allI impI)
  assume "range_if_ok R" and d: "desired_wf d"
  show "gm_wf (replace_map R d)" by (simp add: replace_map_def fold_put_wf)
  fix s b
  assume "gm_get (replace_map R d) s = Some b"
  with \<open>range_if_ok R\<close> d obtain l where "gm_get d s = Some l" and b: "b = bucket_from l"
    by (auto simp: replace_map_get desired_wf_def)
  with d have "l \<noteq> []" by (auto simp: desired_wf_def gm_get_set list_all_iff)
  with b show "bucket_wf b" "b \<noteq> []" by simp_all
qed

lemma replace_map_abs:
  assumes "range_if_ok R" "gm_wf d"
  shows "reg_abs (replace_map R d) = desired_abs d"
proof (rule set_eqI)
  fix p :: "string \<times> endpoint"
  obtain s e where p: "p = (s, e)" by fastforce
  show "p \<in> reg_abs (replace_map R d) \<longleftrightarrow> p \<in> desired_abs d"
    using replace_map_get [OF assms, of s] bucket_get [OF bucket_from_wf]
    by (auto simp: p reg_abs_def desired_abs_def bucket_of_def split: option.split)
qed

text \<open>The equality test is exact when no service is asked for the same endpoint twice.\<close>

lemma equalLocked_iff:
  assumes R: "range_if_ok R" and m: "services_wf m" and d: "gm_wf d"
  shows "equalLocked R d m \<longleftrightarrow> length m = length d \<and>
    (\<forall>s l. gm_get d s = Some l \<longrightarrow>
       card (bucket_set (bucket_of m s)) = length l \<and> set l \<subseteq> bucket_set (bucket_of m s))"
proof -
  have "set (rng_desired R d) = set d"
    using R by (simp add: range_if_ok_def range_order_set)
  with d show ?thesis
    unfolding equalLocked_def Let_def list_all_iff bucket_has [OF bucket_wf_of [OF m]]
    by (auto simp: gm_get_set bucket_length [OF bucket_wf_of [OF m]])
qed

lemma desired_abs_services: "desired_wf d \<Longrightarrow> fst ` desired_abs d = dom (gm_get d)"
  by (force simp: desired_abs_def desired_wf_def gm_get_set list_all_iff neq_Nil_conv)

text \<open>A registry found equal has at least the desired endpoints, and of no other services.\<close>

lemma equalLocked_covers:
  assumes "range_if_ok R" "services_wf m" "gm_wf d" "equalLocked R d m"
  shows "desired_abs d \<subseteq> reg_abs m"
proof clarify
  fix s e assume "(s, e) \<in> desired_abs d"
  then obtain l where "gm_get d s = Some l" "e \<in> set l" by (auto simp: desired_abs_def split: option.splits)
  with assms(4) show "(s, e) \<in> reg_abs m"
    unfolding equalLocked_iff [OF assms(1-3)] reg_abs_bucket [OF assms(2)] by blast
qed

lemma equalLocked_doms:
  assumes R: "range_if_ok R" and m: "services_wf m" and d: "desired_wf d" and eq: "equalLocked R d m"
  shows "dom (gm_get d) = dom (gm_get m)"
proof -
  from d have gd: "gm_wf d" by (simp add: desired_wf_def)
  note E = eq [unfolded equalLocked_iff [OF R m gd]]
  have "dom (gm_get d) \<subseteq> dom (gm_get m)"
    using equalLocked_covers [OF R m gd eq] reg_abs_services [OF m] desired_abs_services [OF d] by force
  moreover have "card (dom (gm_get d)) = card (dom (gm_get m))"
    using E gm_len_card gd m by (metis services_wf_gm)
  ultimately show ?thesis by (simp add: card_subset_eq)
qed

text \<open>Of a service whose list repeats nothing it has exactly the desired endpoints.\<close>

lemma equalLocked_service:
  assumes "range_if_ok R" "services_wf m" "gm_wf d" "equalLocked R d m" "gm_get d s = Some l" "distinct l"
  shows "(s, e) \<in> reg_abs m \<longleftrightarrow> e \<in> set l"
proof -
  have "card (bucket_set (bucket_of m s)) = card (set l)" "set l \<subseteq> bucket_set (bucket_of m s)"
    using assms(4-6) unfolding equalLocked_iff [OF assms(1-3)] by (auto simp: distinct_card)
  then have "bucket_set (bucket_of m s) = set l" by (metis card_subset_eq finite_bucket_set)
  then show ?thesis using assms(2) by (simp add: reg_abs_bucket)
qed

lemma equalLocked_sound:
  assumes R: "range_if_ok R" and m: "services_wf m" and d: "desired_wf d" and dd: "desired_distinct d"
    and eq: "equalLocked R d m"
  shows "reg_abs m = desired_abs d"
proof -
  from d have gd: "gm_wf d" by (simp add: desired_wf_def)
  have "(s, e) \<in> reg_abs m \<longleftrightarrow> (s, e) \<in> desired_abs d" for s e
  proof (cases "gm_get d s")
    case None
    with equalLocked_doms [OF R m d eq] have "gm_get m s = None" by (metis domIff)
    with None show ?thesis by (simp add: reg_abs_def desired_abs_def bucket_of_def)
  next
    case (Some l)
    with dd gd have "distinct l" by (auto simp: desired_distinct_def list_all_iff gm_get_set)
    from equalLocked_service [OF R m gd eq Some this] Some show ?thesis by (simp add: desired_abs_def)
  qed
  then show ?thesis by auto
qed

lemma equalLocked_complete:
  assumes R: "range_if_ok R" and m: "services_wf m" and d: "desired_wf d" and dd: "desired_distinct d"
    and eq: "reg_abs m = desired_abs d"
  shows "equalLocked R d m"
proof -
  from d have gd: "gm_wf d" by (simp add: desired_wf_def)
  have "dom (gm_get m) = dom (gm_get d)"
    using reg_abs_services [OF m] desired_abs_services [OF d] eq by simp
  then have "length m = length d" using gm_len_card gd m by (metis services_wf_gm)
  moreover have "bucket_set (bucket_of m s) = set l" if "gm_get d s = Some l" for s l
    using that eq reg_abs_bucket [OF m, of s] by (auto simp: desired_abs_def)
  moreover have "distinct l" if "gm_get d s = Some l" for s l
    using that dd gd by (auto simp: desired_distinct_def list_all_iff gm_get_set)
  ultimately show ?thesis
    unfolding equalLocked_iff [OF R m gd] by (simp add: distinct_card)
qed

end
