(* ===== verification/Xds_Push.thy ===== *)
theory Xds_Push
  imports Xds_Snapshot
begin

text \<open>
  Pushing snapshots. The contract of the snapshot cache (go-control-plane, not part of the
  sources) is the locale \<open>snapshot_cache\<close>: a successful \<open>SetSnapshot\<close> makes the snapshot the
  current one of the node. Under it every method that returns no error leaves Envoy with the
  snapshot of the registry, when methods run one after the other. The second half models the
  methods as they interleave: the critical section and the push are separate steps.
\<close>

section \<open>One method after the other\<close>

locale snapshot_cache =
  fixes C :: "'c cache_if"
    and current :: "'c \<Rightarrow> snapshot option"
  assumes set_ok: "run_state (cache_SetSnapshot C NodeID snap) c = (None, c') \<Longrightarrow> current c' = Some snap"
    and set_err: "run_state (cache_SetSnapshot C NodeID snap) c = (Some e, c') \<Longrightarrow> current c' = current c"
begin

lemma push_ok: "fst (pushSnapshot C snap r) = None \<Longrightarrow> current (reg_cache (snd (pushSnapshot C snap r))) = Some snap"
  by (auto simp: pushSnapshot_def split: option.splits prod.splits dest: set_ok)

lemma push_err: "pushSnapshot C snap r = (Some e, r') \<Longrightarrow> current (reg_cache r') = current (reg_cache r)"
  by (auto simp: pushSnapshot_def split: option.splits prod.splits dest: set_err)

lemma Register_current:
  "Register C R t s e r = (None, r') \<Longrightarrow>
     current (reg_cache r') = Some (built R t (r\<lparr>reg_services := reg_services r'\<rparr>))"
  using Register_services [of C R t s e r]
  by (auto simp: Register_def built_def case_prod_beta prod_eq_iff push_ok)

lemma Unregister_current:
  "Unregister C R t s e r = (None, r') \<Longrightarrow>
     current (reg_cache r') = Some (built R t (r\<lparr>reg_services := reg_services r'\<rparr>))"
  using Unregister_services [of C R t s e r]
  by (auto simp: Unregister_def built_def case_prod_beta prod_eq_iff push_ok)

lemma PushEmpty_current:
  "PushEmpty C R t r = (None, r') \<Longrightarrow> current (reg_cache r') = Some (built R t r)"
  by (auto simp: PushEmpty_def built_def case_prod_beta prod_eq_iff push_ok)

lemma ReplaceAll_current:
  "ReplaceAll C R t d r = ((True, None), r') \<Longrightarrow>
     current (reg_cache r') = Some (built R t (r\<lparr>reg_services := reg_services r'\<rparr>))"
  using ReplaceAll_services [of C R t d r]
  by (auto simp: ReplaceAll_def built_def case_prod_beta prod_eq_iff push_ok split: if_splits)

lemma ReplaceAll_refused:
  "ReplaceAll C R t d r = ((ch, Some e), r') \<Longrightarrow> current (reg_cache r') = current (reg_cache r)"
  using push_err [of "built R t (r\<lparr>reg_services := replace_map R d\<rparr>)" "snd (buildLocked R t (r\<lparr>reg_services := replace_map R d\<rparr>))" e r']
  by (auto simp: ReplaceAll_def built_def case_prod_beta prod_eq_iff split: if_splits)

end

text \<open>
  The cache that keeps the last snapshot set for the node and finds every snapshot consistent:
  the behaviour go-control-plane documents for the snapshots of this program, whose route
  configuration names are exactly those its listener asks for.
\<close>

definition simple_cache :: "snapshot option cache_if" where
  "simple_cache =
     \<lparr>cache_Consistent =
        (\<lambda>snap. if rc_Name (snap_routes snap) = hcm_RouteConfigName (ls_Filter (snap_listener snap))
                then None else Some (NewErr ''mismatched reference and resource names'')),
      cache_SetSnapshot = (\<lambda>node snap. State (\<lambda>c. (None, Some snap)))\<rparr>"

interpretation sc: snapshot_cache simple_cache "\<lambda>c. c"
  by unfold_locales (simp_all add: simple_cache_def)

lemma simple_cache_accepts: "cache_Consistent simple_cache (built R t r) = None"
  by (simp add: simple_cache_def built_def buildLocked_def resources_of_def makeListener_def Let_def)

lemma simple_cache_push: "pushSnapshot simple_cache (built R t r) r' = (None, r'\<lparr>reg_cache := Some (built R t r)\<rparr>)"
  using simple_cache_accepts [of R t r] by (simp add: pushSnapshot_def) (simp add: simple_cache_def)

section \<open>Methods that interleave\<close>

text \<open>
  \<open>r.mu\<close> is released before \<open>pushSnapshot\<close>, so a method is two steps: \<open>Locked\<close>, the critical
  section, which leaves a snapshot to push, and \<open>Pushed\<close>, the call to the cache. \<open>inflight\<close>
  holds the snapshots of the methods that are between the two. In the source any of them may be
  pushed next (\<open>fifo = False\<close>); \<open>fifo = True\<close> are the runs whose pushes come in build order.
\<close>

record 'c push_sys =
  ps_reg :: "'c registry"
  ps_inflight :: "snapshot list"

definition lock_step :: "range_if \<Rightarrow> int \<Rightarrow> services \<Rightarrow> 'c push_sys \<Rightarrow> 'c push_sys" where
  "lock_step R t m ps =
     (let (snap, r) = buildLocked R t ((ps_reg ps)\<lparr>reg_services := m\<rparr>)
      in \<lparr>ps_reg = r, ps_inflight = ps_inflight ps @ [snap]\<rparr>)"

definition push_step :: "'c cache_if \<Rightarrow> nat \<Rightarrow> 'c push_sys \<Rightarrow> 'c push_sys" where
  "push_step C i ps =
     \<lparr>ps_reg = snd (pushSnapshot C (ps_inflight ps ! i) (ps_reg ps)),
      ps_inflight = take i (ps_inflight ps) @ drop (Suc i) (ps_inflight ps)\<rparr>"

text \<open>The methods are these two steps, one after the other.\<close>

definition two_steps :: "'c cache_if \<Rightarrow> range_if \<Rightarrow> int \<Rightarrow> services \<Rightarrow> 'c registry \<Rightarrow> 'c registry" where
  "two_steps C R t m r = ps_reg (push_step C 0 (lock_step R t m \<lparr>ps_reg = r, ps_inflight = []\<rparr>))"

lemma methods_are_two_steps:
  "snd (Register C R t s e r) = two_steps C R t (register_map s e (reg_services r)) r"
  "snd (Unregister C R t s e r) = two_steps C R t (unregister_map s e (reg_services r)) r"
  "snd (PushEmpty C R t r) = two_steps C R t (reg_services r) r"
  "snd (ReplaceAll C R t d r) =
     (if equalLocked R d (reg_services r) then r else two_steps C R t (replace_map R d) r)"
  by (simp_all add: two_steps_def Register_def Unregister_def PushEmpty_def ReplaceAll_def push_step_def lock_step_def
      case_prod_beta Let_def)

inductive push_act :: "'c cache_if \<Rightarrow> range_if \<Rightarrow> bool \<Rightarrow> 'c push_sys \<Rightarrow> 'c push_sys \<Rightarrow> bool" for C R fifo ps where
  locked_register: "push_act C R fifo ps (lock_step R t (register_map s e (reg_services (ps_reg ps))) ps)"
| locked_unregister: "push_act C R fifo ps (lock_step R t (unregister_map s e (reg_services (ps_reg ps))) ps)"
| locked_empty: "push_act C R fifo ps (lock_step R t (reg_services (ps_reg ps)) ps)"
| locked_replace: "desired_wf d \<Longrightarrow> \<not> equalLocked R d (reg_services (ps_reg ps)) \<Longrightarrow>
    push_act C R fifo ps (lock_step R t (replace_map R d) ps)"
| pushed: "i < length (ps_inflight ps) \<Longrightarrow> fifo \<longrightarrow> i = 0 \<Longrightarrow> push_act C R fifo ps (push_step C i ps)"

definition push_new :: "'c \<Rightarrow> 'c push_sys" where
  "push_new c = \<lparr>ps_reg = NewRegistry c, ps_inflight = []\<rparr>"

text \<open>The states that can be reached on a new cache \<open>c\<close>.\<close>

definition push_run :: "'c cache_if \<Rightarrow> range_if \<Rightarrow> bool \<Rightarrow> 'c \<Rightarrow> 'c push_sys \<Rightarrow> bool" where
  "push_run C R fifo c ps \<longleftrightarrow> (push_act C R fifo)\<^sup>*\<^sup>* (push_new c) ps"

lemma push_run_step: "push_run C R fifo c ps \<Longrightarrow> push_act C R fifo ps ps' \<Longrightarrow> push_run C R fifo c ps'"
  unfolding push_run_def by (rule rtranclp.rtrancl_into_rtrancl)

lemma push_run_induct [consumes 1, case_names start step]:
  assumes "push_run C R fifo c ps" "P (push_new c)"
    and "\<And>ps ps'. push_run C R fifo c ps \<Longrightarrow> P ps \<Longrightarrow> push_act C R fifo ps ps' \<Longrightarrow> P ps'"
  shows "P ps"
  using assms(1) unfolding push_run_def
proof (induction rule: rtranclp_induct)
  case (step ps ps')
  then show ?case using assms(3) by (simp add: push_run_def)
qed (rule assms(2))

text \<open>What Envoy would be told about the present registry.\<close>

definition up_to_date :: "snapshot option push_sys \<Rightarrow> bool" where
  "up_to_date ps \<longleftrightarrow>
     (case reg_cache (ps_reg ps) of None \<Rightarrow> False
      | Some snap \<Rightarrow> (snap_clusters snap, snap_routes snap) =
          resources_spec (reg_abs (reg_services (ps_reg ps))))"

lemma lock_step_services [simp]: "reg_services (ps_reg (lock_step R t m ps)) = m"
  using buildLocked_services [of R t "(ps_reg ps)\<lparr>reg_services := m\<rparr>"]
  by (simp add: lock_step_def case_prod_beta)

lemma lock_step_inflight:
  "ps_inflight (lock_step R t m ps) = ps_inflight ps @ [built R t ((ps_reg ps)\<lparr>reg_services := m\<rparr>)]"
  by (simp add: lock_step_def case_prod_beta built_def)

lemma lock_step_cache [simp]: "reg_cache (ps_reg (lock_step R t m ps)) = reg_cache (ps_reg ps)"
  by (simp add: lock_step_def case_prod_beta)

lemma push_step_services [simp]: "reg_services (ps_reg (push_step C i ps)) = reg_services (ps_reg ps)"
  by (simp add: push_step_def)

lemma push_act_wf: "range_if_ok R \<Longrightarrow> push_act C R fifo ps ps' \<Longrightarrow> services_wf (reg_services (ps_reg ps)) \<Longrightarrow>
    services_wf (reg_services (ps_reg ps'))"
  by (erule push_act.cases) (simp_all add: services_wf_register services_wf_unregister replace_map_wf)

text \<open>The registry itself stays well formed under every interleaving.\<close>

lemma push_run_wf: "range_if_ok R \<Longrightarrow> push_run C R fifo c ps \<Longrightarrow> services_wf (reg_services (ps_reg ps))"
proof (rotate_tac, induction rule: push_run_induct)
  case start
  then show ?case by (simp add: push_new_def NewRegistry_def)
qed (rule push_act_wf)

text \<open>A step adds at most the snapshot of the state it leads to.\<close>

lemma push_act_inflight:
  fixes ps :: "'c push_sys"
  assumes "push_act C R fifo ps ps'" "snap \<in> set (ps_inflight ps')"
  shows "snap \<in> set (ps_inflight ps) \<or> (\<exists>t (r :: 'c registry). snap = built R t r \<and> reg_services r = reg_services (ps_reg ps'))"
proof -
  have "snap \<in> set (ps_inflight ps) \<or> (\<exists>t (r :: 'c registry). snap = built R t r \<and> reg_services r = m)"
    if "snap \<in> set (ps_inflight (lock_step R t m ps))" for t m
    using that unfolding lock_step_inflight
    by (auto intro!: exI [of _ t] exI [of _ "(ps_reg ps)\<lparr>reg_services := m\<rparr>"])
  with assms show ?thesis
    by cases (auto simp: push_step_def dest: in_set_takeD in_set_dropD)
qed

subsection \<open>Envoy has the state of some moment\<close>

text \<open>\<open>was C R fifo c ps snap\<close>: the snapshot is that of a state on the way from the start to \<open>ps\<close>.\<close>

definition was :: "'c cache_if \<Rightarrow> range_if \<Rightarrow> bool \<Rightarrow> 'c \<Rightarrow> 'c push_sys \<Rightarrow> snapshot \<Rightarrow> bool" where
  "was C R fifo c ps snap \<longleftrightarrow>
     (\<exists>ps0. push_run C R fifo c ps0 \<and> (push_act C R fifo)\<^sup>*\<^sup>* ps0 ps \<and>
        (snap_clusters snap, snap_routes snap) = resources_spec (reg_abs (reg_services (ps_reg ps0))))"

lemma was_step: "was C R fifo c ps snap \<Longrightarrow> push_act C R fifo ps ps' \<Longrightarrow> was C R fifo c ps' snap"
  unfolding was_def by (meson rtranclp.rtrancl_into_rtrancl)

lemma was_now:
  assumes "range_if_ok R" "push_run C R fifo c ps" "reg_services r = reg_services (ps_reg ps)"
  shows "was C R fifo c ps (built R t r)"
  unfolding was_def
  using assms buildLocked_resources [OF assms(1), of r t] push_run_wf [OF assms(1,2)]
  by (intro exI [of _ ps]) simp

context snapshot_cache
begin

lemma push_act_current:
  assumes "push_act C R fifo ps ps'"
  shows "current (reg_cache (ps_reg ps')) \<in> insert (current (reg_cache (ps_reg ps))) (Some ` set (ps_inflight ps))"
  using assms
proof cases
  case (pushed i)
  then show ?thesis
    using push_ok [of "ps_inflight ps ! i" "ps_reg ps"] push_err [of "ps_inflight ps ! i" "ps_reg ps"]
    by (cases "pushSnapshot C (ps_inflight ps ! i) (ps_reg ps)"; cases "fst (pushSnapshot C (ps_inflight ps ! i) (ps_reg ps))")
       (auto simp: push_step_def)
qed simp_all

lemma envoy_was:
  assumes "range_if_ok R" "push_run C R fifo c ps" "current c = None"
  shows "(\<forall>snap \<in> set (ps_inflight ps). was C R fifo c ps snap) \<and>
    (\<forall>snap. current (reg_cache (ps_reg ps)) = Some snap \<longrightarrow> was C R fifo c ps snap)"
  using assms(2)
proof (induction rule: push_run_induct)
  case start
  then show ?case by (simp add: push_new_def NewRegistry_def assms(3))
next
  case (step ps ps')
  have run: "push_run C R fifo c ps'" by (rule push_run_step [OF step.hyps(1,2)])
  have "was C R fifo c ps' snap" if "snap \<in> set (ps_inflight ps')" for snap
    using push_act_inflight [OF step.hyps(2) that] step.IH was_step [OF _ step.hyps(2)] was_now [OF assms(1) run] by blast
  moreover have "was C R fifo c ps' snap" if "current (reg_cache (ps_reg ps')) = Some snap" for snap
    using push_act_current [OF step.hyps(2)] that step.IH was_step [OF _ step.hyps(2)] by auto
  ultimately show ?case by blast
qed

end

subsection \<open>Pushes in order\<close>

text \<open>
  When the pushes come in build order the newest snapshot, in flight or in the cache, is that of
  the present registry; so once nothing is in flight the cache is up to date.
\<close>

definition snap_of :: "services \<Rightarrow> snapshot \<Rightarrow> bool" where
  "snap_of m snap \<longleftrightarrow> (snap_clusters snap, snap_routes snap) = resources_spec (reg_abs m) \<and>
     cache_Consistent simple_cache snap = None"

definition newest :: "snapshot option push_sys \<Rightarrow> snapshot option" where
  "newest ps = (if ps_inflight ps = [] then reg_cache (ps_reg ps) else Some (last (ps_inflight ps)))"

lemma snap_of_built:
  "range_if_ok R \<Longrightarrow> services_wf (reg_services r) \<Longrightarrow> snap_of (reg_services r) (built R t r)"
  by (simp add: snap_of_def buildLocked_resources simple_cache_accepts)

lemma push_consistent:
  "cache_Consistent simple_cache snap = None \<Longrightarrow>
     pushSnapshot simple_cache snap r = (None, r\<lparr>reg_cache := Some snap\<rparr>)"
  by (simp add: pushSnapshot_def) (simp add: simple_cache_def)

lemma push_run_consistent:
  assumes "push_run simple_cache R fifo c ps"
  shows "\<forall>snap \<in> set (ps_inflight ps). cache_Consistent simple_cache snap = None"
  using assms
proof (induction rule: push_run_induct)
  case (step ps ps')
  then show ?case using push_act_inflight [OF step.hyps(2)] by (fastforce simp: simple_cache_accepts)
qed (simp add: push_new_def)

lemma newest_lock_step:
  assumes "range_if_ok R" "services_wf m"
  shows "\<exists>snap. newest (lock_step R t m ps) = Some snap \<and> snap_of m snap"
  using snap_of_built [of R "(ps_reg ps)\<lparr>reg_services := m\<rparr>" t] assms
  by (simp add: newest_def lock_step_inflight)

lemma newest_push_head:
  assumes "ps_inflight ps = snap # rest" "cache_Consistent simple_cache snap = None"
  shows "newest (push_step simple_cache 0 ps) = newest ps"
  using assms by (simp add: push_step_def newest_def push_consistent)

lemma fifo_newest:
  assumes R: "range_if_ok R" and run: "push_run simple_cache R True None ps"
  shows "(newest ps = None \<and> reg_services (ps_reg ps) = []) \<or>
    (\<exists>snap. newest ps = Some snap \<and> snap_of (reg_services (ps_reg ps)) snap)"
  using run
proof (induction rule: push_run_induct)
  case start
  then show ?case by (simp add: newest_def push_new_def NewRegistry_def)
next
  case (step ps ps')
  note wf = push_act_wf [OF R step.hyps(2) push_run_wf [OF R step.hyps(1)]]
  from step.hyps(2) show ?case
  proof cases
    case (pushed i)
    then obtain snap rest where f: "ps_inflight ps = snap # rest" by (cases "ps_inflight ps") auto
    with push_run_consistent [OF step.hyps(1)] have "newest (push_step simple_cache 0 ps) = newest ps"
      by (intro newest_push_head) auto
    with pushed step.IH show ?thesis by simp
  qed (use wf newest_lock_step [OF R] in simp_all)
qed

end
