(* ===== verification/Reconciler.thy ===== *)
theory Reconciler
  imports Xds_Push
begin

text \<open>
  \<open>internal/xds/reconciler.go\<close>: the safety net that replaces the registry by what the broker's
  job inventory says. The broker is the argument \<open>lister\<close> (the interface \<open>JobLister\<close>) over a
  world \<open>'b\<close>; the reconciler's own world is that of the broker next to the registry.
\<close>

section \<open>The desired state\<close>

definition buildDesired :: "job list \<Rightarrow> (string, endpoint list) gomap" where
  "buildDesired jobs =
     foldl (\<lambda>out j.
        if job_Status j \<noteq> StatusReady then out
        else case job_HTTP j of
               None \<Rightarrow> out
             | Some h \<Rightarrow>
                 gm_put (job_ServiceName j)
                   ((case gm_get out (job_ServiceName j) of None \<Rightarrow> [] | Some l \<Rightarrow> l) @
                    [Endpoint (http_Host h) (http_Port h)]) out) [] jobs"

definition countEndpoints :: "(string, endpoint list) gomap \<Rightarrow> nat" where
  "countEndpoints m = foldl (\<lambda>n (svc, eps). n + length eps) 0 m"

section \<open>One pass and the loop\<close>

definition Reconcile ::
  "('b, goerr + job list) state \<Rightarrow> 'c cache_if \<Rightarrow> range_if \<Rightarrow> int \<Rightarrow>
   ('b \<times> 'c registry, goerr option) state" where
  "Reconcile lister C R t =
     do {
       res \<leftarrow> on_part fst (\<lambda>b (_, r). (b, r)) lister;
       (case res of
          Inl err \<Rightarrow> State_Monad.return (Some (errorf_w ''list jobs'' err))
        | Inr jobs \<Rightarrow>
            do {
              (changed, err) \<leftarrow> on_part snd (\<lambda>r (b, _). (b, r)) (State (ReplaceAll C R t (buildDesired jobs)));
              State_Monad.return (map_option (errorf_w ''replace registry'') err)
            })
     }"

text \<open>
  \<open>Run\<close>: one pass, then one per tick until the context is done; \<open>ticks\<close> are the times of the
  ticks that arrive before that. An error is only logged. \<open>every = 0\<close> means no ticks, and
  \<open>time.NewTicker\<close> panics on a negative interval.
\<close>

fun reconcile_ticks ::
  "('b, goerr + job list) state \<Rightarrow> 'c cache_if \<Rightarrow> range_if \<Rightarrow> int list \<Rightarrow> ('b \<times> 'c registry, unit go) state" where
  "reconcile_ticks lister C R [] = State_Monad.return (Ret ())"
| "reconcile_ticks lister C R (t # ts) =
     do { _ \<leftarrow> Reconcile lister C R t; reconcile_ticks lister C R ts }"

definition Reconciler_Run ::
  "('b, goerr + job list) state \<Rightarrow> 'c cache_if \<Rightarrow> range_if \<Rightarrow> duration \<Rightarrow> int \<Rightarrow> int list \<Rightarrow>
   ('b \<times> 'c registry, unit go) state" where
  "Reconciler_Run lister C R every t0 ticks =
     do {
       _ \<leftarrow> Reconcile lister C R t0;
       (if every = 0 then State_Monad.return (Ret ())
        else if every < 0 then State_Monad.return Panic
        else reconcile_ticks lister C R ticks)
     }"

section \<open>What the inventory asks for\<close>

definition routable :: "job list \<Rightarrow> (string \<times> endpoint) list" where
  "routable jobs =
     List.map_filter (\<lambda>j. if job_Status j = StatusReady
        then map_option (\<lambda>h. (job_ServiceName j, Endpoint (http_Host h) (http_Port h))) (job_HTTP j)
        else None) jobs"

definition lookup_list :: "(string, endpoint list) gomap \<Rightarrow> string \<Rightarrow> endpoint list" where
  "lookup_list m s = (case gm_get m s of None \<Rightarrow> [] | Some l \<Rightarrow> l)"

definition desired_add :: "(string, endpoint list) gomap \<Rightarrow> string \<times> endpoint \<Rightarrow> (string, endpoint list) gomap" where
  "desired_add out p = gm_put (fst p) (lookup_list out (fst p) @ [snd p]) out"

lemma routable_Cons:
  "routable (j # jobs) =
     (if job_Status j = StatusReady
      then (case job_HTTP j of None \<Rightarrow> []
            | Some h \<Rightarrow> [(job_ServiceName j, Endpoint (http_Host h) (http_Port h))]) else []) @ routable jobs"
  by (simp add: routable_def List.map_filter_def split: option.split)

lemma buildDesired_fold: "buildDesired jobs = foldl desired_add [] (routable jobs)"
proof -
  have "foldl (\<lambda>out j.
        if job_Status j \<noteq> StatusReady then out
        else case job_HTTP j of None \<Rightarrow> out
             | Some h \<Rightarrow> gm_put (job_ServiceName j)
                   ((case gm_get out (job_ServiceName j) of None \<Rightarrow> [] | Some l \<Rightarrow> l) @
                    [Endpoint (http_Host h) (http_Port h)]) out) out jobs
      = foldl desired_add out (routable jobs)" for out
  proof (induction jobs arbitrary: out)
    case Nil
    then show ?case by (simp add: routable_def List.map_filter_def)
  next
    case (Cons j jobs)
    show ?case
    proof (cases "job_HTTP j")
      case None
      then show ?thesis by (simp add: routable_Cons Cons.IH)
    next
      case (Some h)
      then show ?thesis
        by (cases "job_Status j = StatusReady")
           (simp_all add: routable_Cons Cons.IH desired_add_def lookup_list_def)
    qed
  qed
  then show ?thesis by (simp add: buildDesired_def)
qed

text \<open>The list of a service is the endpoints of its routable jobs, in the order of the jobs.\<close>

lemma fold_desired:
  assumes "gm_wf out" "\<forall>s l. gm_get out s = Some l \<longrightarrow> l \<noteq> []"
  shows "gm_wf (foldl desired_add out ps) \<and>
    (\<forall>s l. gm_get (foldl desired_add out ps) s = Some l \<longrightarrow> l \<noteq> []) \<and>
    (\<forall>s. lookup_list (foldl desired_add out ps) s = lookup_list out s @ map snd (filter (\<lambda>p. fst p = s) ps))"
  using assms
proof (induction ps arbitrary: out)
  case Nil
  then show ?case by simp
next
  case (Cons p ps)
  have "gm_wf (desired_add out p)" "\<forall>s l. gm_get (desired_add out p) s = Some l \<longrightarrow> l \<noteq> []"
    using Cons.prems by (auto simp: desired_add_def)
  moreover have "lookup_list (desired_add out p) s =
      (if s = fst p then lookup_list out s @ [snd p] else lookup_list out s)" for s
    by (simp add: desired_add_def lookup_list_def)
  ultimately show ?case using Cons.IH [of "desired_add out p"] by auto
qed

lemma buildDesired_wf [simp]: "desired_wf (buildDesired jobs)"
  using fold_desired [of "[]" "routable jobs"]
  by (fastforce simp: buildDesired_fold desired_wf_def list_all_iff gm_get_set)

lemma buildDesired_lookup:
  "lookup_list (buildDesired jobs) s = map snd (filter (\<lambda>p. fst p = s) (routable jobs))"
  using fold_desired [of "[]" "routable jobs"] by (simp add: buildDesired_fold lookup_list_def)

lemma desired_abs_lookup: "(s, e) \<in> desired_abs d \<longleftrightarrow> e \<in> set (lookup_list d s)"
  by (cases "gm_get d s") (auto simp: desired_abs_def lookup_list_def)

lemma buildDesired_abs: "desired_abs (buildDesired jobs) = set (routable jobs)"
proof (rule set_eqI)
  fix p :: "string \<times> endpoint"
  show "p \<in> desired_abs (buildDesired jobs) \<longleftrightarrow> p \<in> set (routable jobs)"
    by (cases p) (force simp: desired_abs_lookup buildDesired_lookup)
qed

lemma distinct_filter_snd:
  "distinct (map snd (filter (\<lambda>p. fst p = s) ps))" if "distinct ps"
  using that by (induction ps) auto

lemma buildDesired_distinct: "distinct (routable jobs) \<Longrightarrow> desired_distinct (buildDesired jobs)"
proof -
  assume dis: "distinct (routable jobs)"
  have "distinct l" if "(s, l) \<in> set (buildDesired jobs)" for s l
  proof -
    from that have "gm_get (buildDesired jobs) s = Some l"
      using buildDesired_wf [of jobs] by (simp add: desired_wf_def gm_get_set)
    then have "l = lookup_list (buildDesired jobs) s" by (simp add: lookup_list_def)
    with dis show ?thesis by (simp add: buildDesired_lookup distinct_filter_snd)
  qed
  then show ?thesis by (auto simp: desired_distinct_def list_all_iff)
qed

lemma foldl_add_lengths: "foldl (\<lambda>n (s, l). n + length l) k m = k + sum_list (map (length \<circ> snd) m)"
  by (induction m arbitrary: k) (auto simp: add.assoc)

lemma desired_add_wf [simp]: "gm_wf out \<Longrightarrow> gm_wf (desired_add out p)"
  by (simp add: desired_add_def)

lemma length_desired_add:
  assumes "gm_wf out"
  shows "sum_list (map (length \<circ> snd) (desired_add out p)) = Suc (sum_list (map (length \<circ> snd) out))"
proof -
  have "sum_list (map (length \<circ> snd) (gm_put s v m)) + length (lookup_list m s) =
      sum_list (map (length \<circ> snd) m) + length v" if "gm_wf m" for s v m
    using that
    by (induction m) (auto simp: gm_put_def gm_wf_def lookup_list_def gm_get_def)
  from this [OF assms, of "fst p" "lookup_list out (fst p) @ [snd p]"]
  show ?thesis by (simp add: desired_add_def)
qed

lemma countEndpoints_routable: "countEndpoints (buildDesired jobs) = length (routable jobs)"
proof -
  have "gm_wf out \<Longrightarrow> sum_list (map (length \<circ> snd) (foldl desired_add out ps)) =
      sum_list (map (length \<circ> snd) out) + length ps" for out ps
    by (induction ps arbitrary: out) (simp_all add: length_desired_add del: o_apply)
  from this [of "[]" "routable jobs"] show ?thesis
    by (simp add: countEndpoints_def foldl_add_lengths buildDesired_fold)
qed

end
