(* ===== verification/Xds_Admin.thy ===== *)
theory Xds_Admin
  imports Reconciler Interfaces
begin

text \<open>
  The two HTTP seams of the control plane: the admin API of \<open>cmd/xds/main.go\<close> with its client
  \<open>internal/xdsclient\<close>, and \<open>internal/brokerclient\<close>, which reads the broker's inventory. The
  transport is the record \<open>http_if\<close>, an argument: building a request may fail, and sending it gives
  an error or a status, its text and a body. Bodies are the values that \<open>encoding/json\<close> writes
  and reads. Request paths are cleaned paths (\<open>ServeMux\<close> redirects any other). Also the helpers that read
  the environment.
\<close>

section \<open>The admin API\<close>

record endpointReq =
  er_Service :: string
  er_Host :: string
  er_Port :: int

text \<open>\<open>decode\<close>; the argument is the result of decoding the JSON body.\<close>

definition decode :: "endpointReq option \<Rightarrow> string + endpointReq" where
  "decode b =
     (case b of
        None \<Rightarrow> Inl ''invalid JSON''
      | Some req \<Rightarrow>
          if er_Service req = [] then Inl ''service is required''
          else if er_Host req = [] then Inl ''host is required''
          else if er_Port req \<le> 0 \<or> er_Port req > 65535 then Inl ''port must be 1..65535''
          else Inr req)"

datatype admin_body =
    AdError string
  | AdStatus string
  | AdRoutes "(string, endpoint list) gomap"
  | AdText string

type_synonym admin_resp = "int \<times> admin_body"

definition admin_register :: "'c cache_if \<Rightarrow> range_if \<Rightarrow> int \<Rightarrow> endpointReq option \<Rightarrow> ('c registry, admin_resp) state" where
  "admin_register C R t b =
     (case decode b of
        Inl msg \<Rightarrow> State_Monad.return (400, AdError msg)
      | Inr req \<Rightarrow> do {
          err \<leftarrow> State (Register C R t (er_Service req) (Endpoint (er_Host req) (er_Port req)));
          State_Monad.return
            (if err \<noteq> None then (500, AdError ''register failed'') else (200, AdStatus ''registered''))
        })"

definition admin_unregister :: "'c cache_if \<Rightarrow> range_if \<Rightarrow> int \<Rightarrow> endpointReq option \<Rightarrow> ('c registry, admin_resp) state" where
  "admin_unregister C R t b =
     (case decode b of
        Inl msg \<Rightarrow> State_Monad.return (400, AdError msg)
      | Inr req \<Rightarrow> do {
          err \<leftarrow> State (Unregister C R t (er_Service req) (Endpoint (er_Host req) (er_Port req)));
          State_Monad.return
            (if err \<noteq> None then (500, AdError ''unregister failed'') else (200, AdStatus ''unregistered''))
        })"

definition admin_list :: "range_if \<Rightarrow> ('c registry, admin_resp) state" where
  "admin_list R = State (\<lambda>r. ((200, AdRoutes (Registry_List R r)), r))"

definition admin_routes ::
  "'c cache_if \<Rightarrow> range_if \<Rightarrow> int \<Rightarrow> string \<Rightarrow> string \<Rightarrow> endpointReq option \<Rightarrow> ('c registry, admin_resp) state" where
  "admin_routes C R t m path b =
     (let get = (m = ''GET'' \<or> m = ''HEAD''); refuse = State_Monad.return (405, AdText ''Method Not Allowed'') in
      if path = ''/healthz'' then (if get then State_Monad.return (200, AdStatus ''ok'') else refuse)
      else if path = ''/v1/routes'' then (if get then admin_list R else refuse)
      else if path = ''/v1/register'' then (if m = ''POST'' then admin_register C R t b else refuse)
      else if path = ''/v1/unregister'' then (if m = ''POST'' then admin_unregister C R t b else refuse)
      else State_Monad.return (404, AdText ''404 page not found''))"

section \<open>The worker's client\<close>

record httpResp =
  hr_StatusCode :: int
  hr_Status :: string
  hr_Body :: string

record ('w, 'b) http_if =
  ht_NewRequest :: "string \<Rightarrow> string \<Rightarrow> goerr option"
  ht_Do :: "string \<Rightarrow> string \<Rightarrow> 'b \<Rightarrow> ('w, goerr + httpResp) state"

definition bytesToString :: "string \<Rightarrow> string" where
  "bytesToString b = (if length b > 200 then take 200 b else b)"

definition post_error :: "string \<Rightarrow> httpResp \<Rightarrow> goerr" where
  "post_error path resp =
     NewErr (''xds '' @ path @ '' -> '' @ hr_Status resp @ '': '' @ bytesToString (hr_Body resp))"

definition post :: "('w, endpointReq option) http_if \<Rightarrow> string \<Rightarrow> string \<Rightarrow> endpointReq \<Rightarrow> ('w, goerr option) state" where
  "post H base path b =
     (case ht_NewRequest H ''POST'' (base @ path) of
        Some err \<Rightarrow> State_Monad.return (Some err)
      | None \<Rightarrow> do {
          r \<leftarrow> ht_Do H ''POST'' (base @ path) (Some b);
          State_Monad.return
            (case r of
               Inl err \<Rightarrow> Some err
             | Inr resp \<Rightarrow> if hr_StatusCode resp \<ge> 400 then Some (post_error path resp) else None)
        })"

definition NewHTTP :: "('w, endpointReq option) http_if \<Rightarrow> string \<Rightarrow> 'w xds_if" where
  "NewHTTP H addr =
     (let base = ''http://'' @ addr in
      \<lparr>xds_Register = (\<lambda>service host port. post H base ''/v1/register''
           \<lparr>er_Service = service, er_Host = host, er_Port = port\<rparr>),
       xds_Unregister = (\<lambda>service host port. post H base ''/v1/unregister''
           \<lparr>er_Service = service, er_Host = host, er_Port = port\<rparr>)\<rparr>)"

section \<open>The reconciler's client\<close>

definition broker_List ::
  "('w, unit) http_if \<Rightarrow> (string \<Rightarrow> goerr + job list) \<Rightarrow> string \<Rightarrow> ('w, goerr + job list) state" where
  "broker_List H dec addr =
     (let url = ''http://'' @ addr @ ''/v1/provision'' in
      case ht_NewRequest H ''GET'' url of
        Some err \<Rightarrow> State_Monad.return (Inl err)
      | None \<Rightarrow> do {
          r \<leftarrow> ht_Do H ''GET'' url ();
          State_Monad.return
            (case r of
               Inl err \<Rightarrow> Inl (errorf_w ''call broker'' err)
             | Inr resp \<Rightarrow>
                 if hr_StatusCode resp \<noteq> 200
                 then Inl (NewErr (''broker /v1/provision -> '' @ hr_Status resp))
                 else (case dec (hr_Body resp) of
                         Inl err \<Rightarrow> Inl (errorf_w ''decode response'' err)
                       | Inr jobs \<Rightarrow> Inr jobs))
        })"

section \<open>Environment\<close>

text \<open>\<open>getenv\<close> is \<open>os.Getenv\<close> (empty when unset) and \<open>parse\<close> is \<open>time.ParseDuration\<close>.\<close>

definition envOr :: "(string \<Rightarrow> string) \<Rightarrow> string \<Rightarrow> string \<Rightarrow> string" where
  "envOr getenv k def = (if getenv k \<noteq> [] then getenv k else def)"

definition envDur :: "(string \<Rightarrow> string) \<Rightarrow> (string \<Rightarrow> duration option) \<Rightarrow> string \<Rightarrow> duration \<Rightarrow> duration" where
  "envDur getenv parse k def =
     (let v = getenv k in if v = [] then def else (case parse v of None \<Rightarrow> def | Some d \<Rightarrow> d))"

definition hostname :: "string option \<Rightarrow> string" where
  "hostname h = (case h of Some n \<Rightarrow> n | None \<Rightarrow> ''worker'')"

section \<open>The seams in one piece\<close>

text \<open>
  A transport that carries requests to the admin API: it may lose a request or its reply, and the
  reply it hands back is the one the handler wrote.
\<close>

definition status_text :: "int \<Rightarrow> string" where
  "status_text c = show_int c"

definition admin_transport :: "'c cache_if \<Rightarrow> range_if \<Rightarrow> int \<Rightarrow> string \<Rightarrow> ('c registry, endpointReq option) http_if" where
  "admin_transport C R t addr =
     \<lparr>ht_NewRequest = (\<lambda>_ _. None),
      ht_Do = (\<lambda>m url b. do {
        (code, body) \<leftarrow> admin_routes C R t m (trim_prefix url (''http://'' @ addr)) b;
        State_Monad.return (Inr \<lparr>hr_StatusCode = code, hr_Status = status_text code, hr_Body = []\<rparr>)
      })\<rparr>"

end
