(* ===== verification/Control_Plane.thy ===== *)
theory Control_Plane
  imports Reconciler Xds_Admin
begin

text \<open>
  The guarantees of the control plane (\<open>internal/xds\<close>, the admin API of \<open>cmd/xds\<close> and its client),
  stated over the methods as the sources have them. The laws they rest on are in
  \<open>Xds_Registry_Laws\<close>, \<open>Xds_Snapshot\<close>, \<open>Xds_Push\<close> and \<open>Reconciler\<close>.
\<close>

section \<open>Concrete registries for the witnesses\<close>

definition rng_rev :: range_if where
  "rng_rev = \<lparr>rng_services = rev, rng_endpoints = rev, rng_desired = rev\<rparr>"

lemma rng_rev_ok [simp]: "range_if_ok rng_rev"
  by (simp add: range_if_ok_def rng_rev_def)

definition reg_example :: "snapshot option registry" where
  "reg_example = \<lparr>reg_services = [(''b'', [(''h:1'', Endpoint ''h'' 1), (''h:3'', Endpoint ''h'' 3)]),
     (''a'', [(''h:2'', Endpoint ''h'' 2)])], reg_version = 0, reg_cache = None\<rparr>"

lemma reg_example_wf [simp]: "services_wf (reg_services reg_example)"
  by (simp add: reg_example_def services_wf_def bucket_wf_def gm_wf_def endpointKey_def) code_simp

definition reg_live :: job where
  "reg_live = \<lparr>job_ID = ''1'', job_ServiceName = ''b'', job_Resource = ResourcePostgres, job_Status = StatusReady,
     job_Detail = [], job_Attempts = 1, job_Connection = None,
     job_HTTP = Some \<lparr>http_Host = ''h'', http_Port = 1\<rparr>, job_CreatedAt = 0, job_UpdatedAt = 0\<rparr>"

section \<open>The registry\<close>

text \<open>The methods themselves, cache and version included, keep the contract of a registry.\<close>

interpretation xm: service_registry "\<lambda>s e r. snd (Register C R t s e r)" "\<lambda>s e r. snd (Unregister C R t s e r)"
  "NewRegistry c" "\<lambda>r. services_wf (reg_services r)" "\<lambda>r. reg_abs (reg_services r)" for C R t c
  by unfold_locales
     (simp_all add: NewRegistry_def method_services services_wf_register services_wf_unregister)

text \<open>C15. The registry holds what the last call said: after any sequence of \<open>Register\<close> and \<open>Unregister\<close>
  calls on a new registry, whatever the cache answers and in whatever order Go ranges over its maps,
  a pair of service and endpoint is registered exactly when the last call about it was a
  registration.\<close>

theorem registry_last_call_wins:
  "p \<in> reg_abs (reg_services (replay (\<lambda>s e r. snd (Register C R t s e r))
       (\<lambda>s e r. snd (Unregister C R t s e r)) evs (NewRegistry c))) \<longleftrightarrow> last_says evs p = Some True"
  using xm.replay_last [where m = "NewRegistry c" and p = p and C = C and R = R and t = t and evs = evs]
  by (cases "last_says evs p") (simp_all add: NewRegistry_def)

text \<open>What a call of \<open>ReplaceAll\<close> leads to, for every desired state that a Go map can hold.\<close>

lemma ReplaceAll_law:
  assumes "range_if_ok R" "services_wf (reg_services r)" "gm_wf d"
    and "ReplaceAll C R t d r = ((changed, err), r')"
  shows "if changed then reg_abs (reg_services r') = desired_abs d else r' = r \<and> err = None"
    and "changed \<longleftrightarrow> \<not> equalLocked R d (reg_services r)"
    and "desired_abs d \<subseteq> reg_abs (reg_services r')"
    and "reg_services r' = (if changed then replace_map R d else reg_services r)"
proof -
  show ch: "changed \<longleftrightarrow> \<not> equalLocked R d (reg_services r)"
    using ReplaceAll_changed [of C R t d r] assms(4) by simp
  have r': "reg_services r' = (if equalLocked R d (reg_services r) then reg_services r else replace_map R d)"
    using ReplaceAll_services [of C R t d r] assms(4) by simp
  with ch show "reg_services r' = (if changed then replace_map R d else reg_services r)" by simp
  show "if changed then reg_abs (reg_services r') = desired_abs d else r' = r \<and> err = None"
  proof (cases changed)
    case True
    with ch r' replace_map_abs [OF assms(1,3)] show ?thesis by simp
  next
    case False
    with ch assms(4) show ?thesis by (simp add: ReplaceAll_quiet)
  qed
  show "desired_abs d \<subseteq> reg_abs (reg_services r')"
    using r' equalLocked_covers [OF assms(1-3)] replace_map_abs [OF assms(1,3)] by simp
qed

lemma ReplaceAll_nonempty_law:
  assumes "range_if_ok R" "services_wf (reg_services r)" "desired_wf d"
    and "ReplaceAll C R t d r = ((changed, err), r')"
  shows "services_wf (reg_services r')" "fst ` reg_abs (reg_services r') = fst ` desired_abs d"
    and "gm_get d s = Some l \<Longrightarrow> distinct l \<Longrightarrow> (s, e) \<in> reg_abs (reg_services r') \<longleftrightarrow> e \<in> set l"
proof -
  have d: "gm_wf d" using assms(3) by (simp add: desired_wf_def)
  note law = ReplaceAll_law [OF assms(1,2) d assms(4)]
  show "services_wf (reg_services r')"
    using law(4) assms(2) replace_map_wf [OF assms(1,3)] by simp
  show "fst ` reg_abs (reg_services r') = fst ` desired_abs d"
  proof (cases changed)
    case True
    with law(1) show ?thesis by simp
  next
    case False
    with law(1,2) equalLocked_doms [OF assms(1-3)] show ?thesis
      by (simp add: reg_abs_services [OF assms(2)] desired_abs_services [OF assms(3)])
  qed
  show "(s, e) \<in> reg_abs (reg_services r') \<longleftrightarrow> e \<in> set l" if "gm_get d s = Some l" "distinct l"
  proof (cases changed)
    case True
    with law(1) that(1) show ?thesis by (simp add: desired_abs_def)
  next
    case False
    with law(1,2) equalLocked_service [OF assms(1,2) d _ that] show ?thesis by simp
  qed
qed

lemma ReplaceAll_exact_law:
  assumes "range_if_ok R" "services_wf (reg_services r)" "desired_wf d" "desired_distinct d"
    and "ReplaceAll C R t d r = ((changed, err), r')"
  shows "reg_abs (reg_services r') = desired_abs d" "changed \<longleftrightarrow> reg_abs (reg_services r) \<noteq> desired_abs d"
    and "ReplaceAll C R t' d r' = ((False, None), r')"
proof -
  have d: "gm_wf d" using assms(3) by (simp add: desired_wf_def)
  note law = ReplaceAll_law [OF assms(1,2) d assms(5)]
  have eq: "equalLocked R d (reg_services r) \<longleftrightarrow> reg_abs (reg_services r) = desired_abs d"
    using equalLocked_sound [OF assms(1-4)] equalLocked_complete [OF assms(1-4)] by blast
  with law(2) show "changed \<longleftrightarrow> reg_abs (reg_services r) \<noteq> desired_abs d" by simp
  with law(1) show abs: "reg_abs (reg_services r') = desired_abs d" by (cases changed) simp_all
  show "ReplaceAll C R t' d r' = ((False, None), r')"
    by (intro ReplaceAll_quiet equalLocked_complete [OF assms(1) _ assms(3,4) abs] ReplaceAll_nonempty_law(1) [OF assms(1-3,5)])
qed

text \<open>C16. \<open>ReplaceAll\<close>, for every desired state (a Go map of lists): either it reports a change, and then the registered
  pairs are exactly the desired ones, or it reports none and no error, and then the registry, version and cache
  included, is as it was and has at least the desired pairs. If no list is empty, the services are exactly the
  desired ones, and so are the endpoints of every service whose list repeats none. If moreover no list
  repeats an endpoint, the registered pairs are exactly the desired ones, a change is reported exactly when they
  differed before, and a second call does nothing. (A list that repeats an endpoint can hide a stale one:
  \<open>repeated_job_hides_drift\<close>.)\<close>

theorem ReplaceAll_exact:
  assumes "range_if_ok R" "services_wf (reg_services r)" "gm_wf d"
    and "ReplaceAll C R t d r = ((changed, err), r')"
  shows "(if changed then reg_abs (reg_services r') = desired_abs d
      else r' = r \<and> err = None \<and> desired_abs d \<subseteq> reg_abs (reg_services r)) \<and>
    (desired_wf d \<longrightarrow> services_wf (reg_services r') \<and> fst ` reg_abs (reg_services r') = fst ` desired_abs d \<and>
       (\<forall>s l. gm_get d s = Some l \<and> distinct l \<longrightarrow> {e. (s, e) \<in> reg_abs (reg_services r')} = set l)) \<and>
    (desired_wf d \<and> desired_distinct d \<longrightarrow> reg_abs (reg_services r') = desired_abs d \<and>
       (changed \<longleftrightarrow> reg_abs (reg_services r) \<noteq> desired_abs d) \<and> ReplaceAll C R t' d r' = ((False, None), r'))"
proof (intro conjI impI allI)
  show "if changed then reg_abs (reg_services r') = desired_abs d
      else r' = r \<and> err = None \<and> desired_abs d \<subseteq> reg_abs (reg_services r)"
    using ReplaceAll_law(1,3) [OF assms] by (auto split: if_splits)
  fix s l assume "desired_wf d" "gm_get d s = Some l \<and> distinct l"
  with ReplaceAll_nonempty_law(3) [OF assms(1,2) _ assms(4)]
  show "{e. (s, e) \<in> reg_abs (reg_services r')} = set l" by blast
qed (use ReplaceAll_nonempty_law(1,2) [OF assms(1,2) _ assms(4)] ReplaceAll_exact_law [OF assms(1,2) _ _ assms(4)] in auto)

theorem ReplaceAll_exact_witness:
  "reg_abs (reg_services (snd (ReplaceAll simple_cache rng_rev 9 [(''c'', [Endpoint ''h'' 4])] reg_example)))
     = {(''c'', Endpoint ''h'' 4)}"
proof -
  let ?d = "[(''c'', [Endpoint ''h'' 4])]"
  obtain ch err r' where run: "ReplaceAll simple_cache rng_rev 9 ?d reg_example = ((ch, err), r')"
    by (metis surj_pair)
  have d: "gm_wf ?d" "desired_wf ?d" "desired_distinct ?d" by (simp_all add: desired_wf_def desired_distinct_def gm_wf_def)
  have "reg_abs (reg_services r') = desired_abs ?d"
    using ReplaceAll_exact [OF rng_rev_ok reg_example_wf d(1) run] d(2,3) by blast
  then show ?thesis unfolding run by (auto simp: desired_abs_def gm_get_def split: if_splits)
qed

section \<open>The snapshot\<close>

text \<open>C12. For every order in which Go ranges over the maps, the clusters and routes that
  \<open>buildLocked\<close> computes are those of the registered pairs: one cluster and one route per
  service, sorted by name, each cluster with the endpoints of its service sorted by key. So two
  registries with the same pairs give Envoy the same configuration.\<close>

theorem snapshot_refines_registered_pairs:
  assumes "range_if_ok R" "services_wf (reg_services r)"
  shows "(snap_clusters (fst (buildLocked R t r)), snap_routes (fst (buildLocked R t r))) =
    resources_spec (reg_abs (reg_services r))"
  using buildLocked_resources [OF assms, of t] by (simp add: built_def)

theorem snapshot_refines_registered_pairs_witness:
  "(snap_clusters (fst (buildLocked rng_rev 7 reg_example)), snap_routes (fst (buildLocked rng_rev 7 reg_example))) =
    resources_spec (reg_abs (reg_services reg_example))"
  by (rule snapshot_refines_registered_pairs [OF rng_rev_ok reg_example_wf])

text \<open>Envoy never gets a dead route: every route of a snapshot leads to a cluster of the same
  snapshot with at least one endpoint, no two clusters share a name, and the listener asks for the
  route configuration that the snapshot holds.\<close>

lemma routes_lead_to_live_clusters:
  assumes "range_if_ok R" "services_wf (reg_services r)" "snap = fst (buildLocked R t r)"
  shows "\<forall>rt \<in> set (concat (map vh_Routes (rc_VirtualHosts (snap_routes snap)))).
      \<exists>cl \<in> set (snap_clusters snap). cl_Name cl = rt_Cluster rt \<and> cl_LbEndpoints cl \<noteq> []"
    and "distinct (map cl_Name (snap_clusters snap))"
    and "rc_Name (snap_routes snap) = hcm_RouteConfigName (ls_Filter (snap_listener snap))"
proof -
  let ?A = "reg_abs (reg_services r)" and ?S = "sorted_list_of_set (fst ` reg_abs (reg_services r))"
  have fin: "finite ?A" using assms(2) by simp
  have live: "sorted_list_of_set {e. (s, e) \<in> ?A} \<noteq> []" if "s \<in> fst ` ?A" for s
    using that fin by auto
  have cl: "snap_clusters snap = map (\<lambda>s. makeCluster s (map lb_of (sorted_list_of_set {e. (s, e) \<in> ?A}))) ?S"
    and rt: "snap_routes snap = routeConfig_for ?S" and ls: "snap_listener snap = makeListener"
    using buildLocked_resources [OF assms(1,2), of t] by (simp_all add: assms(3) built_def resources_spec_def Let_def)
  show "distinct (map cl_Name (snap_clusters snap))" by (simp add: cl comp_def makeCluster_def)
  show "rc_Name (snap_routes snap) = hcm_RouteConfigName (ls_Filter (snap_listener snap))"
    by (simp add: rt ls routeConfig_for_def makeListener_def)
  show "\<forall>rt \<in> set (concat (map vh_Routes (rc_VirtualHosts (snap_routes snap)))).
      \<exists>cl \<in> set (snap_clusters snap). cl_Name cl = rt_Cluster rt \<and> cl_LbEndpoints cl \<noteq> []"
    using fin live by (auto simp: rt cl routeConfig_for_def makePrefixRoute_def makeCluster_def)
qed

text \<open>C29. When no service name contains a slash, first-match routing sends every path under
  \<open>/service/\<close> to the cluster of that service.\<close>

theorem paths_reach_their_service:
  assumes "range_if_ok R" "services_wf (reg_services r)"
    and "\<forall>s \<in> fst ` reg_abs (reg_services r). slash_free s" "(s, e) \<in> reg_abs (reg_services r)"
  shows "route_for (snap_routes (fst (buildLocked R t r))) (''/'' @ s @ ''/'' @ rest) = Some s"
proof -
  let ?S = "sorted_list_of_set (fst ` reg_abs (reg_services r))"
  have "snap_routes (fst (buildLocked R t r)) = routeConfig_for ?S"
    using buildLocked_resources(2) [OF assms(1,2), of t] by (simp add: built_def resources_spec_def Let_def)
  moreover have "set ?S = fst ` reg_abs (reg_services r)" using assms(2) by simp
  moreover have "s \<in> fst ` reg_abs (reg_services r)" using assms(4) by force
  ultimately show ?thesis using route_for_spec [of ?S s rest] assms(3) by simp
qed

lemma reg_example_abs:
  "reg_abs (reg_services reg_example) = {(''b'', Endpoint ''h'' 1), (''b'', Endpoint ''h'' 3), (''a'', Endpoint ''h'' 2)}"
proof -
  have "(s, e) \<in> reg_abs (reg_services reg_example) \<longleftrightarrow>
      (s, e) \<in> {(''b'', Endpoint ''h'' 1), (''b'', Endpoint ''h'' 3), (''a'', Endpoint ''h'' 2)}" for s e
    using reg_abs_bucket [OF reg_example_wf, of s e]
    by (auto simp: reg_example_def bucket_of_def bucket_set_def gm_get_def image_iff split: if_splits)
  then show ?thesis by auto
qed

theorem paths_reach_their_service_witness:
  "route_for (snap_routes (fst (buildLocked rng_rev 7 reg_example))) ''/b/whoami'' = Some ''b''"
  using paths_reach_their_service [OF rng_rev_ok reg_example_wf, of "''b''" "Endpoint ''h'' 1" 7 "''whoami''"]
  by (simp add: reg_example_abs slash_free_def)

section \<open>Pushing\<close>

text \<open>C30. When snapshots reach the cache in the order in which they were built, however the critical
  sections and the pushes of concurrent methods interleave, Envoy's snapshot is that of the present
  registry as soon as no push is under way.\<close>

theorem ordered_pushes_converge:
  assumes "range_if_ok R" "push_run simple_cache R True None ps" "ps_inflight ps = []" "reg_cache (ps_reg ps) \<noteq> None"
  shows "up_to_date ps"
  using fifo_newest [OF assms(1,2)] assms(3,4) by (auto simp: newest_def up_to_date_def snap_of_def)

definition stale_locked :: "snapshot option push_sys" where
  "stale_locked =
     (let ps1 = lock_step rng_rev 1 (register_map ''a'' (Endpoint ''h'' 1) []) (push_new None)
      in lock_step rng_rev 2 (unregister_map ''a'' (Endpoint ''h'' 1) (reg_services (ps_reg ps1))) ps1)"

lemma stale_locked_run: "push_run simple_cache rng_rev fifo None stale_locked"
proof -
  have "push_run simple_cache rng_rev fifo None (push_new None)" by (simp add: push_run_def)
  from push_run_step [OF this push_act.locked_register, of 1 "''a''" "Endpoint ''h'' 1"]
  have "push_run simple_cache rng_rev fifo None (lock_step rng_rev 1 (register_map ''a'' (Endpoint ''h'' 1) []) (push_new None))"
    by (simp add: push_new_def NewRegistry_def)
  from push_run_step [OF this push_act.locked_unregister] show ?thesis by (simp add: stale_locked_def Let_def)
qed

lemma stale_locked_length: "length (ps_inflight stale_locked) = 2"
  by (simp add: stale_locked_def Let_def lock_step_inflight push_new_def)

lemma two_pushes:
  assumes "push_run C R fifo c ps" "length (ps_inflight ps) = 2" "i < 2" "fifo \<longrightarrow> i = 0"
  shows "push_run C R fifo c (push_step C 0 (push_step C i ps))"
  by (rule push_run_step [OF push_run_step [OF assms(1) push_act.pushed] push_act.pushed])
     (use assms(2-4) in \<open>auto simp: push_step_def\<close>)

lemmas stale_pushes = two_pushes [OF stale_locked_run stale_locked_length]

theorem ordered_pushes_converge_witness: "up_to_date (push_step simple_cache 0 (push_step simple_cache 0 stale_locked))"
proof (rule ordered_pushes_converge [OF rng_rev_ok])
  show "push_run simple_cache rng_rev True None (push_step simple_cache 0 (push_step simple_cache 0 stale_locked))"
    by (rule stale_pushes) simp_all
  show "ps_inflight (push_step simple_cache 0 (push_step simple_cache 0 stale_locked)) = []"
    using stale_locked_length by (simp add: push_step_def)
  show "reg_cache (ps_reg (push_step simple_cache 0 (push_step simple_cache 0 stale_locked))) \<noteq> None"
    by code_simp
qed

text \<open>C31. Without that order Envoy can be left behind for good: a registration and an unregistration of
  the same endpoint whose pushes overtake each other leave a route in Envoy's snapshot although the
  registry is empty, no push is under way, and the reconciler finds nothing to repair.\<close>

theorem overtaking_pushes_go_stale:
  "\<exists>ps. push_run simple_cache rng_rev False None ps \<and> ps_inflight ps = [] \<and> reg_services (ps_reg ps) = [] \<and> \<not> up_to_date ps \<and>
     ReplaceAll simple_cache rng_rev t (buildDesired []) (ps_reg ps) = ((False, None), ps_reg ps)"
proof (intro exI conjI)
  let ?ps = "push_step simple_cache 0 (push_step simple_cache 1 stale_locked)"
  show "push_run simple_cache rng_rev False None ?ps" by (rule stale_pushes) simp_all
  show "ps_inflight ?ps = []" by code_simp
  show empty: "reg_services (ps_reg ?ps) = []" by code_simp
  have "map_option (map cl_Name \<circ> snap_clusters) (reg_cache (ps_reg ?ps)) = Some [''a'']" by code_simp
  then show "\<not> up_to_date ?ps"
    unfolding up_to_date_def empty by (auto simp: resources_spec_def)
  show "ReplaceAll simple_cache rng_rev t (buildDesired []) (ps_reg ?ps) = ((False, None), ps_reg ?ps)"
    by (rule ReplaceAll_quiet, simp only: empty) code_simp
qed


text \<open>The witness: a cache that refuses every second snapshot, and pushes that overtake each other.\<close>

definition fussy_cache :: "(nat \<times> snapshot option) cache_if" where
  "fussy_cache =
     \<lparr>cache_Consistent = (\<lambda>_. None),
      cache_SetSnapshot = (\<lambda>node snap. State (\<lambda>(n, c).
        if even n then (None, (n + 1, Some snap)) else (Some (NewErr ''no stream''), (n + 1, c))))\<rparr>"

interpretation fc: snapshot_cache fussy_cache snd
  by unfold_locales (auto simp: fussy_cache_def split: if_splits)

definition fussy_run :: "(nat \<times> snapshot option) push_sys" where
  "fussy_run =
     push_step fussy_cache 0 (push_step fussy_cache 1
       (lock_step rng_rev 2 (register_map ''b'' (Endpoint ''h'' 2) (register_map ''a'' (Endpoint ''h'' 1) []))
         (lock_step rng_rev 1 (register_map ''a'' (Endpoint ''h'' 1) []) (push_new (0, None)))))"

lemma fussy_run: "push_run fussy_cache rng_rev False (0, None) fussy_run"
proof -
  let ?ps1 = "lock_step rng_rev 1 (register_map ''a'' (Endpoint ''h'' 1) []) (push_new (0, None))"
  let ?ps2 = "lock_step rng_rev 2 (register_map ''b'' (Endpoint ''h'' 2) (register_map ''a'' (Endpoint ''h'' 1) [])) ?ps1"
  have "push_run fussy_cache rng_rev False (0, None) (push_new (0, None))" by (simp add: push_run_def)
  from push_run_step [OF this push_act.locked_register, of 1 "''a''" "Endpoint ''h'' 1"]
  have "push_run fussy_cache rng_rev False (0, None) ?ps1" by (simp add: push_new_def NewRegistry_def)
  from push_run_step [OF this push_act.locked_register, of 2 "''b''" "Endpoint ''h'' 2"]
  have "push_run fussy_cache rng_rev False (0, None) ?ps2" by simp
  moreover have "length (ps_inflight ?ps2) = 2" by (simp add: lock_step_inflight push_new_def)
  ultimately show ?thesis unfolding fussy_run_def by (rule two_pushes) simp_all
qed


section \<open>Reconciliation\<close>

lemma desired_service:
  assumes "(s, e') \<in> set (routable jobs)"
  shows "gm_get (buildDesired jobs) s = Some (map snd (filter (\<lambda>p. fst p = s) (routable jobs)))"
proof -
  have "map snd (filter (\<lambda>p. fst p = s) (routable jobs)) \<noteq> []" using assms by (force simp: filter_empty_conv)
  then show ?thesis using buildDesired_lookup [of jobs s] by (auto simp: lookup_list_def split: option.splits)
qed

lemma distinct_of_service: "distinct (filter (\<lambda>p. fst p = s) ps) \<Longrightarrow> distinct (map snd (filter (\<lambda>p. fst p = s) ps))"
  using distinct_filter_snd [of "filter (\<lambda>p. fst p = s) ps" s] by simp

lemma Reconcile_heals_law:
  assumes "snapshot_cache C current" "range_if_ok R" "services_wf (reg_services r)"
    and "run_state lister b = (Inr jobs, b')"
    and "run_state (Reconcile lister C R t) (b, r) = (err, (b2, r'))"
  shows "b2 = b'" "services_wf (reg_services r')" "set (routable jobs) \<subseteq> reg_abs (reg_services r')"
    and "fst ` reg_abs (reg_services r') = fst ` set (routable jobs)"
    and "distinct (filter (\<lambda>p. fst p = s) (routable jobs)) \<Longrightarrow>
      (s, e) \<in> reg_abs (reg_services r') \<longleftrightarrow> (s, e) \<in> set (routable jobs)"
    and "r' = r \<and> err = None \<or> reg_abs (reg_services r') = set (routable jobs) \<and>
      (if err = None then \<exists>snap. current (reg_cache r') = Some snap \<and>
           (snap_clusters snap, snap_routes snap) = resources_spec (set (routable jobs))
       else current (reg_cache r') = current (reg_cache r))"
proof -
  obtain ch e r1 where run: "ReplaceAll C R t (buildDesired jobs) r = ((ch, e), r1)" by (metis surj_pair)
  have out: "err = map_option (errorf_w ''replace registry'') e" "b2 = b'" "r' = r1"
    using assms(5) by (simp_all add: Reconcile_def assms(4) run split: prod.splits)
  have wf: "gm_wf (buildDesired jobs)" using buildDesired_wf [of jobs] by (simp add: desired_wf_def)
  note law = ReplaceAll_law [OF assms(2,3) wf run, unfolded buildDesired_abs]
    and full = ReplaceAll_nonempty_law [OF assms(2,3) buildDesired_wf run, unfolded buildDesired_abs]
  show "b2 = b'" "services_wf (reg_services r')" "set (routable jobs) \<subseteq> reg_abs (reg_services r')"
    and svcs: "fst ` reg_abs (reg_services r') = fst ` set (routable jobs)"
    using out law(3) full by simp_all
  show "(s, e) \<in> reg_abs (reg_services r') \<longleftrightarrow> (s, e) \<in> set (routable jobs)"
    if dis: "distinct (filter (\<lambda>p. fst p = s) (routable jobs))" for s e
  proof (cases "s \<in> fst ` set (routable jobs)")
    case True
    then obtain e' where "(s, e') \<in> set (routable jobs)" by auto
    from full(3) [OF desired_service [OF this] distinct_of_service [OF dis], of e] show ?thesis
      unfolding out(3) by force
  next
    case False
    then have "s \<notin> fst ` reg_abs (reg_services r')" using svcs by simp
    with False show ?thesis by (force simp: image_iff)
  qed
  have "\<exists>snap. current (reg_cache r') = Some snap \<and>
          (snap_clusters snap, snap_routes snap) = resources_spec (set (routable jobs))" if "ch" "err = None"
  proof -
    from that out(1) have "ReplaceAll C R t (buildDesired jobs) r = ((True, None), r')" by (simp add: run out(3))
    from snapshot_cache.ReplaceAll_current [OF assms(1) this]
    have "current (reg_cache r') = Some (built R t (r\<lparr>reg_services := reg_services r'\<rparr>))" .
    moreover have "(snap_clusters (built R t (r\<lparr>reg_services := reg_services r'\<rparr>)),
        snap_routes (built R t (r\<lparr>reg_services := reg_services r'\<rparr>))) = resources_spec (set (routable jobs))"
    proof -
      have "reg_abs (reg_services r1) = set (routable jobs)" using that law(1) by simp
      with full(1) buildLocked_resources [OF assms(2), of "r\<lparr>reg_services := reg_services r'\<rparr>" t]
      show ?thesis by (simp add: out(3))
    qed
    ultimately show ?thesis by blast
  qed
  moreover have "current (reg_cache r') = current (reg_cache r)" if "err \<noteq> None"
    using that out snapshot_cache.ReplaceAll_refused [OF assms(1)] run by (cases e) auto
  ultimately show "r' = r \<and> err = None \<or> reg_abs (reg_services r') = set (routable jobs) \<and>
      (if err = None then \<exists>snap. current (reg_cache r') = Some snap \<and>
           (snap_clusters snap, snap_routes snap) = resources_spec (set (routable jobs))
       else current (reg_cache r') = current (reg_cache r))"
    using law(1) out by (cases ch) auto
qed


definition live_lister :: "(unit, goerr + job list) state" where
  "live_lister = State_Monad.return (Inr [reg_live])"

lemma routable_live: "routable [reg_live] = [(''b'', Endpoint ''h'' 1)]"
  by (simp add: routable_def reg_live_def List.map_filter_def)


text \<open>A pass over a registry that already matches the inventory does nothing: no new version, no
  push, no error.\<close>

lemma Reconcile_quiet:
  assumes "range_if_ok R" "services_wf (reg_services r)" "reg_abs (reg_services r) = set (routable jobs)"
    and "run_state lister b = (Inr jobs, b')" "distinct (routable jobs)"
  shows "run_state (Reconcile lister C R t) (b, r) = (None, (b', r))"
proof -
  have "equalLocked R (buildDesired jobs) (reg_services r)"
    using equalLocked_complete [OF assms(1,2) buildDesired_wf buildDesired_distinct [OF assms(5)]] assms(3)
    by (simp add: buildDesired_abs)
  then show ?thesis by (simp add: Reconcile_def assms(4) ReplaceAll_quiet)
qed

text \<open>When the broker cannot be reached the registry keeps its routes.\<close>

lemma Reconcile_unreachable:
  "run_state lister b = (Inl e, b') \<Longrightarrow>
     run_state (Reconcile lister C R t) (b, r) = (Some (errorf_w ''list jobs'' e), (b', r))"
  by (simp add: Reconcile_def)

text \<open>An inventory that lists a job twice can hide drift: with one routable job listed twice, a
  registry that also holds a stale endpoint of the service is taken for equal and stays as it is.\<close>

lemma repeated_job_hides_drift:
  "run_state (Reconcile (State_Monad.return (Inr [reg_live, reg_live])) simple_cache rng_rev t)
     ((), (NewRegistry None)\<lparr>reg_services := [(''b'', [(''h:1'', Endpoint ''h'' 1), (''h:3'', Endpoint ''h'' 3)])]\<rparr>) =
   (None, ((), (NewRegistry None)\<lparr>reg_services := [(''b'', [(''h:1'', Endpoint ''h'' 1), (''h:3'', Endpoint ''h'' 3)])]\<rparr>))
   \<and> (''b'', Endpoint ''h'' 3) \<in> reg_abs [(''b'', [(''h:1'', Endpoint ''h'' 1), (''h:3'', Endpoint ''h'' 3)])]
   \<and> (''b'', Endpoint ''h'' 3) \<notin> set (routable [reg_live, reg_live])"
proof -
  let ?m = "[(''b'', [(''h:1'', Endpoint ''h'' 1), (''h:3'', Endpoint ''h'' 3)])]"
  have "equalLocked rng_rev (buildDesired [reg_live, reg_live]) ?m" by code_simp
  then have "ReplaceAll simple_cache rng_rev t (buildDesired [reg_live, reg_live]) ((NewRegistry None)\<lparr>reg_services := ?m\<rparr>)
      = ((False, None), (NewRegistry None)\<lparr>reg_services := ?m\<rparr>)"
    by (intro ReplaceAll_quiet) simp
  moreover have "endpointKey (Endpoint ''h'' 3) = ''h:3''" by code_simp
  moreover have "routable [reg_live, reg_live] = [(''b'', Endpoint ''h'' 1), (''b'', Endpoint ''h'' 1)]"
    by (simp add: routable_def reg_live_def List.map_filter_def)
  ultimately show ?thesis by (simp add: Reconcile_def reg_abs_def bucket_of_def gm_get_def)
qed

section \<open>The admin API\<close>

lemma routes_path:
  "trim_prefix ((''http://'' @ addr) @ path) (''http://'' @ addr) = path"
  by (rule trim_prefix_append)

definition req_ok :: "string \<Rightarrow> string \<Rightarrow> int \<Rightarrow> bool" where
  "req_ok s h p \<longleftrightarrow> s \<noteq> [] \<and> h \<noteq> [] \<and> 0 < p \<and> p \<le> 65535"

lemma decode_req:
  "decode (Some \<lparr>er_Service = s, er_Host = h, er_Port = p\<rparr>) = Inr \<lparr>er_Service = s, er_Host = h, er_Port = p\<rparr>" if "req_ok s h p"
  using that by (simp add: decode_def req_ok_def)

lemma decode_bad:
  "\<not> req_ok s h p \<Longrightarrow> \<exists>m. decode (Some \<lparr>er_Service = s, er_Host = h, er_Port = p\<rparr>) = Inl m"
  by (auto simp: decode_def req_ok_def)

lemma http_client_post:
  "run_state (xds_Register (NewHTTP (admin_transport C R t addr) addr) s h p) r =
     (let ((code, body), r') = run_state (admin_register C R t (Some \<lparr>er_Service = s, er_Host = h, er_Port = p\<rparr>)) r
      in (if code \<ge> 400 then Some (post_error ''/v1/register'' \<lparr>hr_StatusCode = code, hr_Status = status_text code, hr_Body = []\<rparr>)
          else None, r'))"
  "run_state (xds_Unregister (NewHTTP (admin_transport C R t addr) addr) s h p) r =
     (let ((code, body), r') = run_state (admin_unregister C R t (Some \<lparr>er_Service = s, er_Host = h, er_Port = p\<rparr>)) r
      in (if code \<ge> 400 then Some (post_error ''/v1/unregister'' \<lparr>hr_StatusCode = code, hr_Status = status_text code, hr_Body = []\<rparr>)
          else None, r'))"
  by (simp_all only: NewHTTP_def Let_def xds_if.select_convs post_def admin_transport_def http_if.select_convs
      option.case routes_path admin_routes_def)
     (simp_all add: case_prod_beta)

text \<open>C28. The worker's client and the admin API together: a call of \<open>Register\<close> with a service, a host and a
  port from 1 to 65535 registers exactly that pair, and Envoy is given that very port; any other call is
  an error for the worker and changes nothing.\<close>

theorem client_calls_reach_the_registry:
  assumes "run_state (xds_Register (NewHTTP (admin_transport C R t addr) addr) s h p) r = (err, r1)"
    and "run_state (xds_Unregister (NewHTTP (admin_transport C R t addr) addr) s h p) r = (err', r2)"
  shows "if s \<noteq> [] \<and> h \<noteq> [] \<and> 0 < p \<and> p \<le> 65535
    then reg_abs (reg_services r1) = insert (s, Endpoint h p) (reg_abs (reg_services r)) \<and>
         reg_abs (reg_services r2) = reg_abs (reg_services r) - {(s, Endpoint h p)} \<and>
         (err = None \<longleftrightarrow> fst (Register C R t s (Endpoint h p) r) = None) \<and>
         (err' = None \<longleftrightarrow> fst (Unregister C R t s (Endpoint h p) r) = None) \<and>
         lb_of (Endpoint h p) = makeLBEndpoint h p
    else err \<noteq> None \<and> err' \<noteq> None \<and> r1 = r \<and> r2 = r"
proof (cases "req_ok s h p")
  case True
  have "lb_of (Endpoint h p) = makeLBEndpoint h p" using True by (simp add: req_ok_def lb_of_def uint32_of_id)
  moreover have "r1 = snd (Register C R t s (Endpoint h p) r)" "r2 = snd (Unregister C R t s (Endpoint h p) r)"
    "err = None \<longleftrightarrow> fst (Register C R t s (Endpoint h p) r) = None"
    "err' = None \<longleftrightarrow> fst (Unregister C R t s (Endpoint h p) r) = None"
    using assms by (auto simp: http_client_post admin_register_def admin_unregister_def decode_req [OF True]
        split: prod.splits if_splits)
  ultimately show ?thesis using True by (simp add: req_ok_def method_services)
next
  case False
  then obtain m where "decode (Some \<lparr>er_Service = s, er_Host = h, er_Port = p\<rparr>) = Inl m" using decode_bad by blast
  then have "err \<noteq> None \<and> err' \<noteq> None \<and> r1 = r \<and> r2 = r"
    using assms by (auto simp: http_client_post admin_register_def admin_unregister_def)
  then show ?thesis unfolding if_not_P [OF False [unfolded req_ok_def]] .
qed

theorem client_calls_reach_the_registry_witness:
  "reg_abs (reg_services (snd (run_state
     (xds_Register (NewHTTP (admin_transport simple_cache rng_rev 3 ''xds:19000'') ''xds:19000'') ''a'' ''10.0.0.7'' 65535)
     (NewRegistry None)))) = {(''a'', Endpoint ''10.0.0.7'' 65535)}"
proof -
  let ?X = "NewHTTP (admin_transport simple_cache rng_rev 3 ''xds:19000'') ''xds:19000''"
  obtain e1 r1 e2 r2 where run: "run_state (xds_Register ?X ''a'' ''10.0.0.7'' 65535) (NewRegistry None) = (e1, r1)"
    "run_state (xds_Unregister ?X ''a'' ''10.0.0.7'' 65535) (NewRegistry None) = (e2, r2)" by (metis surj_pair)
  from client_calls_reach_the_registry [OF run] show ?thesis unfolding run by (simp add: NewRegistry_def)
qed

end
