(* ===== verification/Worker_Retry.thy ===== *)
theory Worker_Retry
  imports Worker_Contract
begin

text \<open>
  The poison-message cap. \<open>Attempts\<close> is raised and stored before each call of the provisioner,
  so as long as the stores succeed the number of provisioning attempts of a job, over any
  sequence of deliveries to any number of workers that run one after the other, is bounded by
  \<open>MaxAttempts\<close>.
\<close>

section \<open>Counting\<close>

fun handle_all :: "'w worker \<Rightarrow> message list \<Rightarrow> ('w, unit) state" where
  "handle_all w [] = State_Monad.return ()"
| "handle_all w (m # ms) = do { _ \<leftarrow> handle w m; handle_all w ms }"

fun is_prov :: "string \<Rightarrow> event \<Rightarrow> bool" where
  "is_prov i (EvProvision j r e) \<longleftrightarrow> job_ID j = i"
| "is_prov i (EvProvisionPanic j) \<longleftrightarrow> job_ID j = i"
| "is_prov i _ \<longleftrightarrow> False"

fun put_fine :: "event \<Rightarrow> bool" where
  "put_fine (EvPut j e) \<longleftrightarrow> e = None"
| "put_fine _ \<longleftrightarrow> True"

definition provs :: "string \<Rightarrow> event list \<Rightarrow> nat" where
  "provs i tr = length (filter (is_prov i) tr)"

definition puts_ok :: "event list \<Rightarrow> bool" where
  "puts_ok tr = list_all put_fine tr"

definition att :: "(string \<Rightarrow> job option) \<Rightarrow> string \<Rightarrow> int" where
  "att m i = (case m i of None \<Rightarrow> 0 | Some j \<Rightarrow> job_Attempts j)"

lemma provs_append [simp]: "provs i (tr @ tr') = provs i tr + provs i tr'"
  by (simp add: provs_def)

lemma provs_Nil [simp]: "provs i [] = 0"
  by (simp add: provs_def)

lemma provs_one [simp]: "provs i [ev] = (if is_prov i ev then 1 else 0)"
  by (simp add: provs_def)

lemma puts_ok_append [simp]: "puts_ok (tr @ tr') \<longleftrightarrow> puts_ok tr \<and> puts_ok tr'"
  by (simp add: puts_ok_def)

lemma puts_ok_one [simp]: "puts_ok [ev] \<longleftrightarrow> put_fine ev" "puts_ok []"
  by (simp_all add: puts_ok_def)

section \<open>One message\<close>

context worker_env
begin

text \<open>
  \<open>tally i tr0 n a\<close>: since the trace was \<open>tr0\<close>, job \<open>i\<close> was provisioned \<open>n\<close> times and now has
  \<open>a\<close> attempts, unless a store failed.
\<close>

definition tally :: "string \<Rightarrow> event list \<Rightarrow> nat \<Rightarrow> int \<Rightarrow> 'w \<times> event list \<Rightarrow> bool" where
  "tally i tr0 n a s \<longleftrightarrow> inv (fst s) \<and>
     (\<exists>new. snd s = tr0 @ new \<and> (puts_ok new \<longrightarrow> provs i new = n \<and> att (jobs (fst s)) i = a))"

lemma tally_start: "inv w \<Longrightarrow> tally i tr 0 (att (jobs w) i) (w, tr)"
  by (simp add: tally_def)

lemma tally_put:
  assumes t: "tally i tr0 n a s" and ok: "job_ok j"
    and Q: "\<And>e s'. tally i tr0 n (if job_ID j = i then job_Attempts j else a) s' \<Longrightarrow> Q e s'"
  shows "wp (logged (EvPut j) (store_Put (wk_Store W) j)) Q s"
proof -
  from t obtain new where I: "inv (fst s)" and new: "snd s = tr0 @ new"
    "puts_ok new \<longrightarrow> provs i new = n \<and> att (jobs (fst s)) i = a" by (auto simp: tally_def)
  have "tally i tr0 n (if job_ID j = i then job_Attempts j else a) (w', snd s @ [EvPut j e])"
    if "inv w' \<and> (jobs w' = (jobs (fst s))(job_ID j \<mapsto> j) \<or> e \<noteq> None \<and> jobs w' = jobs (fst s))" for e w'
    using that new by (auto simp: tally_def att_def intro!: exI [of _ "new @ [EvPut j e]"])
  then show ?thesis unfolding wp_logged by (intro wp_mono [OF put [OF I ok]] Q)
qed

lemma tally_keeps:
  assumes k: "keeps inv jobs G m" and ev: "\<And>x. put_fine (ev x) \<and> \<not> is_prov i (ev x)"
    and t: "tally i tr0 n a s" and Q: "\<And>x s'. tally i tr0 n a s' \<Longrightarrow> G x \<Longrightarrow> Q x s'"
  shows "wp (logged ev m) Q s"
proof -
  from t obtain new where I: "inv (fst s)" and new: "snd s = tr0 @ new"
    "puts_ok new \<longrightarrow> provs i new = n \<and> att (jobs (fst s)) i = a" by (auto simp: tally_def)
  have "tally i tr0 n a (w', snd s @ [ev x])" if "inv w'" "jobs w' = jobs (fst s)" for x w'
    using that new ev [of x] by (auto simp: tally_def intro!: exI [of _ "new @ [ev x]"])
  then show ?thesis unfolding wp_logged by (intro wp_mono [OF keepsD [OF k I]] Q) auto
qed

lemma tally_prov:
  assumes t: "tally i tr0 n a s" and ok: "job_ok j"
    and Q: "\<And>x s'. tally i tr0 (if job_ID j = i then Suc n else n) a s' \<Longrightarrow> provided_ok x \<Longrightarrow> Q x s'"
  shows "wp (logged (prov_event j) (prov_Provision (wk_Provision W) j)) Q s"
proof -
  from t obtain new where I: "inv (fst s)" and new: "snd s = tr0 @ new"
    "puts_ok new \<longrightarrow> provs i new = n \<and> att (jobs (fst s)) i = a" by (auto simp: tally_def)
  have "tally i tr0 (if job_ID j = i then Suc n else n) a (w', snd s @ [prov_event j x])"
    if "inv w'" "jobs w' = jobs (fst s)" for x w'
    using that new
    by (auto simp: tally_def prov_event_def split: go.split intro!: exI [of _ "new @ [prov_event j x]"])
  then show ?thesis unfolding wp_logged
    by (intro wp_mono [OF keepsD [OF prov_keeps [OF ok] I]]) (auto intro!: Q)
qed

lemma tally_now:
  assumes t: "tally i tr0 n a s" and Q: "\<And>x s'. tally i tr0 n a s' \<Longrightarrow> time_ok x \<Longrightarrow> Q x s'"
  shows "wp (unlogged (sys_now (wk_Sys W))) Q s"
proof -
  from t have I: "inv (fst s)" by (simp add: tally_def)
  have "tally i tr0 n a (w', snd s)" if "inv w'" "jobs w' = jobs (fst s)" for w'
    using that t by (auto simp: tally_def)
  then show ?thesis unfolding wp_unlogged by (intro wp_mono [OF keepsD [OF now_keeps I]] Q) auto
qed

lemma tally_ack:
  "tally i tr0 n a s \<Longrightarrow> (\<And>x s'. tally i tr0 n a s' \<Longrightarrow> Q x s') \<Longrightarrow>
     wp (logged (EvAck m) (queue_Ack (wk_Queue W) m)) Q s"
  by (rule tally_keeps [OF ack_keeps]) simp_all

lemma tally_dead:
  "tally i tr0 n a s \<Longrightarrow> (\<And>x s'. tally i tr0 n a s' \<Longrightarrow> Q x s') \<Longrightarrow>
     wp (logged (EvDeadLetter m d k) (queue_DeadLetter (wk_Queue W) m d k)) Q s"
  by (rule tally_keeps [OF dead_keeps]) simp_all

lemma tally_reg:
  "tally i tr0 n a s \<Longrightarrow> (\<And>x s'. tally i tr0 n a s' \<Longrightarrow> Q x s') \<Longrightarrow>
     wp (logged (\<lambda>_. EvRegister v h p) (xds_Register (the_XDS W) v h p)) Q s"
  by (rule tally_keeps [OF reg_keeps]) simp_all

lemma tally_unreg:
  "tally i tr0 n a s \<Longrightarrow> (\<And>x s'. tally i tr0 n a s' \<Longrightarrow> Q x s') \<Longrightarrow>
     wp (logged (\<lambda>_. EvUnregister v h p) (xds_Unregister (the_XDS W) v h p)) Q s"
  by (rule tally_keeps [OF unreg_keeps]) simp_all

lemma tally_deprov:
  "tally i tr0 n a s \<Longrightarrow> job_ok j \<Longrightarrow> (\<And>x s'. tally i tr0 n a s' \<Longrightarrow> pred_option error_ok x \<Longrightarrow> Q x s') \<Longrightarrow>
     wp (logged (EvDeprovision j) (prov_Deprovision (wk_Provision W) j)) Q s"
  by (rule tally_keeps [OF deprov_keeps]) simp_all

lemma tally_get:
  assumes t: "tally i tr0 n a s" "a = att (jobs (fst s)) i"
    and Q: "\<And>x s'. tally i tr0 n a s' \<Longrightarrow> (\<And>j. x = Inr j \<Longrightarrow> jobs (fst s) k = Some j) \<Longrightarrow> Q x s'"
  shows "wp (logged (\<lambda>_. EvGet k) (store_Get (wk_Store W) k)) Q s"
proof -
  from t obtain new where I: "inv (fst s)" and new: "snd s = tr0 @ new"
    "puts_ok new \<longrightarrow> provs i new = n \<and> att (jobs (fst s)) i = a" by (auto simp: tally_def)
  have "tally i tr0 n a (w', snd s @ [EvGet k])" if "jobs w' = jobs (fst s)" "inv w'" for w'
    using that new by (auto simp: tally_def intro!: exI [of _ "new @ [EvGet k]"])
  then show ?thesis unfolding wp_logged
    by (intro wp_mono [OF get [OF I]] Q) (auto split: sum.splits)
qed

lemmas tally_calls = tally_ack tally_dead tally_reg tally_unreg tally_deprov tally_now tally_put

lemma provision_ready_tally:
  assumes "tally i tr0 n a s" "job_ID job = i \<longrightarrow> job_Attempts job = a"
    and "job_ok job" "pred_option result_ok res"
  shows "wp (provision_ready (traced_worker W) msg job res) (\<lambda>_. tally i tr0 n a) s"
proof (cases res)
  case None
  with assms show ?thesis by (simp add: provision_ready_def)
next
  case (Some r)
  with assms show ?thesis
    by (cases "res_HTTP r"; cases "job_ID job = i")
       (auto simp: provision_ready_def result_ok_def simp del: wp_logged wp_unlogged
        intro!: tally_calls [where ?tr0.0 = tr0 and i = i and n = n and a = a])
qed

lemma provision_failed_tally:
  assumes "tally i tr0 n a s" "job_ID job = i \<longrightarrow> job_Attempts job = a"
    and "job_ok job" "error_ok e"
  shows "wp (provision_failed (traced_worker W) msg job e) (\<lambda>_. tally i tr0 n a) s"
  using assms
  by (cases "job_ID job = i")
     (auto simp: provision_failed_def error_ok_def simp del: wp_logged wp_unlogged
      intro!: tally_calls [where ?tr0.0 = tr0 and i = i and n = n and a = a])

text \<open>
  What one message adds: no attempt is counted and none is made, or one is counted, and then at
  most one is made, which needs the raised counter to be within the cap.
\<close>

definition counted :: "string \<Rightarrow> event list \<Rightarrow> int \<Rightarrow> 'w \<times> event list \<Rightarrow> bool" where
  "counted i tr0 a s \<longleftrightarrow> tally i tr0 0 a s \<or> tally i tr0 0 (wrap64 (a + 1)) s \<or>
     tally i tr0 1 (wrap64 (a + 1)) s \<and> wrap64 (a + 1) \<le> wk_MaxAttempts W"

lemma counted_none: "tally i tr0 0 a s \<Longrightarrow> counted i tr0 a s"
  by (simp add: counted_def)

lemma provision_tally_other:
  assumes "tally i tr0 0 a s" "job_ID job \<noteq> i" "job_ok job"
  shows "wp (provision (traced_worker W) msg job) (\<lambda>_. tally i tr0 0 a) s"
  using assms
  by (auto simp: provision_def abandon_def Let_def wp_case_prod wp_case_option wp_case_go wrap64_range split: option.split go.split
      simp del: wp_logged wp_unlogged
      intro!: provision_failed_tally provision_ready_tally
        tally_calls [where ?tr0.0 = tr0 and i = i and n = 0 and a = a]
        tally_prov [where ?tr0.0 = tr0 and i = i and n = 0 and a = a])

lemma abandon_tally:
  assumes "tally i tr0 0 a s" "job_ID job = i" "job_ok job"
  shows "wp (abandon (traced_worker W) msg job) (\<lambda>_. tally i tr0 0 (job_Attempts job)) s"
  using assms
  by (auto simp: abandon_def Let_def simp del: wp_logged wp_unlogged
      intro!: tally_now [where ?tr0.0 = tr0 and i = i and n = 0 and a = a]
        tally_put [where ?tr0.0 = tr0 and i = i and n = 0 and a = a]
        tally_ack [where ?tr0.0 = tr0 and i = i and n = 0 and a = "job_Attempts job"]
        tally_dead [where ?tr0.0 = tr0 and i = i and n = 0 and a = "job_Attempts job"])

lemma provision_tally_own:
  assumes "tally i tr0 0 a s" "job_ID job = i" "job_Attempts job = a" "job_ok job"
  shows "wp (provision (traced_worker W) msg job) (\<lambda>_. counted i tr0 a) s"
proof -
  let ?b = "wrap64 (a + 1)"
  show ?thesis
    using assms
    by (auto simp: provision_def Let_def wp_case_prod wp_case_option wp_case_go counted_def wrap64_range
        split: option.split go.split simp del: wp_logged wp_unlogged
        intro!: wp_mono [OF abandon_tally [where ?tr0.0 = tr0 and i = i and a = a]]
          wp_mono [OF provision_failed_tally [where ?tr0.0 = tr0 and i = i and n = 1 and a = ?b]]
          wp_mono [OF provision_ready_tally [where ?tr0.0 = tr0 and i = i and n = 1 and a = ?b]]
          tally_now [where ?tr0.0 = tr0 and i = i and n = 0 and a = a]
          tally_ack [where ?tr0.0 = tr0 and i = i and n = 0 and a = a]
          tally_put [where ?tr0.0 = tr0 and i = i and n = 0 and a = a]
          tally_prov [where ?tr0.0 = tr0 and i = i and n = 0 and a = ?b])
qed

lemma deprovision_tally:
  assumes "tally i tr0 0 a s" "job_ID job = i \<longrightarrow> job_Attempts job = a" "job_ok job"
  shows "wp (deprovision (traced_worker W) msg job) (\<lambda>_. tally i tr0 0 a) s"
  using assms
  by (cases "job_ID job = i"; cases "job_HTTP job")
     (auto simp: deprovision_def wp_case_option error_ok_def split: option.split
      simp del: wp_logged wp_unlogged
      intro!: tally_calls [where ?tr0.0 = tr0 and i = i and n = 0 and a = a])

lemma handle_counted:
  assumes "inv w"
  shows "wp (handle (traced_worker W) msg) (\<lambda>_. counted i tr (att (jobs w) i)) (w, tr)"
proof -
  let ?a = "att (jobs w) i"
  have prov: "wp (provision (traced_worker W) msg job) (\<lambda>_. counted i tr ?a) s"
    if "tally i tr 0 ?a s" "jobs w (msg_JobID msg) = Some job" for job s
  proof (cases "job_ID job = i")
    case True
    with that keyed [OF assms that(2)] show ?thesis
      by (intro provision_tally_own) (auto simp: att_def)
  next
    case False
    with keyed [OF assms that(2)] show ?thesis
      by (intro wp_mono [OF provision_tally_other [OF that(1)]] counted_none) auto
  qed
  have deprov: "wp (deprovision (traced_worker W) msg job) (\<lambda>_. counted i tr ?a) s"
    if "tally i tr 0 ?a s" "jobs w (msg_JobID msg) = Some job" for job s
    using that keyed [OF assms that(2)]
    by (intro wp_mono [OF deprovision_tally [OF that(1)]] counted_none) (auto simp: att_def)
  show ?thesis
    by (auto simp: handle_def wp_case_sum simp del: wp_logged wp_unlogged split: sum.split
        intro!: tally_get [OF tally_start [OF assms, of i tr]] prov deprov
        tally_ack [where ?tr0.0 = tr and i = i and n = 0 and a = ?a] counted_none)
qed

section \<open>Any number of messages\<close>

text \<open>
  The counter does not wrap while fewer messages are handled than there are integers above it, so
  each attempt made uses up one of the values up to the cap.
\<close>

lemma countedD:
  assumes "counted i tr a s"
  obtains new where "inv (fst s)" "snd s = tr @ new"
    "puts_ok new \<Longrightarrow> provs i new = 0 \<and> att (jobs (fst s)) i = a \<or>
       provs i new \<le> 1 \<and> att (jobs (fst s)) i = wrap64 (a + 1) \<and>
       (provs i new = 1 \<longrightarrow> wrap64 (a + 1) \<le> wk_MaxAttempts W)"
  using assms unfolding counted_def tally_def by fastforce

lemma handle_all_extends:
  assumes "inv w"
  shows "wp (handle_all (traced_worker W) msgs) (\<lambda>_ s. inv (fst s) \<and> (\<exists>new. snd s = tr @ new)) (w, tr)"
  using assms
proof (induction msgs arbitrary: w tr)
  case Nil
  then show ?case by simp
next
  case (Cons m ms)
  have "wp (handle_all (traced_worker W) ms) (\<lambda>_ s. inv (fst s) \<and> (\<exists>new. snd s = tr @ new)) s1"
    if c: "counted i tr (att (jobs w) i) s1" for s1 i
  proof -
    from c obtain new1 where s1: "inv (fst s1)" "snd s1 = tr @ new1" by (rule countedD)
    have "wp (handle_all (traced_worker W) ms) (\<lambda>_ s. inv (fst s) \<and> (\<exists>new. snd s = snd s1 @ new)) s1"
      using Cons.IH [OF s1(1), of "snd s1"] by simp
    then show ?thesis by (rule wp_mono) (use s1(2) in auto)
  qed
  then show ?case by simp (rule wp_mono [OF handle_counted [OF Cons.prems]])
qed

definition bounded :: "string \<Rightarrow> event list \<Rightarrow> int \<Rightarrow> 'w \<times> event list \<Rightarrow> bool" where
  "bounded i tr a s \<longleftrightarrow> inv (fst s) \<and> (\<exists>new. snd s = tr @ new \<and>
     (puts_ok new \<longrightarrow> int (provs i new) \<le> max 0 (wk_MaxAttempts W - a)))"

lemma handle_all_bounded:
  assumes "inv w" "int64_range (att (jobs w) i)" "att (jobs w) i + int (length msgs) < 2 ^ 63"
  shows "wp (handle_all (traced_worker W) msgs) (\<lambda>_. bounded i tr (att (jobs w) i)) (w, tr)"
  using assms
proof (induction msgs arbitrary: w tr)
  case Nil
  then show ?case by (simp add: bounded_def)
next
  case (Cons m ms)
  let ?a = "att (jobs w) i"
  have wrap: "wrap64 (?a + 1) = ?a + 1" using Cons.prems by (intro wrap64_Suc) simp_all
  have step: "wp (handle_all (traced_worker W) ms) (\<lambda>_. bounded i tr ?a) s1" if c: "counted i tr ?a s1" for s1
  proof -
    let ?a1 = "att (jobs (fst s1)) i"
    from c obtain new1 where s1: "inv (fst s1)" "snd s1 = tr @ new1" and new1: "puts_ok new1 \<Longrightarrow>
        provs i new1 = 0 \<and> ?a1 = ?a \<or> provs i new1 \<le> 1 \<and> ?a1 = ?a + 1 \<and>
          (provs i new1 = 1 \<longrightarrow> ?a + 1 \<le> wk_MaxAttempts W)"
      by (rule countedD) (simp add: wrap)
    show ?thesis
    proof (cases "puts_ok new1")
      case False
      have "wp (handle_all (traced_worker W) ms) (\<lambda>_ s. inv (fst s) \<and> (\<exists>new. snd s = tr @ new1 @ new)) s1"
        using handle_all_extends [OF s1(1), of ms "snd s1"] by (simp add: s1(2) flip: surjective_pairing [of s1, unfolded s1(2)])
      then show ?thesis by (rule wp_mono) (use False in \<open>auto simp: bounded_def\<close>)
    next
      case True
      note n = new1 [OF True]
      have "int64_range ?a1" "?a1 + int (length ms) < 2 ^ 63"
        using n Cons.prems(2,3) by (auto simp: int64_range_def)
      from Cons.IH [OF s1(1) this, of "snd s1"]
      have "wp (handle_all (traced_worker W) ms) (\<lambda>_. bounded i (tr @ new1) ?a1) s1" by (simp flip: s1(2))
      then show ?thesis
        by (rule wp_mono) (use n in \<open>auto simp: bounded_def\<close>)
    qed
  qed
  show ?case by (simp, rule wp_mono [OF handle_counted [OF Cons.prems(1)]], rule step)
qed

end

end
