(* ===== verification/Worker_Guarantees.thy ===== *)
theory Worker_Guarantees
  imports Worker_Retry
begin

text \<open>
  The guarantees of the worker (\<open>internal/worker\<close>): the order of its calls, for every implementation
  of its interfaces, and what any sequence of messages does to the stored jobs, for every environment
  that keeps \<open>worker_env\<close>. The worker over the in-memory store, with the fakes of \<open>worker_test.go\<close> for
  the rest, is such an environment and serves as the concrete instance.
\<close>

section \<open>The worker over the in-memory store\<close>

definition bench_queue :: "'w queue_if" where
  "bench_queue =
     \<lparr>queue_Enqueue = (\<lambda>_ _. State_Monad.return None), queue_Dequeue = (\<lambda>_ _. State_Monad.return (Inr None)),
      queue_Reclaim = (\<lambda>_ _ _. State_Monad.return (Inr [])), queue_Ack = (\<lambda>_. State_Monad.return None),
      queue_DeadLetter = (\<lambda>_ _ _. State_Monad.return None), queue_ListDead = (\<lambda>_. State_Monad.return (Inr []))\<rparr>"

definition bench_sys :: "'w sys_if" where
  "bench_sys =
     \<lparr>sys_now = State_Monad.return 0, sys_rand = (\<lambda>n. State_Monad.return (replicate n 0)),
      sys_ctx_err = State_Monad.return None, sys_sleep = (\<lambda>_. State_Monad.return ())\<rparr>"

definition bench :: "(result option \<times> goerr option) go \<Rightarrow> goerr option \<Rightarrow> memStore worker" where
  "bench x e =
     \<lparr>wk_Name = ''w1'', wk_Store = mem_store id, wk_Queue = bench_queue,
      wk_Provision = \<lparr>prov_Provision = (\<lambda>_. State_Monad.return x), prov_Deprovision = (\<lambda>_. State_Monad.return e)\<rparr>,
      wk_XDS = Some Noop, wk_Sys = bench_sys, wk_BlockTimeout = defaultBlockTimeout,
      wk_ReclaimEvery = defaultReclaimEvery, wk_ReclaimMinIdle = defaultReclaimMinIdle,
      wk_MaxAttempts = defaultMaxAttempts\<rparr>"

lemma bench_env:
  assumes "provided_ok x" "pred_option error_ok e"
  shows "worker_env (bench x e) mem_view mem_inv"
proof -
  have st: "wk_Store (bench x e) = mem_store id" by (simp add: bench_def)
  show ?thesis
    unfolding worker_env_def worker_env_axioms_def st
    using ms.job_store_axioms assms
    by (auto simp: bench_def bench_queue_def bench_sys_def the_XDS_def Noop_def time_ok_def intro!: keeps_return)
qed

definition bench_result :: result where
  "bench_result =
     \<lparr>res_Connection = Some \<lparr>conn_Host = ''127.0.0.1'', conn_Port = 5432, conn_Username = ''u'', conn_Password = ''p'',
        conn_Database = ''d''\<rparr>, res_HTTP = Some \<lparr>http_Host = ''127.0.0.1'', http_Port = 8080\<rparr>\<rparr>"

definition transient_error :: goerr where
  "transient_error = WrapErr ''transient error: i/o timeout'' (Sentinel ErrTransient)"

interpretation wb: worker_env "bench (Ret (Some bench_result, None)) None" mem_view mem_inv
  by (rule bench_env)
     (simp_all add: bench_result_def result_ok_def conn_ok_def http_ok_def int64_range_def utf8_valid_ascii is_ascii_def)

interpretation wt: worker_env "bench (Ret (None, Some transient_error)) None" mem_view mem_inv
  by (rule bench_env) (simp_all add: transient_error_def error_ok_def utf8_valid_ascii is_ascii_def)

definition bench_job :: "status \<Rightarrow> job" where
  "bench_job s = \<lparr>job_ID = ''j1'', job_ServiceName = ''svc'', job_Resource = ResourcePostgres, job_Status = s,
     job_Detail = [], job_Attempts = 0, job_Connection = None, job_HTTP = None, job_CreatedAt = 0, job_UpdatedAt = 0\<rparr>"

definition bench_world :: "job \<Rightarrow> memStore" where
  "bench_world j = \<lparr>ms_heap = [j], ms_jobs = [(job_ID j, 0)]\<rparr>"

definition bench_msg :: "action \<Rightarrow> message" where
  "bench_msg a = \<lparr>msg_ID = ''1-0'', msg_JobID = ''j1'', msg_Action = a\<rparr>"

lemma bench_world_view: "mem_view (bench_world j) = [job_ID j \<mapsto> j]"
  by (auto simp: mem_view_def bench_world_def gm_get_def)

lemma bench_world_inv: "job_ok j \<Longrightarrow> mem_inv (bench_world j)"
  by (simp add: mem_inv_def bench_world_def gm_wf_def)

lemma bench_job_ok: "utf8_valid s \<Longrightarrow> job_ok (bench_job s)"
  by (simp add: bench_job_def job_ok_def int64_range_def time_ok_def ResourcePostgres_def utf8_valid_ascii is_ascii_def)

abbreviation bench_run :: "(result option \<times> goerr option) go \<Rightarrow> goerr option \<Rightarrow> job \<Rightarrow> action \<Rightarrow> unit go \<times> memStore \<times> event list" where
  "bench_run x e j a \<equiv> run_state (handle (traced_worker (bench x e)) (bench_msg a)) (bench_world j, [])"

section \<open>The order of the calls\<close>

lemmas calls_cases = calls.cases [case_names only_ack abandoned transient permanent ready panicked nil_result nil_http
  deleted deleted_routed teardown_failed teardown_failed_routed]

lemma handle_trace:
  assumes "run_state (handle (traced_worker w) msg) (s, []) = (r, (s', tr))"
  shows "calls (wk_MaxAttempts w) msg tr"
  using handle_shape [OF assms] by simp

lemma calls_outcome_stored:
  assumes "calls M msg tr" "tr = pre @ EvAck m a # post" "EvProvision j res err \<in> set pre"
  shows "\<exists>xs ys j' e' zs. pre = xs @ EvProvision j res err # ys @ EvPut j' e' # zs \<and> job_ID j' = job_ID j \<and>
    job_Status j' = (if err = None then StatusReady else StatusFailed)"
  using assms
  by (cases rule: calls_cases) (auto simp: Cons_eq_append_conv append_eq_Cons_conv)

lemma calls_transient:
  assumes "calls M msg tr" "EvProvision j res (Some e) \<in> set tr" "errors_is e ErrTransient"
  shows "EvAck m a \<notin> set tr \<and> EvDeadLetter m d n b \<notin> set tr \<and>
    (\<exists>t p. last tr = EvPut (j\<lparr>job_Detail := transient_detail e, job_UpdatedAt := t\<rparr>) p)"
  using assms by (cases rule: calls_cases) auto

lemma calls_routing:
  assumes "calls M msg tr"
  shows "(\<forall>pre post j e h. tr = pre @ EvDeprovision j e # post \<and> job_HTTP j = Some h \<longrightarrow>
      EvUnregister (job_ServiceName j) (http_Host h) (http_Port h) \<in> set pre) \<and>
    (\<forall>pre post s h p. tr = pre @ EvRegister s h p # post \<longrightarrow>
      (\<exists>j e. EvPut j e \<in> set pre \<and> job_Status j = StatusReady \<and> job_ServiceName j = s \<and>
         job_HTTP j = Some \<lparr>http_Host = h, http_Port = p\<rparr>))"
  using assms
  by (cases rule: calls_cases) (auto simp: Cons_eq_append_conv append_eq_Cons_conv)

lemma calls_attempt_stored:
  assumes "calls M msg tr" "tr = pre @ EvProvision j res err # post"
  shows "\<exists>e. EvPut j e \<in> set pre \<and> job_Status j = StatusProvisioning \<and> job_Attempts j \<le> M"
  using assms
  by (cases rule: calls_cases) (auto simp: Cons_eq_append_conv append_eq_Cons_conv begun_def)

lemma calls_dead_letter:
  assumes "calls M msg tr" "tr = pre @ EvDeadLetter m d n e # post"
  shows "m = msg \<and> (\<exists>a. EvAck msg a \<in> set pre) \<and>
    (\<exists>j p. EvPut j p \<in> set pre \<and> job_Status j = StatusFailed \<and> job_Detail j = d)"
  using assms
  by (cases rule: calls_cases) (fastforce simp: Cons_eq_append_conv append_eq_Cons_conv)+

text \<open>C5. Persist, then acknowledge: whatever the store, the queue, the provisioner and the control
  plane's client do, a message is acknowledged after an attempt only if, in between, the job was handed
  to the store with the outcome of the attempt as its status: ready if it succeeded, failed if it
  did not.\<close>

theorem outcome_stored_before_ack:
  assumes "run_state (handle (traced_worker w) msg) (s, []) = (r, (s', pre @ EvAck m a # post))"
    and "EvProvision j res err \<in> set pre"
  shows "\<exists>xs ys j' e' zs. pre = xs @ EvProvision j res err # ys @ EvPut j' e' # zs \<and> job_ID j' = job_ID j \<and>
    job_Status j' = (if err = None then StatusReady else StatusFailed)"
  by (rule calls_outcome_stored [OF handle_trace [OF assms(1)] refl assms(2)])

definition bench_first :: job where
  "bench_first = (bench_job StatusPending)\<lparr>job_Attempts := 1, job_Status := StatusProvisioning\<rparr>"

definition bench_ready :: job where
  "bench_ready = bench_first\<lparr>job_Status := StatusReady, job_Connection := res_Connection bench_result,
     job_HTTP := res_HTTP bench_result\<rparr>"

lemma bench_run_ready:
  "\<exists>s'. bench_run (Ret (Some bench_result, None)) None (bench_job StatusPending) ActionProvision =
     (Ret (), (s', [EvGet ''j1'', EvPut bench_first None, EvProvision bench_first (Some bench_result) None,
        EvPut bench_ready None, EvRegister ''svc'' ''127.0.0.1'' 8080, EvAck (bench_msg ActionProvision) None]))"
proof -
  have "fst (bench_run (Ret (Some bench_result, None)) None (bench_job StatusPending) ActionProvision) = Ret ()"
    by code_simp
  moreover have "snd (snd (bench_run (Ret (Some bench_result, None)) None (bench_job StatusPending) ActionProvision)) =
     [EvGet ''j1'', EvPut bench_first None, EvProvision bench_first (Some bench_result) None,
      EvPut bench_ready None, EvRegister ''svc'' ''127.0.0.1'' 8080, EvAck (bench_msg ActionProvision) None]"
    by code_simp
  ultimately show ?thesis by (metis prod.collapse)
qed

lemma bench_run_transient:
  "\<exists>s'. bench_run (Ret (None, Some transient_error)) None (bench_job StatusPending) ActionProvision =
     (Ret (), (s', [EvGet ''j1'', EvPut bench_first None, EvProvision bench_first None (Some transient_error),
        EvPut (bench_first\<lparr>job_Detail := transient_detail transient_error\<rparr>) None]))"
proof -
  have "fst (bench_run (Ret (None, Some transient_error)) None (bench_job StatusPending) ActionProvision) = Ret ()"
    by code_simp
  moreover have "snd (snd (bench_run (Ret (None, Some transient_error)) None (bench_job StatusPending) ActionProvision)) =
     [EvGet ''j1'', EvPut bench_first None, EvProvision bench_first None (Some transient_error),
        EvPut (bench_first\<lparr>job_Detail := transient_detail transient_error\<rparr>) None]"
    by code_simp
  ultimately show ?thesis by (metis prod.collapse)
qed

lemma bench_run_permanent:
  "\<exists>s' j. bench_run (Ret (None, Some (NewErr ''no image''))) None (bench_job StatusPending) ActionProvision =
     (Ret (), (s', [EvGet ''j1'', EvPut bench_first None, EvProvision bench_first None (Some (NewErr ''no image'')),
        EvPut j None, EvAck (bench_msg ActionProvision) None,
        EvDeadLetter (bench_msg ActionProvision) ''no image'' 1 None]))"
proof -
  have "fst (bench_run (Ret (None, Some (NewErr ''no image''))) None (bench_job StatusPending) ActionProvision) = Ret ()"
    by code_simp
  moreover have "snd (snd (bench_run (Ret (None, Some (NewErr ''no image''))) None (bench_job StatusPending) ActionProvision)) =
     [EvGet ''j1'', EvPut bench_first None, EvProvision bench_first None (Some (NewErr ''no image'')),
        EvPut (bench_first\<lparr>job_Status := StatusFailed, job_Detail := ''no image''\<rparr>) None,
        EvAck (bench_msg ActionProvision) None, EvDeadLetter (bench_msg ActionProvision) ''no image'' 1 None]"
    by code_simp
  ultimately show ?thesis by (metis prod.collapse)
qed

theorem outcome_stored_before_ack_witness:
  "\<exists>xs ys j' e' zs.
    [EvGet ''j1'', EvPut bench_first None, EvProvision bench_first (Some bench_result) None,
        EvPut bench_ready None, EvRegister ''svc'' ''127.0.0.1'' 8080] =
    xs @ EvProvision bench_first (Some bench_result) None # ys @ EvPut j' e' # zs \<and> job_Status j' = StatusReady"
proof -
  obtain s' where run: "bench_run (Ret (Some bench_result, None)) None (bench_job StatusPending) ActionProvision =
     (Ret (), (s', [EvGet ''j1'', EvPut bench_first None, EvProvision bench_first (Some bench_result) None,
        EvPut bench_ready None, EvRegister ''svc'' ''127.0.0.1'' 8080] @ EvAck (bench_msg ActionProvision) None # []))"
    using bench_run_ready by auto
  have "EvProvision bench_first (Some bench_result) None \<in> set [EvGet ''j1'', EvPut bench_first None,
      EvProvision bench_first (Some bench_result) None, EvPut bench_ready None, EvRegister ''svc'' ''127.0.0.1'' 8080]"
    by simp
  from outcome_stored_before_ack [OF run this] show ?thesis
    by (elim exE conjE) (intro exI conjI, assumption, simp only: if_True simp_thms)
qed

text \<open>C19. A transient failure is never acknowledged and never dead-lettered: the last thing the worker
  does is to record the error on the job, so the message stays pending for the reclaim loop.\<close>

theorem transient_failure_not_acked:
  assumes "run_state (handle (traced_worker w) msg) (s, []) = (r, (s', tr))"
    and "EvProvision j res (Some e) \<in> set tr" "errors_is e ErrTransient"
  shows "EvAck m a \<notin> set tr \<and> EvDeadLetter m d n b \<notin> set tr \<and>
    (\<exists>t p. last tr = EvPut (j\<lparr>job_Detail := transient_detail e, job_UpdatedAt := t\<rparr>) p)"
  by (rule calls_transient [OF handle_trace [OF assms(1)] assms(2,3)])

theorem transient_failure_not_acked_witness:
  "EvAck (bench_msg ActionProvision) None \<notin>
     set (snd (snd (bench_run (Ret (None, Some transient_error)) None (bench_job StatusPending) ActionProvision)))"
proof -
  obtain s' where run: "bench_run (Ret (None, Some transient_error)) None (bench_job StatusPending) ActionProvision =
     (Ret (), (s', [EvGet ''j1'', EvPut bench_first None, EvProvision bench_first None (Some transient_error),
        EvPut (bench_first\<lparr>job_Detail := transient_detail transient_error\<rparr>) None]))"
    using bench_run_transient by blast
  have err: "errors_is transient_error ErrTransient" by (simp add: transient_error_def)
  show ?thesis unfolding run snd_conv
    by (rule transient_failure_not_acked [OF run _ err, where j = bench_first and res = None, THEN conjunct1]) simp
qed

text \<open>C17. Traffic follows the resource: Envoy is told to forget an endpoint before the resource behind
  it is torn down, and is told about an endpoint only after the job was stored as ready with exactly
  that endpoint.\<close>

theorem routing_follows_the_resource:
  assumes "run_state (handle (traced_worker w) msg) (s, []) = (r, (s', tr))"
  shows "(\<forall>pre post j e h. tr = pre @ EvDeprovision j e # post \<and> job_HTTP j = Some h \<longrightarrow>
      EvUnregister (job_ServiceName j) (http_Host h) (http_Port h) \<in> set pre) \<and>
    (\<forall>pre post s h p. tr = pre @ EvRegister s h p # post \<longrightarrow>
      (\<exists>j e. EvPut j e \<in> set pre \<and> job_Status j = StatusReady \<and> job_ServiceName j = s \<and>
         job_HTTP j = Some \<lparr>http_Host = h, http_Port = p\<rparr>))"
  by (rule calls_routing [OF handle_trace [OF assms]])

theorem routing_follows_the_resource_witness:
  "\<exists>j e. EvPut j e \<in> set [EvGet ''j1'', EvPut bench_first None, EvProvision bench_first (Some bench_result) None,
        EvPut bench_ready None] \<and> job_Status j = StatusReady \<and>
      job_HTTP j = Some \<lparr>http_Host = ''127.0.0.1'', http_Port = 8080\<rparr>"
proof -
  obtain s' where run: "bench_run (Ret (Some bench_result, None)) None (bench_job StatusPending) ActionProvision =
     (Ret (), (s', [EvGet ''j1'', EvPut bench_first None, EvProvision bench_first (Some bench_result) None,
        EvPut bench_ready None] @ EvRegister ''svc'' ''127.0.0.1'' 8080 # [EvAck (bench_msg ActionProvision) None]))"
    using bench_run_ready by auto
  from routing_follows_the_resource [OF run, THEN conjunct2, rule_format, OF refl] show ?thesis by blast
qed

text \<open>C18. An attempt is on record before it is made: the provisioner is called only with a job that was
  just handed to the store as provisioning, with the raised counter, and only within the cap.\<close>

theorem attempt_stored_before_provisioning:
  assumes "run_state (handle (traced_worker w) msg) (s, []) = (r, (s', pre @ EvProvision j res err # post))"
  shows "\<exists>e. EvPut j e \<in> set pre \<and> job_Status j = StatusProvisioning \<and> job_Attempts j \<le> wk_MaxAttempts w"
  by (rule calls_attempt_stored [OF handle_trace [OF assms] refl])

theorem attempt_stored_before_provisioning_witness:
  "job_Attempts bench_first \<le> wk_MaxAttempts (bench (Ret (None, Some transient_error)) None)"
proof -
  obtain s' where run: "bench_run (Ret (None, Some transient_error)) None (bench_job StatusPending) ActionProvision =
     (Ret (), (s', [EvGet ''j1'', EvPut bench_first None] @ EvProvision bench_first None (Some transient_error) #
        [EvPut (bench_first\<lparr>job_Detail := transient_detail transient_error\<rparr>) None]))"
    using bench_run_transient by auto
  from attempt_stored_before_provisioning [OF run] show ?thesis by blast
qed

text \<open>C36. What the dead-letter stream says: an entry is written only for the message being handled, with
  the detail of a failed job that was handed to the store before; but the message is already
  acknowledged by then, so a worker that dies in between leaves no entry.\<close>

theorem dead_letter_follows_ack:
  assumes "run_state (handle (traced_worker w) msg) (s, []) = (r, (s', pre @ EvDeadLetter m d n e # post))"
  shows "m = msg \<and> (\<exists>a. EvAck msg a \<in> set pre) \<and>
    (\<exists>j p. EvPut j p \<in> set pre \<and> job_Status j = StatusFailed \<and> job_Detail j = d)"
  by (rule calls_dead_letter [OF handle_trace [OF assms] refl])

theorem dead_letter_follows_ack_witness:
  "\<exists>j. \<exists>a. EvAck (bench_msg ActionProvision) a \<in> set [EvGet ''j1'', EvPut bench_first None,
      EvProvision bench_first None (Some (NewErr ''no image'')), EvPut j None, EvAck (bench_msg ActionProvision) None]"
proof -
  obtain s' j where run: "bench_run (Ret (None, Some (NewErr ''no image''))) None (bench_job StatusPending) ActionProvision =
     (Ret (), (s', [EvGet ''j1'', EvPut bench_first None, EvProvision bench_first None (Some (NewErr ''no image'')),
        EvPut j None, EvAck (bench_msg ActionProvision) None] @
        EvDeadLetter (bench_msg ActionProvision) ''no image'' 1 None # []))"
    using bench_run_permanent by auto
  from dead_letter_follows_ack [OF run] show ?thesis by blast
qed

section \<open>What messages do to the stored jobs\<close>

text \<open>C4. One message changes at most the record of its own job, and that record only in one of the ways
  \<open>worker_step\<close> lists, even though any of the stores may fail and the provisioner may panic.\<close>

theorem handle_is_worker_step:
  assumes "worker_env W jobs I" "I w" "run_state (handle W msg) w = (r, w')"
  shows "I w' \<and> (jobs w' = jobs w \<or>
    (\<exists>j j'. jobs w (msg_JobID msg) = Some j \<and> jobs w' = (jobs w)(msg_JobID msg \<mapsto> j') \<and>
       worker_step (wk_MaxAttempts W) (msg_Action msg = ActionDeprovision) j j'))"
  by (rule wp_runD [OF worker_env.handle_step [OF assms(1,2)] assms(3)])

theorem handle_is_worker_step_witness:
  "\<exists>w'. mem_inv w' \<and> run_state (handle (bench (Ret (Some bench_result, None)) None) (bench_msg ActionProvision))
     (bench_world (bench_job StatusPending)) = (Ret (), w')"
proof -
  let ?m = "handle (bench (Ret (Some bench_result, None)) None) (bench_msg ActionProvision)"
  obtain w' tr where "bench_run (Ret (Some bench_result, None)) None (bench_job StatusPending) ActionProvision =
      (Ret (), (w', tr))" using bench_run_ready by (elim exE)
  from sim_run [OF handle_sim this]
  have run: "run_state ?m (bench_world (bench_job StatusPending)) = (Ret (), w')" .
  from handle_is_worker_step [OF wb.worker_env_axioms bench_world_inv [OF bench_job_ok] run] run
  show ?thesis by simp
qed

lemma handle_all_frame:
  assumes "worker_env W jobs I" "I w"
    and "\<And>m j'. m \<in> set msgs \<Longrightarrow> msg_JobID m = i \<Longrightarrow> worker_step (wk_MaxAttempts W) (msg_Action m = ActionDeprovision) j j' \<Longrightarrow> j' = j"
    and "jobs w i = Some j"
  shows "wp (handle_all W msgs) (\<lambda>_ w'. I w' \<and> jobs w' i = Some j) w"
  using assms(2-)
proof (induction msgs arbitrary: w)
  case Nil
  then show ?case by simp
next
  case (Cons m ms)
  have step: "jobs w' i = Some j"
    if "I w' \<and> (jobs w' = jobs w \<or> (\<exists>j0 j'. jobs w (msg_JobID m) = Some j0 \<and>
      jobs w' = (jobs w)(msg_JobID m \<mapsto> j') \<and> worker_step (wk_MaxAttempts W) (msg_Action m = ActionDeprovision) j0 j'))" for w'
    using that Cons.prems(2) [of m] Cons.prems(3) by (cases "msg_JobID m = i") auto
  show ?case
    unfolding handle_all.simps wp_bind
  proof (rule wp_mono [OF worker_env.handle_step [OF assms(1) Cons.prems(1)]], goal_cases)
    case (1 r w1)
    then show ?case using step [OF 1] Cons.prems(2) by (intro Cons.IH) auto
  qed
qed

text \<open>C6. The poison-message cap: over any sequence of deliveries, as long as the stores succeed, a job
  is given to the provisioner at most \<open>MaxAttempts\<close> times less the attempts already on record.\<close>

theorem attempts_bounded:
  assumes "worker_env W jobs I" "I w" "int64_range (att (jobs w) i)"
    and "att (jobs w) i + int (length msgs) < 2 ^ 63"
    and "run_state (handle_all (traced_worker W) msgs) (w, []) = (u, (w', tr))" "puts_ok tr"
  shows "int (provs i tr) \<le> max 0 (wk_MaxAttempts W - att (jobs w) i)"
  using wp_runD [OF worker_env.handle_all_bounded [OF assms(1-4)] assms(5)] assms(6)
  by (simp add: worker_env.bounded_def [OF assms(1)])

theorem attempts_bounded_witness:
  "\<exists>s' tr. run_state (handle_all (traced_worker (bench (Ret (None, Some transient_error)) None))
       (replicate 5 (bench_msg ActionProvision))) (bench_world (bench_job StatusPending), []) = ((), (s', tr)) \<and>
     provs ''j1'' tr = 3 \<and> int (provs ''j1'' tr) \<le> 3"
proof -
  let ?W = "bench (Ret (None, Some transient_error)) None" and ?j = "bench_job StatusPending"
  let ?x = "run_state (handle_all (traced_worker ?W) (replicate 5 (bench_msg ActionProvision))) (bench_world ?j, [])"
  obtain s' tr where run: "?x = ((), (s', tr))" by (metis old.unit.exhaust surj_pair)
  have "provs ''j1'' (snd (snd ?x)) = 3 \<and> puts_ok (snd (snd ?x))" by code_simp
  then have ok: "provs ''j1'' tr = 3" "puts_ok tr" by (simp_all only: run snd_conv)
  have a: "att (mem_view (bench_world ?j)) ''j1'' = 0" by (simp add: att_def bench_world_view bench_job_def)
  have "int (provs ''j1'' tr) \<le> max 0 (wk_MaxAttempts ?W - att (mem_view (bench_world ?j)) ''j1'')"
    by (rule attempts_bounded [OF wt.worker_env_axioms bench_world_inv [OF bench_job_ok] _ _ run ok(2)])
       (simp_all add: a int64_range_def)
  then have "int (provs ''j1'' tr) \<le> 3" by (simp add: a bench_def defaultMaxAttempts_def)
  with run ok show ?thesis by blast
qed

text \<open>Settled jobs stay settled: no sequence of messages changes the record of a deleted job, and none
  that does not ask for its teardown changes that of a job that is ready or being deleted. So a
  redelivered provision never resurrects a job.\<close>

lemma settled_jobs_stay:
  assumes "worker_env W jobs I" "I w" "jobs w i = Some j" "run_state (handle_all W msgs) w = (u, w')"
    and "job_Status j = StatusDeleted \<or> job_Status j \<in> {StatusReady, StatusDeleting} \<and>
      (\<forall>m \<in> set msgs. msg_JobID m = i \<longrightarrow> msg_Action m \<noteq> ActionDeprovision)"
  shows "jobs w' i = Some j"
proof -
  have "wp (handle_all W msgs) (\<lambda>_ w'. I w' \<and> jobs w' i = Some j) w"
    by (rule handle_all_frame [OF assms(1,2) _ assms(3)])
       (use assms(5) worker_step_deleted worker_step_provision_final in fastforce)
  from wp_runD [OF this assms(4)] show ?thesis by simp
qed

text \<open>Every failure to read the job is taken for a missing one: whatever error the store reports,
  the message is acknowledged and nothing else is done, so a message that arrives while the store
  is unreachable is lost.\<close>

lemma unreadable_job_is_dropped:
  assumes "run_state (store_Get (wk_Store w) (msg_JobID msg)) s = (Inl err, s1)"
  shows "run_state (handle w msg) s = (Ret (), snd (run_state (queue_Ack (wk_Queue w) msg) s1))"
  using assms by (simp add: handle_def split: prod.splits)

end
