(* ===== verification/Api.thy ===== *)
theory Api
  imports Interfaces
begin

text \<open>
  \<open>internal/api/api.go\<close>: the broker's HTTP surface. A request is what \<open>net/http\<close> hands to the
  handlers: the method, the segments of the cleaned path, the value of the query parameter
  \<open>limit\<close> (empty when absent) and the decoded JSON body (\<open>None\<close> when decoding fails). A
  response is the status code, the \<open>Location\<close> header and the value that \<open>writeJSON\<close> encodes.
  \<open>srt\<close> is \<open>sort.Slice\<close>, a function of the comparison it is given; it is not stable, so it is an argument, with
  the law \<open>sort_Slice_ok\<close>.
\<close>

section \<open>Requests and responses\<close>

record request =
  rq_Method :: string
  rq_Path :: "string list"
  rq_limit :: string
  rq_Body :: "provisionRequest option"

datatype body =
    BodyError string
  | BodyStatus string
  | BodyJob job
  | BodyJobs nat "job list"
  | BodyDead nat "deadEntry list"
  | BodyText string

record response =
  rs_Code :: int
  rs_Location :: "string option"
  rs_Body :: body

definition writeJSON :: "int \<Rightarrow> body \<Rightarrow> response" where
  "writeJSON code v = \<lparr>rs_Code = code, rs_Location = None, rs_Body = v\<rparr>"

definition writeError :: "int \<Rightarrow> string \<Rightarrow> response" where
  "writeError code msg = writeJSON code (BodyError msg)"

record 'w server =
  sv_store :: "'w store_if"
  sv_queue :: "'w queue_if"
  sv_sys :: "'w sys_if"

definition newID :: "'w server \<Rightarrow> ('w, string) state" where
  "newID s = do { b \<leftarrow> sys_rand (sv_sys s) 8; State_Monad.return (hex_encode b) }"

section \<open>Handlers\<close>

definition handleHealth :: "('w, response) state" where
  "handleHealth = State_Monad.return (writeJSON 200 (BodyStatus ''ok''))"

text \<open>The checks on a request, and the defaulting of its resource.\<close>

definition checkRequest :: "provisionRequest option \<Rightarrow> string + provisionRequest" where
  "checkRequest b =
     (case b of
        None \<Rightarrow> Inl ''invalid JSON body''
      | Some req \<Rightarrow>
          if req_ServiceName req = [] then Inl ''service_name is required''
          else
            (let req1 = (if req_Resource req = [] then req\<lparr>req_Resource := ResourcePostgres\<rparr> else req)
             in if req_Resource req1 \<noteq> ResourcePostgres
                then Inl (''unsupported resource: '' @ req_Resource req1)
                else Inr req1))"

definition new_job :: "string \<Rightarrow> provisionRequest \<Rightarrow> time \<Rightarrow> job" where
  "new_job i req now =
     \<lparr>job_ID = i, job_ServiceName = req_ServiceName req, job_Resource = req_Resource req,
      job_Status = StatusPending, job_Detail = [], job_Attempts = 0, job_Connection = None,
      job_HTTP = None, job_CreatedAt = now, job_UpdatedAt = now\<rparr>"

definition enqueue_failed_detail :: string where
  "enqueue_failed_detail = ''could not enqueue provisioning job''"

text \<open>What is done with the new job: record it, then enqueue it; a job that cannot be enqueued is failed.\<close>

definition enqueue_failed :: "'w server \<Rightarrow> job \<Rightarrow> ('w, response) state" where
  "enqueue_failed s job =
     do {
       t \<leftarrow> sys_now (sv_sys s);
       _ \<leftarrow> store_Put (sv_store s)
              (job\<lparr>job_Status := StatusFailed, job_Detail := enqueue_failed_detail, job_UpdatedAt := t\<rparr>);
       State_Monad.return (writeError 500 ''could not enqueue job'')
     }"

definition submit :: "'w server \<Rightarrow> job \<Rightarrow> ('w, response) state" where
  "submit s job =
     do {
       e1 \<leftarrow> store_Put (sv_store s) job;
       (if e1 \<noteq> None then State_Monad.return (writeError 500 ''could not record job'')
        else do {
          e2 \<leftarrow> queue_Enqueue (sv_queue s) (job_ID job) ActionProvision;
          (if e2 \<noteq> None then enqueue_failed s job
           else State_Monad.return
                  ((writeJSON 202 (BodyJob job))\<lparr>rs_Location := Some (''/v1/provision/'' @ job_ID job)\<rparr>))
        })
     }"

definition handleProvision :: "'w server \<Rightarrow> request \<Rightarrow> ('w, response) state" where
  "handleProvision s r =
     (case checkRequest (rq_Body r) of
        Inl msg \<Rightarrow> State_Monad.return (writeError 400 msg)
      | Inr req \<Rightarrow> do {
          now \<leftarrow> sys_now (sv_sys s);
          i \<leftarrow> newID s;
          submit s (new_job i req now)
        })"

definition handleStatus :: "'w server \<Rightarrow> string \<Rightarrow> ('w, response) state" where
  "handleStatus s i =
     do {
       r \<leftarrow> store_Get (sv_store s) i;
       State_Monad.return
         (case r of
            Inl err \<Rightarrow>
              if errors_is err ErrNotFound then writeError 404 (''no job with id '' @ i)
              else writeError 500 ''could not read job''
          | Inr job \<Rightarrow> writeJSON 200 (BodyJob job))
     }"

text \<open>The comparison that \<open>handleList\<close> hands to \<open>sort.Slice\<close>: \<open>CreatedAt.Before\<close>.\<close>

type_synonym sort_if = "(job \<Rightarrow> job \<Rightarrow> bool) \<Rightarrow> job list \<Rightarrow> job list"

definition created_before :: "job \<Rightarrow> job \<Rightarrow> bool" where
  "created_before a b \<longleftrightarrow> job_CreatedAt a < job_CreatedAt b"

definition handleList :: "sort_if \<Rightarrow> 'w server \<Rightarrow> ('w, response) state" where
  "handleList srt s =
     do {
       r \<leftarrow> store_List (sv_store s);
       State_Monad.return
         (case r of
            Inl err \<Rightarrow> writeError 500 ''could not list jobs''
          | Inr jobs \<Rightarrow> (let jobs' = srt created_before jobs in writeJSON 200 (BodyJobs (length jobs') jobs')))
     }"

definition mark_deleting :: "job \<Rightarrow> time \<Rightarrow> job" where
  "mark_deleting job t = job\<lparr>job_Status := StatusDeleting, job_Detail := [], job_UpdatedAt := t\<rparr>"

definition send_teardown :: "'w server \<Rightarrow> job \<Rightarrow> ('w, response) state" where
  "send_teardown s job =
     do {
       e1 \<leftarrow> store_Put (sv_store s) job;
       (if e1 \<noteq> None then State_Monad.return (writeError 500 ''could not record job'')
        else do {
          e2 \<leftarrow> queue_Enqueue (sv_queue s) (job_ID job) ActionDeprovision;
          State_Monad.return
            (if e2 \<noteq> None then writeError 500 ''could not enqueue deprovision''
             else writeJSON 202 (BodyJob job))
        })
     }"

definition handleDeprovision :: "'w server \<Rightarrow> string \<Rightarrow> ('w, response) state" where
  "handleDeprovision s i =
     do {
       r \<leftarrow> store_Get (sv_store s) i;
       (case r of
          Inl err \<Rightarrow>
            State_Monad.return
              (if errors_is err ErrNotFound then writeError 404 (''no job with id '' @ i)
               else writeError 500 ''could not read job'')
        | Inr job \<Rightarrow>
            if job_Status job = StatusDeleted then State_Monad.return (writeJSON 200 (BodyJob job))
            else if job_Status job = StatusDeleting then State_Monad.return (writeJSON 202 (BodyJob job))
            else do {
              t \<leftarrow> sys_now (sv_sys s);
              send_teardown s (mark_deleting job t)
            })
     }"

definition dead_limit :: "string \<Rightarrow> int" where
  "dead_limit v =
     (if v \<noteq> [] then (case atoi v of Some n \<Rightarrow> if n > 0 \<and> n \<le> 1000 then n else 100 | None \<Rightarrow> 100) else 100)"

definition handleListDead :: "'w server \<Rightarrow> string \<Rightarrow> ('w, response) state" where
  "handleListDead s v =
     do {
       r \<leftarrow> queue_ListDead (sv_queue s) (dead_limit v);
       State_Monad.return
         (case r of
            Inl err \<Rightarrow> writeError 500 ''could not list dead-letter''
          | Inr entries \<Rightarrow> writeJSON 200 (BodyDead (length entries) entries))
     }"

section \<open>Routing\<close>

text \<open>
  The pattern that \<open>ServeMux\<close> picks. A \<open>GET\<close> pattern also serves \<open>HEAD\<close>; \<open>{id}\<close> matches one
  non-empty segment; a path that only other methods serve is 405.
\<close>

datatype route =
    RHealth | RList | RProvision | RStatus string | RDeprovision string | RListDead
  | RMethodNotAllowed | RNotFound

definition is_get :: "string \<Rightarrow> bool" where
  "is_get m \<longleftrightarrow> m = ''GET'' \<or> m = ''HEAD''"

definition route :: "string \<Rightarrow> string list \<Rightarrow> route" where
  "route m path =
     (if path = [''healthz''] then (if is_get m then RHealth else RMethodNotAllowed)
      else if path = [''v1'', ''provision'']
      then (if is_get m then RList else if m = ''POST'' then RProvision else RMethodNotAllowed)
      else if path = [''v1'', ''dead''] then (if is_get m then RListDead else RMethodNotAllowed)
      else
        (case path of
           [a, b, i] \<Rightarrow>
             if a = ''v1'' \<and> b = ''provision'' \<and> i \<noteq> []
             then (if is_get m then RStatus i else if m = ''DELETE'' then RDeprovision i
                   else RMethodNotAllowed)
             else RNotFound
         | _ \<Rightarrow> RNotFound))"

definition Routes :: "sort_if \<Rightarrow> 'w server \<Rightarrow> request \<Rightarrow> ('w, response) state" where
  "Routes srt s r =
     (case route (rq_Method r) (rq_Path r) of
        RHealth \<Rightarrow> handleHealth
      | RList \<Rightarrow> handleList srt s
      | RProvision \<Rightarrow> handleProvision s r
      | RStatus i \<Rightarrow> handleStatus s i
      | RDeprovision i \<Rightarrow> handleDeprovision s i
      | RListDead \<Rightarrow> handleListDead s (rq_limit r)
      | RMethodNotAllowed \<Rightarrow> State_Monad.return (writeJSON 405 (BodyText ''Method Not Allowed''))
      | RNotFound \<Rightarrow> State_Monad.return (writeJSON 404 (BodyText ''404 page not found'')))"

end
