(* ===== verification/Api_Contract.thy ===== *)
theory Api_Contract
  imports Api Store Redis_Queue
begin

text \<open>
  What the broker's handlers do to the stored jobs and to the queue, for every store and queue that
  keep their contracts and do not disturb each other (the locale \<open>broker_env\<close>), with calls that may
  fail at any point.
\<close>

section \<open>The environment of the broker\<close>

locale broker_env = job_store "sv_store S" jobs inv + job_queue "sv_queue S" qview inv
  for S :: "'w server" and jobs :: "'w \<Rightarrow> string \<Rightarrow> job option" and qview :: "'w \<Rightarrow> queue_view"
    and inv :: "'w \<Rightarrow> bool" +
  assumes put_queue: "inv w \<Longrightarrow> wp (store_Put (sv_store S) j) (\<lambda>_ w'. qview w' = qview w) w"
    and get_queue: "inv w \<Longrightarrow> wp (store_Get (sv_store S) i) (\<lambda>_ w'. qview w' = qview w) w"
    and list_queue: "inv w \<Longrightarrow> wp (store_List (sv_store S)) (\<lambda>_ w'. qview w' = qview w) w"
    and enqueue_jobs: "inv w \<Longrightarrow> wp (queue_Enqueue (sv_queue S) i a) (\<lambda>_ w'. jobs w' = jobs w) w"
    and listdead_jobs: "inv w \<Longrightarrow> wp (queue_ListDead (sv_queue S) n) (\<lambda>_ w'. jobs w' = jobs w) w"
    and clock: "inv w \<Longrightarrow> wp (sys_now (sv_sys S)) (\<lambda>t w'. inv w' \<and> jobs w' = jobs w \<and> qview w' = qview w \<and> time_ok t) w"
    and random: "inv w \<Longrightarrow> wp (sys_rand (sv_sys S) len)
      (\<lambda>b w'. inv w' \<and> jobs w' = jobs w \<and> qview w' = qview w \<and> length b = len) w"
begin

lemma put_all:
  "inv w \<Longrightarrow> job_ok j \<Longrightarrow> wp (store_Put (sv_store S) j)
     (\<lambda>e w'. inv w' \<and> qview w' = qview w \<and>
        (jobs w' = (jobs w)(job_ID j \<mapsto> j) \<or> e \<noteq> None \<and> jobs w' = jobs w)) w"
  by (rule wp_mono [OF wp_conj [THEN iffD2, OF conjI, OF put put_queue]]) auto

lemma get_all:
  "inv w \<Longrightarrow> wp (store_Get (sv_store S) i)
     (\<lambda>r w'. inv w' \<and> qview w' = qview w \<and> jobs w' = jobs w \<and>
        (case r of Inr j \<Rightarrow> jobs w i = Some j | Inl e \<Rightarrow> errors_is e ErrNotFound \<longrightarrow> jobs w i = None)) w"
  by (rule wp_mono [OF wp_conj [THEN iffD2, OF conjI, OF get get_queue]]) auto

lemma enqueue_all:
  "inv w \<Longrightarrow> wp (queue_Enqueue (sv_queue S) i a)
     (\<lambda>e w'. inv w' \<and> jobs w' = jobs w \<and>
        (enqueued i a (qview w) (qview w') \<or> e \<noteq> None \<and> qview w' = qview w)) w"
  by (rule wp_mono [OF wp_conj [THEN iffD2, OF conjI, OF enqueue enqueue_jobs]]) auto

end

section \<open>POST /v1/provision\<close>

definition request_ok :: "request \<Rightarrow> bool" where
  "request_ok r \<longleftrightarrow> (\<forall>req. rq_Body r = Some req \<longrightarrow> utf8_valid (req_ServiceName req) \<and> utf8_valid (req_Resource req))"

lemma utf8_valid_postgres [simp]: "utf8_valid ResourcePostgres"
  by (rule utf8_valid_ascii) (simp add: ResourcePostgres_def is_ascii_def)

lemma utf8_valid_enqueue_failed [simp]: "utf8_valid enqueue_failed_detail"
  by (rule utf8_valid_ascii) (simp add: enqueue_failed_detail_def is_ascii_def)

lemma checkRequest_ok:
  "checkRequest b = Inr req \<Longrightarrow> req_Resource req = ResourcePostgres \<and> req_ServiceName req \<noteq> [] \<and>
     (\<exists>req0. b = Some req0 \<and> req_ServiceName req = req_ServiceName req0)"
  by (auto simp: checkRequest_def Let_def split: option.splits if_splits)

lemma hex_utf8 [simp]: "utf8_valid (hex_encode bs)"
  by (rule utf8_valid_ascii) (use hex_solid [OF hex_encode_hex] in auto)

lemma int64_range_0 [simp]: "int64_range 0"
  by (simp add: int64_range_def)

lemma new_job_ok:
  assumes "request_ok r" "checkRequest (rq_Body r) = Inr req" "time_ok t" "utf8_valid i"
  shows "job_ok (new_job i req t)"
  using assms checkRequest_ok [OF assms(2)] by (auto simp: new_job_def job_ok_def request_ok_def)

text \<open>The id that a POST arriving now would draw: the random bytes are read after the clock.\<close>

definition next_id :: "'w server \<Rightarrow> 'w \<Rightarrow> string" where
  "next_id s w = fst (run_state (do { _ \<leftarrow> sys_now (sv_sys s); newID s }) w)"

definition enqueue_failed_job :: "job \<Rightarrow> time \<Rightarrow> job" where
  "enqueue_failed_job j t = j\<lparr>job_Status := StatusFailed, job_Detail := enqueue_failed_detail, job_UpdatedAt := t\<rparr>"

definition puts_succeed :: "'w store_if \<Rightarrow> ('w \<Rightarrow> bool) \<Rightarrow> bool" where
  "puts_succeed st I \<longleftrightarrow> (\<forall>w j. I w \<longrightarrow> job_ok j \<longrightarrow> wp (store_Put st j) (\<lambda>e _. e = None) w)"

text \<open>
  What submitting a new job leads to. \<open>accepted\<close>: the job is recorded and a message for it is
  waiting. \<open>unsent\<close>: the job was recorded but its message was not seen to go out; the job is then
  marked failed, unless that last store failed too.
\<close>

definition accepted :: "job \<Rightarrow> response \<Rightarrow> (string \<Rightarrow> job option) \<Rightarrow> queue_view \<Rightarrow>
    (string \<Rightarrow> job option) \<Rightarrow> queue_view \<Rightarrow> bool" where
  "accepted j res m v m' v' \<longleftrightarrow>
     res = \<lparr>rs_Code = 202, rs_Location = Some (''/v1/provision/'' @ job_ID j), rs_Body = BodyJob j\<rparr> \<and>
     m' = m(job_ID j \<mapsto> j) \<and> enqueued (job_ID j) ActionProvision v v'"

definition unsent :: "job \<Rightarrow> (string \<Rightarrow> job option) \<Rightarrow> queue_view \<Rightarrow>
    (string \<Rightarrow> job option) \<Rightarrow> queue_view \<Rightarrow> bool" where
  "unsent j m v m' v' \<longleftrightarrow>
     (v' = v \<or> enqueued (job_ID j) ActionProvision v v') \<and>
     (m' = m(job_ID j \<mapsto> j) \<or>
      (\<exists>t. m' = m(job_ID j \<mapsto> j\<lparr>job_Status := StatusFailed, job_Detail := enqueue_failed_detail, job_UpdatedAt := t\<rparr>)))"

definition submitted :: "job \<Rightarrow> response \<Rightarrow> (string \<Rightarrow> job option) \<Rightarrow> queue_view \<Rightarrow>
    (string \<Rightarrow> job option) \<Rightarrow> queue_view \<Rightarrow> bool" where
  "submitted j res m v m' v' \<longleftrightarrow>
     accepted j res m v m' v' \<or>
     rs_Code res = 500 \<and> (unsent j m v m' v' \<or> m' = m \<and> v' = v)"

lemma codes [simp]:
  "rs_Code (writeError c m) = c" "rs_Code (writeJSON c b) = c" "rs_Body (writeJSON c b) = b"
  "rs_Body (writeError c m) = BodyError m"
  by (simp_all add: writeError_def writeJSON_def)

context broker_env
begin

lemma enqueue_failed_contract:
  assumes "inv w" "job_ok j" "jobs w = m(job_ID j \<mapsto> j)" "qview w = v \<or> enqueued (job_ID j) ActionProvision v (qview w)"
  shows "wp (enqueue_failed S j)
    (\<lambda>res w'. inv w' \<and> rs_Code res = 500 \<and> unsent j m v (jobs w') (qview w')) w"
proof -
  have put: "wp (store_Put (sv_store S) (j\<lparr>job_Status := StatusFailed, job_Detail := enqueue_failed_detail, job_UpdatedAt := t\<rparr>))
      (\<lambda>_ w'. inv w' \<and> unsent j m v (jobs w') (qview w')) w1"
    if "inv w1" "jobs w1 = jobs w" "qview w1 = qview w" "time_ok t" for t w1
    by (rule wp_mono [OF put_all [OF that(1)]]) (use that assms in \<open>auto simp: unsent_def\<close>)
  show ?thesis
    unfolding enqueue_failed_def wp_bind wp_return
    by (rule wp_mono [OF clock [OF assms(1)]]) (use put in simp)
qed

lemma submit_contract:
  assumes "inv w" "job_ok j"
  shows "wp (submit S j) (\<lambda>res w'. inv w' \<and> submitted j res (jobs w) (qview w) (jobs w') (qview w')) w"
proof -
  let ?Q = "\<lambda>res w'. inv w' \<and> submitted j res (jobs w) (qview w) (jobs w') (qview w')"
  have failed: "wp (enqueue_failed S j) ?Q w2"
    if "inv w2" "jobs w2 = (jobs w)(job_ID j \<mapsto> j)" "qview w2 = qview w \<or> enqueued (job_ID j) ActionProvision (qview w) (qview w2)" for w2
    by (rule wp_mono [OF enqueue_failed_contract [OF that(1) assms(2) that(2,3)]]) (simp add: submitted_def)
  have enq: "wp (queue_Enqueue (sv_queue S) (job_ID j) ActionProvision) (\<lambda>e2. wp (if e2 \<noteq> None then enqueue_failed S j
        else State_Monad.return ((writeJSON 202 (BodyJob j))\<lparr>rs_Location := Some (''/v1/provision/'' @ job_ID j)\<rparr>)) ?Q) w1"
    if "inv w1" "jobs w1 = (jobs w)(job_ID j \<mapsto> j)" "qview w1 = qview w" for w1
    by (rule wp_mono [OF enqueue_all [OF that(1)]])
       (use that failed in \<open>auto simp: submitted_def accepted_def writeJSON_def\<close>)
  show ?thesis
    unfolding submit_def wp_bind
    by (rule wp_mono [OF put_all [OF assms]])
       (use enq in \<open>auto simp: submitted_def unsent_def\<close>)
qed

text \<open>With a store that takes every \<open>Put\<close>, a failed submission leaves the job marked as failed.\<close>

lemma put_taken:
  assumes "inv w" "job_ok j" "puts_succeed (sv_store S) inv"
  shows "wp (store_Put (sv_store S) j) (\<lambda>e w'. inv w' \<and> e = None \<and> jobs w' = (jobs w)(job_ID j \<mapsto> j)) w"
  by (rule wp_mono [OF wp_conj [THEN iffD2, OF conjI, OF put_all [OF assms(1,2)]
        assms(3) [unfolded puts_succeed_def, rule_format, OF assms(1,2)]]]) auto

lemma submit_marks:
  assumes "inv w" "job_ok j" "puts_succeed (sv_store S) inv"
  shows "wp (submit S j) (\<lambda>res w'. rs_Code res = 500 \<longrightarrow> (\<exists>t. jobs w' (job_ID j) = Some (enqueue_failed_job j t))) w"
proof -
  let ?Q = "\<lambda>res w'. rs_Code res = 500 \<longrightarrow> (\<exists>t. jobs w' (job_ID j) = Some (enqueue_failed_job j t))"
  have mark: "wp (store_Put (sv_store S) (enqueue_failed_job j t)) (\<lambda>_. ?Q r) w2" if "inv w2" "time_ok t" for r t w2
    by (rule wp_mono [OF put_taken [OF that(1) _ assms(3)]]) (use that assms(2) in \<open>auto simp: enqueue_failed_job_def\<close>)
  have failed: "wp (enqueue_failed S j) ?Q w2" if "inv w2" for w2
    unfolding enqueue_failed_def wp_bind wp_return enqueue_failed_job_def [symmetric]
    by (rule wp_mono [OF clock [OF that]], rule mark) auto
  have sent: "wp (queue_Enqueue (sv_queue S) (job_ID j) ActionProvision) (\<lambda>e2. wp (if e2 \<noteq> None then enqueue_failed S j
        else State_Monad.return ((writeJSON 202 (BodyJob j))\<lparr>rs_Location := Some (''/v1/provision/'' @ job_ID j)\<rparr>)) ?Q) w1"
    if "inv w1" for w1
    by (rule wp_mono [OF enqueue_all [OF that]]) (use failed in \<open>auto simp: writeJSON_def\<close>)
  show ?thesis
    unfolding submit_def wp_bind by (rule wp_mono [OF put_taken [OF assms]]) (use sent in simp)
qed

lemma handleProvision_contract:
  assumes "inv w" "request_ok r"
  shows "wp (handleProvision S r) (\<lambda>res w'. inv w' \<and>
    (case checkRequest (rq_Body r) of
       Inl msg \<Rightarrow> res = writeError 400 msg \<and> jobs w' = jobs w \<and> qview w' = qview w
     | Inr req \<Rightarrow> length (next_id S w) = 16 \<and> (\<exists>t.
         submitted (new_job (next_id S w) req t) res (jobs w) (qview w) (jobs w') (qview w') \<and>
         (puts_succeed (sv_store S) inv \<and> rs_Code res = 500 \<longrightarrow>
            (\<exists>t'. jobs w' (next_id S w) = Some (enqueue_failed_job (new_job (next_id S w) req t) t')))))) w"
proof (cases "checkRequest (rq_Body r)")
  case (Inl msg)
  with assms show ?thesis by (simp add: handleProvision_def)
next
  case (Inr req)
  obtain t w1 where now: "run_state (sys_now (sv_sys S)) w = (t, w1)" by (metis surj_pair)
  obtain b w2 where rand: "run_state (sys_rand (sv_sys S) 8) w1 = (b, w2)" by (metis surj_pair)
  have w1: "inv w1" "jobs w1 = jobs w" "qview w1 = qview w" "time_ok t"
    using wp_runD [OF clock [OF assms(1)] now] by simp_all
  have w2: "inv w2" "jobs w2 = jobs w" "qview w2 = qview w" "length b = 8"
    using wp_runD [OF random [OF w1(1)] rand] w1 by simp_all
  have i: "next_id S w = hex_encode b" by (simp add: next_id_def newID_def now rand)
  let ?j = "new_job (hex_encode b) req t"
  have j: "job_ok ?j" "job_ID ?j = hex_encode b"
    using new_job_ok [OF assms(2) Inr w1(4)] by (simp_all add: new_job_def)
  have "wp (handleProvision S r) Q w = wp (submit S ?j) Q w2" for Q
    by (simp add: handleProvision_def Inr newID_def wp_run [OF now] wp_run [OF rand])
  moreover have "wp (submit S ?j) (\<lambda>res w'. inv w' \<and> submitted ?j res (jobs w) (qview w) (jobs w') (qview w') \<and>
      (puts_succeed (sv_store S) inv \<and> rs_Code res = 500 \<longrightarrow> (\<exists>t'. jobs w' (hex_encode b) = Some (enqueue_failed_job ?j t')))) w2"
    using submit_contract [OF w2(1) j(1)] submit_marks [OF w2(1) j(1)]
    by (auto simp: wp_def w2 j(2) split: prod.splits)
  ultimately show ?thesis
    using hex_encode_length [of b] by (auto simp: Inr i w2(4) elim!: wp_mono)
qed

end

section \<open>DELETE /v1/provision/id\<close>

text \<open>
  What a DELETE of the job \<open>j\<close> leads to. A job that is deleted or being deleted is only reported; any
  other job is marked, and then a teardown message is sent.
\<close>

definition teardown_sent :: "job \<Rightarrow> response \<Rightarrow> (string \<Rightarrow> job option) \<Rightarrow> queue_view \<Rightarrow>
    (string \<Rightarrow> job option) \<Rightarrow> queue_view \<Rightarrow> bool" where
  "teardown_sent j res m v m' v' \<longleftrightarrow>
     res = writeJSON 202 (BodyJob j) \<and> m' = m(job_ID j \<mapsto> j) \<and> enqueued (job_ID j) ActionDeprovision v v' \<or>
     rs_Code res = 500 \<and> (m' = m \<and> v' = v \<or>
       m' = m(job_ID j \<mapsto> j) \<and> (v' = v \<or> enqueued (job_ID j) ActionDeprovision v v'))"

definition torn_down :: "job \<Rightarrow> response \<Rightarrow> (string \<Rightarrow> job option) \<Rightarrow> queue_view \<Rightarrow>
    (string \<Rightarrow> job option) \<Rightarrow> queue_view \<Rightarrow> bool" where
  "torn_down j res m v m' v' \<longleftrightarrow>
     (if job_Status j = StatusDeleted then res = writeJSON 200 (BodyJob j) \<and> m' = m \<and> v' = v
      else if job_Status j = StatusDeleting then res = writeJSON 202 (BodyJob j) \<and> m' = m \<and> v' = v
      else \<exists>t. teardown_sent (mark_deleting j t) res m v m' v')"

context broker_env
begin

lemma send_teardown_contract:
  assumes "inv w" "job_ok j"
  shows "wp (send_teardown S j) (\<lambda>res w'. inv w' \<and> teardown_sent j res (jobs w) (qview w) (jobs w') (qview w')) w"
proof -
  have enq: "wp (queue_Enqueue (sv_queue S) (job_ID j) ActionDeprovision) (\<lambda>e2 w'. inv w' \<and>
      teardown_sent j (if e2 \<noteq> None then writeError 500 ''could not enqueue deprovision'' else writeJSON 202 (BodyJob j))
        (jobs w) (qview w) (jobs w') (qview w')) w2"
    if "inv w2" "jobs w2 = (jobs w)(job_ID j \<mapsto> j)" "qview w2 = qview w" for w2
    by (rule wp_mono [OF enqueue_all [OF that(1)]]) (use that in \<open>auto simp: teardown_sent_def\<close>)
  show ?thesis
    unfolding send_teardown_def wp_bind
    by (rule wp_mono [OF put_all [OF assms]]) (use enq in \<open>auto simp: teardown_sent_def\<close>)
qed

lemma handleDeprovision_contract:
  assumes "inv w"
  shows "wp (handleDeprovision S i) (\<lambda>res w'. inv w' \<and>
    (rs_Code res = 404 \<and> jobs w i = None \<and> jobs w' = jobs w \<and> qview w' = qview w \<or>
     rs_Code res = 500 \<and> jobs w' = jobs w \<and> qview w' = qview w \<or>
     (\<exists>j. jobs w i = Some j \<and> torn_down j res (jobs w) (qview w) (jobs w') (qview w')))) w" (is "wp _ ?Q w")
proof -
  have send: "wp (send_teardown S (mark_deleting j t)) ?Q w2"
    if "inv w2" "jobs w2 = jobs w" "qview w2 = qview w" "jobs w i = Some j"
      "job_Status j \<noteq> StatusDeleted" "job_Status j \<noteq> StatusDeleting" "time_ok t" for j t w2
  proof (rule wp_mono [OF send_teardown_contract [OF that(1)]])
    show "job_ok (mark_deleting j t)" using keyed [OF assms that(4)] that(7) by (simp add: mark_deleting_def)
  qed (use that in \<open>auto simp: torn_down_def\<close>)
  have now: "wp (sys_now (sv_sys S)) (\<lambda>t. wp (send_teardown S (mark_deleting j t)) ?Q) w1"
    if "inv w1" "jobs w1 = jobs w" "qview w1 = qview w" "jobs w i = Some j"
      "job_Status j \<noteq> StatusDeleted" "job_Status j \<noteq> StatusDeleting" for j w1
    by (rule wp_mono [OF clock [OF that(1)]]) (rule send, use that in auto)
  have found: "wp (if job_Status j = StatusDeleted then State_Monad.return (writeJSON 200 (BodyJob j))
      else if job_Status j = StatusDeleting then State_Monad.return (writeJSON 202 (BodyJob j))
      else do { t \<leftarrow> sys_now (sv_sys S); send_teardown S (mark_deleting j t) }) ?Q w1"
    if "inv w1" "jobs w1 = jobs w" "qview w1 = qview w" "jobs w i = Some j" for j w1
  proof -
    consider "job_Status j = StatusDeleted" | "job_Status j = StatusDeleting"
      | "job_Status j \<noteq> StatusDeleted" "job_Status j \<noteq> StatusDeleting" by blast
    then show ?thesis
    proof cases
      case 3
      from now [OF that 3] 3 show ?thesis by (simp only: if_False wp_bind)
    qed (use that in \<open>simp_all add: torn_down_def\<close>)
  qed
  show ?thesis
    unfolding handleDeprovision_def wp_bind
  proof (rule wp_mono [OF get_all [OF assms]], goal_cases)
    case (1 r w1)
    then show ?case
    proof (cases r)
      case (Inr j)
      with 1 show ?thesis unfolding Inr sum.case by (intro found) simp_all
    qed simp
  qed
qed

end

section \<open>The reading handlers\<close>

text \<open>
  What \<open>sort.Slice\<close> promises: for a comparison that is a strict weak order the result is a permutation in which no
  element is less than one before it.
\<close>

definition weak_order :: "('a \<Rightarrow> 'a \<Rightarrow> bool) \<Rightarrow> bool" where
  "weak_order lt \<longleftrightarrow> (\<forall>a. \<not> lt a a) \<and> (\<forall>a b c. lt a b \<longrightarrow> lt b c \<longrightarrow> lt a c) \<and>
     (\<forall>a b c. \<not> lt a b \<longrightarrow> \<not> lt b c \<longrightarrow> \<not> lt a c)"

definition sort_Slice_ok :: "sort_if \<Rightarrow> bool" where
  "sort_Slice_ok srt \<longleftrightarrow> (\<forall>lt js. weak_order lt \<longrightarrow>
     mset (srt lt js) = mset js \<and> sorted_wrt (\<lambda>a b. \<not> lt b a) (srt lt js))"

lemma weak_order_created: "weak_order created_before"
  by (auto simp: weak_order_def created_before_def)

lemma sort_Slice_created:
  assumes "sort_Slice_ok srt"
  shows "mset (srt created_before js) = mset js" "sorted_wrt (\<lambda>a b. \<not> created_before b a) (srt created_before js)"
  using assms weak_order_created by (simp_all add: sort_Slice_ok_def)

text \<open>Sorting by insertion is such a \<open>sort.Slice\<close>.\<close>

fun insert_by :: "('a \<Rightarrow> 'a \<Rightarrow> bool) \<Rightarrow> 'a \<Rightarrow> 'a list \<Rightarrow> 'a list" where
  "insert_by lt x [] = [x]"
| "insert_by lt x (y # ys) = (if lt y x then y # insert_by lt x ys else x # y # ys)"

definition sort_by :: "('a \<Rightarrow> 'a \<Rightarrow> bool) \<Rightarrow> 'a list \<Rightarrow> 'a list" where
  "sort_by lt xs = foldr (insert_by lt) xs []"

lemma mset_insert_by [simp]: "mset (insert_by lt x ys) = add_mset x (mset ys)"
  by (induction ys) auto

lemma insert_by_sorted:
  assumes "weak_order lt" "sorted_wrt (\<lambda>a b. \<not> lt b a) ys"
  shows "sorted_wrt (\<lambda>a b. \<not> lt b a) (insert_by lt x ys)"
  using assms(2)
proof (induction ys)
  case (Cons y ys)
  have "set (insert_by lt x ys) = insert x (set ys)"
    by (simp flip: set_mset_mset)
  moreover have "\<not> lt x y" if "lt y x" using that assms(1) unfolding weak_order_def by blast
  moreover have "\<not> lt b x" if "\<not> lt y x" "b \<in> set ys" for b
    using that Cons.prems assms(1) unfolding weak_order_def sorted_wrt.simps by blast
  ultimately show ?case using Cons by simp
qed simp

lemma sort_by_ok [simp]: "sort_Slice_ok sort_by"
proof -
  have "mset (sort_by lt js) = mset js \<and> sorted_wrt (\<lambda>a b. \<not> lt b a) (sort_by lt js)"
    if "weak_order lt" for lt :: "job \<Rightarrow> job \<Rightarrow> bool" and js
    by (induction js) (simp_all add: sort_by_def insert_by_sorted [OF that])
  then show ?thesis by (simp add: sort_Slice_ok_def)
qed

context broker_env
begin

lemma handleStatus_contract:
  assumes "inv w"
  shows "wp (handleStatus S i) (\<lambda>res w'. inv w' \<and> jobs w' = jobs w \<and> qview w' = qview w \<and>
    (rs_Code res = 200 \<longrightarrow> (\<exists>j. jobs w i = Some j \<and> rs_Body res = BodyJob j)) \<and>
    (rs_Code res = 404 \<longrightarrow> jobs w i = None) \<and> rs_Code res \<in> {200, 404, 500}) w"
  unfolding handleStatus_def wp_bind wp_return
  by (rule wp_mono [OF get_all [OF assms]]) (auto split: sum.splits)

lemma list_all_jobs:
  "inv w \<Longrightarrow> wp (store_List (sv_store S)) (\<lambda>r w'. inv w' \<and> jobs w' = jobs w \<and> qview w' = qview w \<and>
     (case r of Inr js \<Rightarrow> set js = ran (jobs w) | Inl _ \<Rightarrow> True)) w"
  by (rule wp_mono [OF wp_conj [THEN iffD2, OF conjI, OF list list_queue]]) auto

lemma handleList_contract:
  assumes "inv w" "sort_Slice_ok srt"
  shows "wp (handleList srt S) (\<lambda>res w'. inv w' \<and> jobs w' = jobs w \<and> qview w' = qview w \<and>
    (rs_Code res = 500 \<or>
     (\<exists>js js0 w0. res = writeJSON 200 (BodyJobs (length js) js) \<and> set js = ran (jobs w) \<and>
        run_state (store_List (sv_store S)) w = (Inr js0, w0) \<and> mset js = mset js0 \<and>
        sorted_wrt (\<lambda>a b. job_CreatedAt a \<le> job_CreatedAt b) js))) w"
proof -
  obtain r w1 where run: "run_state (store_List (sv_store S)) w = (r, w1)" by (metis surj_pair)
  have srt: "set (srt created_before js) = set js"
      "sorted_wrt (\<lambda>a b. job_CreatedAt a \<le> job_CreatedAt b) (srt created_before js)" for js
    using sort_Slice_created [OF assms(2), of js] by (auto dest: mset_eq_setD simp: created_before_def linorder_not_less)
  show ?thesis
    using wp_runD [OF list_all_jobs [OF assms(1)] run] srt sort_Slice_created(1) [OF assms(2)]
    unfolding handleList_def wp_bind wp_return wp_run [OF run]
    by (cases r) (auto simp: run Let_def)
qed

lemma handleListDead_contract:
  assumes "inv w"
  shows "wp (handleListDead S v) (\<lambda>res w'. inv w' \<and> jobs w' = jobs w \<and> qview w' = qview w \<and>
    (rs_Code res = 500 \<or>
     (\<exists>es. res = writeJSON 200 (BodyDead (length es) es) \<and>
        es = take (nat (dead_limit v)) (qv_dead (qview w))))) w"
proof -
  have "dead_limit v > 0" by (simp add: dead_limit_def split: option.split)
  then show ?thesis
    unfolding handleListDead_def wp_bind wp_return
    by (intro wp_mono [OF wp_conj [THEN iffD2, OF conjI, OF listdead [OF assms] listdead_jobs [OF assms]]])
       (auto split: sum.splits)
qed

end

end
