(* ===== verification/Plant.thy ===== *)
theory Plant
  imports Docker_Sim Control_Plane Worker_Guarantees Api_Contract
begin

text \<open>
  The programs put together: the broker and the worker over one Redis, one docker daemon and one control
  plane. The store, the queue, the provisioner and the control plane's client are the ones of the
  sources; only Redis, docker and the snapshot cache are stand-ins that keep the stated laws and fail as
  their scripts say. Every contract of the development is interpreted on this plant.
\<close>

section \<open>The plant\<close>

record plant =
  pl_redis :: redis_server
  pl_docker :: docker_sim
  pl_registry :: "snapshot option registry"

definition on_redis :: "(redis_server, 'a) state \<Rightarrow> (plant, 'a) state" where
  "on_redis m = on_part pl_redis (\<lambda>s w. w\<lparr>pl_redis := s\<rparr>) m"

definition on_docker :: "(docker_sim, 'a) state \<Rightarrow> (plant, 'a) state" where
  "on_docker m = on_part pl_docker (\<lambda>d w. w\<lparr>pl_docker := d\<rparr>) m"

definition on_registry :: "(snapshot option registry, 'a) state \<Rightarrow> (plant, 'a) state" where
  "on_registry m = on_part pl_registry (\<lambda>r w. w\<lparr>pl_registry := r\<rparr>) m"

definition plant_redis :: "plant redis_if" where
  "plant_redis =
     \<lparr>rd_Set = (\<lambda>k v t. on_redis (rd_Set redis_srv k v t)), rd_Get = (\<lambda>k. on_redis (rd_Get redis_srv k)),
      rd_Scan = (\<lambda>c p n. on_redis (rd_Scan redis_srv c p n)),
      rd_XGroupCreateMkStream = (\<lambda>k g s. on_redis (rd_XGroupCreateMkStream redis_srv k g s)),
      rd_XAdd = (\<lambda>a. on_redis (rd_XAdd redis_srv a)), rd_XReadGroup = (\<lambda>a. on_redis (rd_XReadGroup redis_srv a)),
      rd_XAutoClaim = (\<lambda>a. on_redis (rd_XAutoClaim redis_srv a)),
      rd_XAck = (\<lambda>k g i. on_redis (rd_XAck redis_srv k g i)),
      rd_XRangeN = (\<lambda>k lo hi n. on_redis (rd_XRangeN redis_srv k lo hi n))\<rparr>"

definition plant_sys :: "plant sys_if" where
  "plant_sys =
     \<lparr>sys_now = on_redis (sys_now srv_sys), sys_rand = (\<lambda>n. on_redis (sys_rand srv_sys n)),
      sys_ctx_err = on_redis (sys_ctx_err srv_sys), sys_sleep = (\<lambda>d. on_redis (sys_sleep srv_sys d))\<rparr>"

definition plant_docker :: "plant docker_if" where
  "plant_docker =
     \<lparr>dk_Output = (\<lambda>args. on_docker (dk_Output docker_sim_if args)),
      dk_CombinedOutput = (\<lambda>args. on_docker (dk_CombinedOutput docker_sim_if args)),
      dk_Run = (\<lambda>args. on_docker (dk_Run docker_sim_if args)), hc_Get = (\<lambda>url. on_docker (hc_Get docker_sim_if url))\<rparr>"

definition quoted :: "string \<Rightarrow> string" where
  "quoted s = ''\"'' @ s @ ''\"''"

definition plant_shell :: "plant shell" where
  "plant_shell = NewShell plant_docker plant_sys inspect_decode quoted id 80"

definition plant_store :: "plant store_if" where
  "plant_store = redis_store 1000 plant_redis text_codec"

definition plant_queue :: "plant queue_if" where
  "plant_queue = redis_queue plant_redis plant_sys int_time_text"

definition plant_client :: "snapshot option registry xds_if" where
  "plant_client = NewHTTP (admin_transport simple_cache rng_rev 0 ''xds:19000'') ''xds:19000''"

definition plant_xds :: "plant xds_if" where
  "plant_xds =
     \<lparr>xds_Register = (\<lambda>s h p. on_registry (xds_Register plant_client s h p)),
      xds_Unregister = (\<lambda>s h p. on_registry (xds_Unregister plant_client s h p))\<rparr>"

definition plant_worker :: "plant worker" where
  "plant_worker =
     \<lparr>wk_Name = ''w1'', wk_Store = plant_store, wk_Queue = plant_queue, wk_Provision = shell_prov plant_shell,
      wk_XDS = Some plant_xds, wk_Sys = plant_sys, wk_BlockTimeout = defaultBlockTimeout,
      wk_ReclaimEvery = defaultReclaimEvery, wk_ReclaimMinIdle = defaultReclaimMinIdle,
      wk_MaxAttempts = defaultMaxAttempts\<rparr>"

definition plant_server :: "plant server" where
  "plant_server = \<lparr>sv_store = plant_store, sv_queue = plant_queue, sv_sys = plant_sys\<rparr>"

section \<open>Views and invariant\<close>

definition plant_inv :: "plant \<Rightarrow> bool" where
  "plant_inv w \<longleftrightarrow> srv_inv (pl_redis w) \<and> ds_inv (pl_docker w) \<and> services_wf (reg_services (pl_registry w))"

abbreviation plant_kv :: "plant \<Rightarrow> string \<Rightarrow> string option" where
  "plant_kv w \<equiv> srv_strings (pl_redis w)"

abbreviation plant_view :: "plant \<Rightarrow> stream_view" where
  "plant_view w \<equiv> srv_view (pl_redis w)"

abbreviation plant_cts :: "plant \<Rightarrow> containers" where
  "plant_cts w \<equiv> ds_view (pl_docker w)"

text \<open>How a law of a part becomes a law of the plant.\<close>

lemma wp_on [simp]:
  "wp (on_redis m) Q w = wp m (\<lambda>a s. Q a (w\<lparr>pl_redis := s\<rparr>)) (pl_redis w)"
  "wp (on_docker n) Q' w = wp n (\<lambda>a d. Q' a (w\<lparr>pl_docker := d\<rparr>)) (pl_docker w)"
  "wp (on_registry l) Q'' w = wp l (\<lambda>a r. Q'' a (w\<lparr>pl_registry := r\<rparr>)) (pl_registry w)"
  by (simp_all add: on_redis_def on_docker_def on_registry_def)

lemma keeps_on_redis:
  assumes "keeps srv_inv g G m"
  shows "keeps plant_inv (\<lambda>w. (g (pl_redis w), pl_docker w, pl_registry w)) G (on_redis m)"
  unfolding keeps_def wp_on
proof (intro allI impI)
  fix w assume w: "plant_inv w"
  then have "srv_inv (pl_redis w)" by (simp add: plant_inv_def)
  from keepsD [OF assms this] show "wp m (\<lambda>a s. plant_inv (w\<lparr>pl_redis := s\<rparr>) \<and>
      (g (pl_redis (w\<lparr>pl_redis := s\<rparr>)), pl_docker (w\<lparr>pl_redis := s\<rparr>), pl_registry (w\<lparr>pl_redis := s\<rparr>)) =
      (g (pl_redis w), pl_docker w, pl_registry w) \<and> G a) (pl_redis w)"
    by (rule wp_mono) (use w in \<open>auto simp: plant_inv_def\<close>)
qed

lemma keeps_on_docker:
  assumes "keeps ds_inv g G m"
  shows "keeps plant_inv (\<lambda>w. (pl_redis w, g (pl_docker w), pl_registry w)) G (on_docker m)"
  unfolding keeps_def wp_on
proof (intro allI impI)
  fix w assume w: "plant_inv w"
  then have "ds_inv (pl_docker w)" by (simp add: plant_inv_def)
  from keepsD [OF assms this] show "wp m (\<lambda>a s. plant_inv (w\<lparr>pl_docker := s\<rparr>) \<and>
      (pl_redis (w\<lparr>pl_docker := s\<rparr>), g (pl_docker (w\<lparr>pl_docker := s\<rparr>)), pl_registry (w\<lparr>pl_docker := s\<rparr>)) =
      (pl_redis w, g (pl_docker w), pl_registry w) \<and> G a) (pl_docker w)"
    by (rule wp_mono) (use w in \<open>auto simp: plant_inv_def\<close>)
qed

lemma on_redis_law:
  assumes "plant_inv w" "srv_inv (pl_redis w) \<Longrightarrow> wp m (\<lambda>a s. srv_inv s \<and> Q a s) (pl_redis w)"
    and "\<And>a s. plant_inv (w\<lparr>pl_redis := s\<rparr>) \<Longrightarrow> Q a s \<Longrightarrow> P a (w\<lparr>pl_redis := s\<rparr>)"
  shows "wp (on_redis m) P w"
proof -
  have "srv_inv (pl_redis w)" using assms(1) by (simp add: plant_inv_def)
  then show ?thesis
    unfolding wp_on by (intro wp_mono [OF assms(2)]) (use assms(1,3) in \<open>auto simp: plant_inv_def\<close>)
qed

lemma on_docker_law:
  assumes "plant_inv w" "ds_inv (pl_docker w) \<Longrightarrow> wp m (\<lambda>a s. ds_inv s \<and> Q a s) (pl_docker w)"
    and "\<And>a s. plant_inv (w\<lparr>pl_docker := s\<rparr>) \<Longrightarrow> Q a s \<Longrightarrow> P a (w\<lparr>pl_docker := s\<rparr>)"
  shows "wp (on_docker m) P w"
proof -
  have "ds_inv (pl_docker w)" using assms(1) by (simp add: plant_inv_def)
  then show ?thesis
    unfolding wp_on by (intro wp_mono [OF assms(2)]) (use assms(1,3) in \<open>auto simp: plant_inv_def\<close>)
qed

section \<open>Redis on the plant\<close>

lemma plant_kv_laws:
  "redis_kv plant_redis plant_kv plant_inv (\<lambda>w. srv_todo (pl_redis w)) (\<lambda>w. srv_rank (pl_redis w))"
  unfolding plant_redis_def
proof (unfold_locales, unfold redis_if.select_convs, goal_cases)
  case (1 w k v)
  then show ?case by (rule on_redis_law [OF _ redis_kv.rset [OF srv_kv_laws]]) auto
next
  case (2 w k)
  then show ?case by (rule on_redis_law [OF _ redis_kv.rget [OF srv_kv_laws]]) auto
next
  case (3 w p c n)
  then show ?case
    by (intro on_redis_law [OF _ redis_kv.scan [OF srv_kv_laws, where p = p and c = c and n = n]])
       (auto split: sum.splits)
next
  case (4 w p)
  then show ?case using redis_kv.scan_start [OF srv_kv_laws] by (auto simp: plant_inv_def)
qed

lemma plant_stream_laws:
  "redis_streams plant_redis plant_view (\<lambda>w. srv_idle (pl_redis w)) plant_inv"
  unfolding plant_redis_def
proof (unfold_locales, unfold redis_if.select_convs, goal_cases)
  case (1 w a)
  then show ?case by (rule on_redis_law [OF _ redis_streams.xadd [OF srv_stream_laws]]) auto
next
  case (2 w ra k)
  then show ?case
    by (intro on_redis_law [OF _ redis_streams.xreadgroup [OF srv_stream_laws _ 2(2,3)]]) (auto split: sum.splits)
next
  case (3 w ca)
  then show ?case
    by (intro on_redis_law [OF _ redis_streams.xautoclaim [OF srv_stream_laws _ 3(2)]]) auto
next
  case (4 w k g i)
  then show ?case by (rule on_redis_law [OF _ redis_streams.xack [OF srv_stream_laws]]) auto
next
  case (5 w n k)
  then show ?case by (intro on_redis_law [OF _ redis_streams.xrangen [OF srv_stream_laws _ 5(2)]]) auto
next
  case (6 w k g)
  then show ?case by (rule on_redis_law [OF _ redis_streams.xgroup [OF srv_stream_laws]]) auto
qed

interpretation ps: redis_job_store plant_redis plant_kv plant_inv "\<lambda>w. srv_todo (pl_redis w)"
  "\<lambda>w. srv_rank (pl_redis w)" text_codec n for n
  by (intro redis_job_store.intro plant_kv_laws redis_job_store_axioms.intro text_codec_ok)

text \<open>Each call of the system, of a part of Redis or of the control plane, with all that it leaves alone.\<close>

lemma plant_sys_keeps:
  "keeps plant_inv (\<lambda>w. ((plant_kv w, plant_view w), pl_docker w, pl_registry w)) time_ok (sys_now plant_sys)"
  "keeps plant_inv (\<lambda>w. ((plant_kv w, plant_view w), pl_docker w, pl_registry w)) (\<lambda>b. length b = n) (sys_rand plant_sys n)"
  "keeps plant_inv (\<lambda>w. ((plant_kv w, plant_view w), pl_docker w, pl_registry w))
     (\<lambda>e. e \<in> {None, Some (Sentinel CtxDeadlineExceeded)}) (sys_ctx_err plant_sys)"
  "keeps plant_inv (\<lambda>w. ((plant_kv w, plant_view w), pl_docker w, pl_registry w)) any_result (sys_sleep plant_sys d)"
  unfolding plant_sys_def sys_if.select_convs by (rule keeps_on_redis sys_keeps)+

lemma plant_store_keeps:
  "keeps plant_inv (\<lambda>w. (plant_view w, pl_docker w, pl_registry w)) any_result (store_Put plant_store j)"
  "keeps plant_inv (\<lambda>w. (plant_view w, pl_docker w, pl_registry w)) any_result (store_Get plant_store i)"
  "keeps plant_inv (\<lambda>w. (plant_view w, pl_docker w, pl_registry w)) any_result (store_List plant_store)"
  unfolding plant_store_def
  by (rule redis_store_frame;
      unfold plant_redis_def redis_if.select_convs; rule keeps_on_redis; rule strings_keep_streams)+

lemma plant_redis_keeps_strings:
  "keeps plant_inv (\<lambda>w. (plant_kv w, pl_docker w, pl_registry w)) any_result (rd_XAdd plant_redis a)"
  "xr_Streams ra = [k, ''>''] \<Longrightarrow> xr_Count ra = 1 \<Longrightarrow>
     keeps plant_inv (\<lambda>w. (plant_kv w, pl_docker w, pl_registry w)) any_result (rd_XReadGroup plant_redis ra)"
  "xc_Start ca = ''0-0'' \<Longrightarrow>
     keeps plant_inv (\<lambda>w. (plant_kv w, pl_docker w, pl_registry w)) any_result (rd_XAutoClaim plant_redis ca)"
  "keeps plant_inv (\<lambda>w. (plant_kv w, pl_docker w, pl_registry w)) any_result (rd_XAck plant_redis k g i)"
  "n > 0 \<Longrightarrow>
     keeps plant_inv (\<lambda>w. (plant_kv w, pl_docker w, pl_registry w)) any_result (rd_XRangeN plant_redis k ''-'' ''+'' n)"
  unfolding plant_redis_def redis_if.select_convs
  by (rule keeps_on_redis; rule streams_keep_strings; assumption)+

lemma plant_now_keeps_strings:
  "keeps plant_inv (\<lambda>w. (plant_kv w, pl_docker w, pl_registry w)) any_result (sys_now plant_sys)"
  by (rule keeps_image [OF keeps_weaken [OF plant_sys_keeps(1)], where h = "\<lambda>((a, _), b). (a, b)"]) auto

lemma plant_queue_keeps:
  "keeps plant_inv (\<lambda>w. (plant_kv w, pl_docker w, pl_registry w)) any_result (queue_Enqueue plant_queue i a)"
  "keeps plant_inv (\<lambda>w. (plant_kv w, pl_docker w, pl_registry w)) any_result (queue_Dequeue plant_queue c b)"
  "keeps plant_inv (\<lambda>w. (plant_kv w, pl_docker w, pl_registry w)) any_result (queue_Reclaim plant_queue c d n)"
  "keeps plant_inv (\<lambda>w. (plant_kv w, pl_docker w, pl_registry w)) any_result (queue_Ack plant_queue m)"
  "keeps plant_inv (\<lambda>w. (plant_kv w, pl_docker w, pl_registry w)) any_result (queue_DeadLetter plant_queue m det n)"
  "keeps plant_inv (\<lambda>w. (plant_kv w, pl_docker w, pl_registry w)) any_result (queue_ListDead plant_queue n)"
  unfolding plant_queue_def
  by (rule redis_queue_frame; rule plant_redis_keeps_strings plant_now_keeps_strings; assumption)+

interpretation pq: redis_job_queue plant_redis plant_view "\<lambda>w. srv_idle (pl_redis w)" plant_inv plant_sys int_time_text
proof (intro redis_job_queue.intro plant_stream_laws redis_job_queue_axioms.intro)
  show "wp (sys_now plant_sys) (\<lambda>_ w'. plant_inv w' \<and> plant_view w' = plant_view w) w" if "plant_inv w" for w
    by (rule wp_mono [OF keepsD [OF plant_sys_keeps(1) that]]) auto
qed

section \<open>The broker on the plant\<close>

text \<open>The plant once both programs have started: the group is there, and every record names its job.\<close>

definition plant_ok :: "plant \<Rightarrow> bool" where
  "plant_ok w \<longleftrightarrow> plant_inv w \<and> records_ok text_codec (plant_kv w) \<and> sv_group (plant_view w) StreamKey Group"

abbreviation plant_jobs :: "plant \<Rightarrow> string \<Rightarrow> job option" where
  "plant_jobs w \<equiv> stored text_codec (plant_kv w)"

abbreviation plant_qview :: "plant \<Rightarrow> queue_view" where
  "plant_qview w \<equiv> queue_of int_time_text (plant_view w)"

lemma plant_ok_inv: "plant_ok w \<Longrightarrow> plant_inv w"
  by (simp add: plant_ok_def)

lemma plant_keeps:
  assumes "keeps plant_inv v G m" "\<And>w. plant_kv w = f (v w)" "\<And>w. plant_view w = g (v w)" "\<And>w. u w = h (v w)"
  shows "keeps plant_ok u G m"
proof -
  have "keeps (\<lambda>w. plant_inv w \<and> records_ok text_codec (plant_kv w) \<and> sv_group (plant_view w) StreamKey Group) v G m"
    by (rule keeps_also [OF assms(1), where Q = "\<lambda>x. records_ok text_codec (f x) \<and> sv_group (g x) StreamKey Group"])
       (simp add: assms(2,3))
  then show ?thesis unfolding plant_ok_def by (rule keeps_image [where v = v and h = h]) (rule assms(4))
qed

lemma plant_ok_eqs:
  "plant_ok = (\<lambda>w. ps.sinv w \<and> sv_group (plant_view w) StreamKey Group)"
  "plant_ok = (\<lambda>w. pq.qinv w \<and> records_ok text_codec (plant_kv w))"
  by (auto simp: fun_eq_iff plant_ok_def ps.sinv_def pq.qinv_def)

lemma plant_job_store: "job_store plant_store plant_jobs plant_ok"
  unfolding plant_ok_eqs(1)
  by (rule job_store_also [where ?I0.0 = plant_inv and ?P0.0 = "\<lambda>x. sv_group (fst x) StreamKey Group",
        OF ps.st.job_store_axioms [of 1000, folded plant_store_def] _ _ plant_store_keeps])
     (simp_all add: ps.sinv_def)

lemma plant_job_queue: "job_queue plant_queue plant_qview plant_ok"
  unfolding plant_ok_eqs(2)
  by (rule job_queue_also [where ?I0.0 = plant_inv and ?P0.0 = "\<lambda>x. records_ok text_codec (fst x)",
        OF pq.jq.job_queue_axioms [folded plant_queue_def] _ _ plant_queue_keeps])
     (simp_all add: pq.qinv_def)

lemma plant_sys_ok:
  "keeps plant_ok (\<lambda>w. ((plant_kv w, plant_view w), pl_docker w, pl_registry w)) time_ok (sys_now plant_sys)"
  "keeps plant_ok (\<lambda>w. ((plant_kv w, plant_view w), pl_docker w, pl_registry w)) (\<lambda>b. length b = n) (sys_rand plant_sys n)"
  "keeps plant_ok (\<lambda>w. ((plant_kv w, plant_view w), pl_docker w, pl_registry w))
     (\<lambda>e. e \<in> {None, Some (Sentinel CtxDeadlineExceeded)}) (sys_ctx_err plant_sys)"
  "keeps plant_ok (\<lambda>w. ((plant_kv w, plant_view w), pl_docker w, pl_registry w)) any_result (sys_sleep plant_sys d)"
  by (rule plant_keeps [where f = "\<lambda>x. fst (fst x)" and g = "\<lambda>x. snd (fst x)" and h = "\<lambda>x. x"],
      rule plant_sys_keeps, simp, simp, simp)+

lemma wp_keeps_view:
  "keeps I v G m \<Longrightarrow> (\<And>w. J w \<Longrightarrow> I w) \<Longrightarrow> (\<And>w. u w = h (v w)) \<Longrightarrow> J w \<Longrightarrow> wp m (\<lambda>_ w'. u w' = u w) w"
  by (rule wp_mono [OF keepsD [where I = I and v = v and G = G]]) auto

interpretation pb: broker_env plant_server plant_jobs plant_qview plant_ok
proof (intro broker_env.intro broker_env_axioms.intro)
  show "job_store (sv_store plant_server) plant_jobs plant_ok" "job_queue (sv_queue plant_server) plant_qview plant_ok"
    by (simp_all add: plant_server_def plant_job_store plant_job_queue)
next
  fix w assume w: "plant_ok w"
  note view = wp_keeps_view [where J = plant_ok and h = "\<lambda>x. queue_of int_time_text (fst x)", OF _ plant_ok_inv _ w]
  note kv = wp_keeps_view [where J = plant_ok and h = "\<lambda>x. stored text_codec (fst x)", OF _ plant_ok_inv _ w]
  show "wp (store_Put (sv_store plant_server) j) (\<lambda>_ w'. plant_qview w' = plant_qview w) w" for j
    unfolding plant_server_def server.select_convs by (rule view [OF plant_store_keeps(1)]) simp_all
  show "wp (store_Get (sv_store plant_server) i) (\<lambda>_ w'. plant_qview w' = plant_qview w) w" for i
    unfolding plant_server_def server.select_convs by (rule view [OF plant_store_keeps(2)]) simp_all
  show "wp (store_List (sv_store plant_server)) (\<lambda>_ w'. plant_qview w' = plant_qview w) w"
    unfolding plant_server_def server.select_convs by (rule view [OF plant_store_keeps(3)]) simp_all
  show "wp (queue_Enqueue (sv_queue plant_server) i a) (\<lambda>_ w'. plant_jobs w' = plant_jobs w) w" for i a
    unfolding plant_server_def server.select_convs by (rule kv [OF plant_queue_keeps(1)]) simp_all
  show "wp (queue_ListDead (sv_queue plant_server) n) (\<lambda>_ w'. plant_jobs w' = plant_jobs w) w" for n
    unfolding plant_server_def server.select_convs by (rule kv [OF plant_queue_keeps(6)]) simp_all
  show "wp (sys_now (sv_sys plant_server)) (\<lambda>t w'. plant_ok w' \<and> plant_jobs w' = plant_jobs w \<and>
      plant_qview w' = plant_qview w \<and> time_ok t) w"
    unfolding plant_server_def server.select_convs by (rule wp_mono [OF keepsD [OF plant_sys_ok(1) w]]) simp
  show "wp (sys_rand (sv_sys plant_server) len) (\<lambda>b w'. plant_ok w' \<and> plant_jobs w' = plant_jobs w \<and>
      plant_qview w' = plant_qview w \<and> length b = len) w" for len
    unfolding plant_server_def server.select_convs by (rule wp_mono [OF keepsD [OF plant_sys_ok(2) w]]) simp
qed

section \<open>The worker on the plant\<close>

lemma on_docker_ok:
  assumes w: "plant_ok w" and law: "ds_inv (pl_docker w) \<Longrightarrow> wp m (\<lambda>a s. ds_inv s \<and> Q a s) (pl_docker w)"
    and post: "\<And>a s. plant_ok (w\<lparr>pl_docker := s\<rparr>) \<Longrightarrow> Q a s \<Longrightarrow> P a (w\<lparr>pl_docker := s\<rparr>)"
  shows "wp (on_docker m) P w"
  by (rule on_docker_law [OF plant_ok_inv [OF w] law]) (use w post in \<open>auto simp: plant_ok_def\<close>)

lemma keeps_on_docker_ok:
  "keeps ds_inv ds_cts G m \<Longrightarrow> keeps plant_ok (\<lambda>w. (pl_redis w, plant_cts w, pl_registry w)) G (on_docker m)"
  by (rule plant_keeps [OF keeps_on_docker, where f = "\<lambda>x. srv_strings (fst x)" and g = "\<lambda>x. srv_view (fst x)"
        and h = "\<lambda>(r, c, y). (r, gm_get c, y)"]) (simp_all add: ds_view_def)

lemmas plant_shell_simps = plant_shell_def NewShell_def plant_docker_def docker_if.select_convs shell.select_convs

interpretation pd: docker_host plant_shell plant_cts plant_ok
proof (unfold_locales, unfold plant_shell_simps, goal_cases)
  case (1 w)
  then show ?case by (simp add: plant_ok_def plant_inv_def ds_inv_def)
next
  case (2 w name)
  then show ?case
    by (rule on_docker_ok [OF _ sim_out_law]) (auto split: option.splits)
next
  case (3 w args name rest)
  then show ?case by (intro on_docker_ok [OF _ sim_run_law [OF _ 3(2)]]) auto
next
  case (4 w name)
  then show ?case by (rule on_docker_ok [OF _ sim_start_law]) auto
next
  case (5 w i)
  then show ?case by (rule on_docker_ok [OF _ sim_ps_law]) auto
next
  case (6 w ids)
  then show ?case by (rule on_docker_ok [OF _ sim_rm_law]) auto
next
  case (7 args)
  show ?case by (rule keeps_image [OF keeps_on_docker_ok [OF sim_exec_law], where h = "\<lambda>(_, c, _). c"]) simp
next
  case (8 url)
  show ?case
    by (rule keeps_image [OF keeps_weaken [OF keeps_on_docker_ok [OF sim_get_law]], where h = "\<lambda>(_, c, _). c"]) simp_all
next
  case 9
  show ?case
    by (rule keeps_image [OF keeps_weaken [OF plant_sys_ok(1)], where h = "\<lambda>(_, d, _). ds_view d"]) simp_all
next
  case (10 len)
  show ?case
    by (rule keeps_image [OF keeps_weaken [OF plant_sys_ok(2)], where h = "\<lambda>(_, d, _). ds_view d"]) simp_all
next
  case 11
  show ?case
    by (rule keeps_image [OF keeps_weaken [OF plant_sys_ok(3)], where h = "\<lambda>(_, d, _). ds_view d"]) simp_all
next
  case (12 d)
  show ?case by (rule keeps_image [OF plant_sys_ok(4), where h = "\<lambda>(_, d, _). ds_view d"]) simp
qed

lemma plant_clear: "clear_answers plant_shell plant_cts plant_ok"
  unfolding clear_answers_def plant_shell_simps
proof (intro conjI allI impI, goal_cases)
  case (1 w name)
  then show ?case
    by (rule on_docker_ok [OF _ sim_out_law]) (auto simp: said_no_such_def split: option.splits)
next
  case (2 url)
  show ?case by (rule keeps_image [OF keeps_on_docker_ok [OF sim_get_law], where h = "\<lambda>(_, c, _). c"]) simp
qed

text \<open>The clock and the context: the context ends at the last time that JSON can carry.\<close>

interpretation pt: ticking plant_sys "\<lambda>w. srv_clock (pl_redis w)" "\<lambda>w. srv_clock (pl_redis w) \<ge> last_time" plant_ok
proof (unfold_locales, goal_cases)
  case (1 w)
  then show ?case
    by (simp add: plant_sys_def on_redis_def wp_def srv_sys_def)
next
  case (2 w)
  then show ?case by (simp add: plant_sys_def on_redis_def wp_def srv_sys_def)
next
  case (3 w d)
  have "wp (sys_sleep plant_sys d) (\<lambda>_ w'. srv_clock (pl_redis w) + d \<le> srv_clock (pl_redis w') \<or>
      last_time \<le> srv_clock (pl_redis w')) w"
    by (auto simp: plant_sys_def on_redis_def wp_def srv_sys_def advance_def)
  with keepsD [OF plant_sys_ok(4) 3, of d] show ?case by (simp add: wp_def split: prod.splits)
qed

interpretation px: docker_text plant_shell plant_ok "\<lambda>w. (plant_kv w, plant_view w)"
proof (unfold_locales, unfold plant_shell_simps, goal_cases)
  case (1 args)
  show ?case
    by (rule keeps_image [OF keeps_on_docker_ok [OF sim_out_text], where h = "\<lambda>(r, _). (srv_strings r, srv_view r)"]) simp
next
  case (2 args)
  show ?case
    unfolding keeps_def by (intro allI impI) (rule on_docker_ok [OF _ sim_comb_text], auto)
next
  case (3 args)
  show ?case
    by (rule keeps_image [OF keeps_on_docker_ok [OF sim_exec_law], where h = "\<lambda>(r, _). (srv_strings r, srv_view r)"]) simp
next
  case (4 url)
  show ?case
    by (rule keeps_image [OF keeps_weaken [OF keeps_on_docker_ok [OF sim_get_law]], where h = "\<lambda>(r, _). (srv_strings r, srv_view r)"])
       simp_all
next
  case 5
  show ?case
    by (rule keeps_image [OF keeps_weaken [OF plant_sys_ok(1)], where h = fst]) simp_all
next
  case (6 len)
  show ?case
    by (rule keeps_image [OF keeps_weaken [OF plant_sys_ok(2)], where h = fst]) simp_all
next
  case 7
  show ?case
    by (rule keeps_image [OF keeps_weaken [OF plant_sys_ok(3)], where h = fst])
       (auto simp: error_ok_def utf8_valid_ascii is_ascii_def)
next
  case (8 d)
  show ?case
    by (rule keeps_image [OF plant_sys_ok(4), where h = fst]) simp
next
  case (9 t infos)
  then show ?case by (auto dest: inspect_decode_ok)
next
  case (10 t e)
  then show ?case by (auto dest!: inspect_decode_err simp: decode_error_def error_ok_def utf8_valid_ascii is_ascii_def)
next
  case (11 s)
  then show ?case unfolding quoted_def
    by (intro utf8_valid_append) (auto simp: utf8_valid_ascii is_ascii_def)
qed (simp_all add: utf8_valid_ascii is_ascii_def)

lemma plant_client_wf:
  "services_wf (reg_services r) \<Longrightarrow> wp (xds_Register plant_client s h p) (\<lambda>_ r'. services_wf (reg_services r')) r"
  "services_wf (reg_services r) \<Longrightarrow> wp (xds_Unregister plant_client s h p) (\<lambda>_ r'. services_wf (reg_services r')) r"
  by (simp_all add: wp_def plant_client_def http_client_post admin_register_def admin_unregister_def Let_def
      case_prod_unfold method_services services_wf_register services_wf_unregister split: sum.split)

lemma plant_xds_keeps:
  "keeps plant_ok plant_jobs any_result (xds_Register plant_xds s h p)"
  "keeps plant_ok plant_jobs any_result (xds_Unregister plant_xds s h p)"
  unfolding keeps_def plant_xds_def xds_if.select_convs wp_on
  by (auto intro!: wp_mono [OF plant_client_wf(1)] simp: plant_ok_def plant_inv_def)
     (auto intro!: wp_mono [OF plant_client_wf(2)])

lemma plant_queue_ok:
  assumes "keeps plant_inv (\<lambda>w. (plant_kv w, pl_docker w, pl_registry w)) any_result m" "\<And>w. pq.qinv w \<Longrightarrow> wp m (\<lambda>_ w'. pq.qinv w') w"
  shows "keeps plant_ok plant_jobs any_result m"
  unfolding keeps_def
proof (intro allI impI)
  fix w assume w: "plant_ok w"
  then have "wp m (\<lambda>_ w'. pq.qinv w') w" using assms(2) by (simp add: plant_ok_eqs(2))
  with keepsD [OF assms(1) plant_ok_inv [OF w]] w
  show "wp m (\<lambda>a w'. plant_ok w' \<and> plant_jobs w' = plant_jobs w \<and> True) w"
    by (auto simp: wp_def plant_ok_eqs(2) split: prod.splits)
qed

interpretation pw: worker_env plant_worker plant_jobs plant_ok
proof (intro worker_env.intro worker_env_axioms.intro, unfold plant_worker_def the_XDS_def worker.select_convs option.case,
    goal_cases)
  case 1
  show ?case by (rule plant_job_store)
next
  case (2 m)
  show ?case
    by (rule plant_queue_ok [OF plant_queue_keeps(4)], rule wp_mono [OF pq.jq.ack [folded plant_queue_def]]) auto
next
  case (3 m d n)
  show ?case
    by (rule plant_queue_ok [OF plant_queue_keeps(5)]) (rule wp_mono [OF pq.deadletter_jobs [folded plant_queue_def]], auto)
next
  case (4 j)
  then show ?case unfolding shell_prov_def prov_if.select_convs
    by (intro keeps_image [OF px.Provision_text, where h = "\<lambda>x. stored text_codec (fst x)"]) simp_all
next
  case (5 j)
  then show ?case unfolding shell_prov_def prov_if.select_convs
    by (intro keeps_image [OF px.Deprovision_text, where h = "\<lambda>x. stored text_codec (fst x)"]) simp_all
next
  case (6 s h p)
  show ?case by (rule plant_xds_keeps)
next
  case (7 s h p)
  show ?case by (rule plant_xds_keeps)
next
  case 8
  show ?case by (rule keeps_image [OF plant_sys_ok(1), where h = "\<lambda>((r, _), _). stored text_codec r"]) simp
qed

section \<open>A new plant\<close>

text \<open>
  Nothing stored, no container, the group made by \<open>EnsureGroup\<close>. The scripts of faults say which of
  the next commands to Redis and to docker fail or lose their reply; the parameter \<open>dup\<close> makes \<open>SCAN\<close>
  return every key twice.
\<close>

definition plant_new :: "bool \<Rightarrow> fault list \<Rightarrow> fault list \<Rightarrow> plant" where
  "plant_new dup rf df =
     \<lparr>pl_redis = \<lparr>srv_kv = [], srv_dup = dup, srv_streams = [], srv_groups = [((StreamKey, Group), ([], []))],
        srv_next = 1, srv_clock = 0, srv_seed = 0, srv_faults = rf\<rparr>,
      pl_docker = \<lparr>ds_cts = [], ds_next = 1, ds_images = [''postgres:16-alpine'', ''infraforge/echo:dev''], ds_faults = df\<rparr>,
      pl_registry = NewRegistry None\<rparr>"

lemma plant_new_ok [simp]: "plant_ok (plant_new dup rf df)"
  by (simp add: plant_ok_def plant_new_def plant_inv_def srv_inv_def ds_inv_def ds_view_def ids_unique_def time_ok_def
      group_ok_def ids_below_def NewRegistry_def records_ok_def srv_view_def gm_get_def)

definition plant_store_job :: "job \<Rightarrow> plant \<Rightarrow> plant" where
  "plant_store_job j w = snd (run_state (store_Put plant_store j) w)"

lemma plant_store_job:
  assumes "job_ok j"
  shows "plant_ok (plant_store_job j (plant_new dup [] df))"
    and "plant_jobs (plant_store_job j (plant_new dup [] df)) (job_ID j) = Some j"
    and "\<forall>i. i \<noteq> job_ID j \<longrightarrow> plant_jobs (plant_store_job j (plant_new dup [] df)) i = plant_jobs (plant_new dup [] df) i"
proof -
  obtain e w' where run: "run_state (store_Put plant_store j) (plant_new dup [] df) = (e, w')" by fastforce
  have "e = None"
    using run by (simp add: plant_store_def redis_store_def RedisStore_Put_def text_codec_def plant_redis_def
        on_redis_def plant_new_def redis_srv_def command_err_def command_def srv_Set_def err_of_def)
  with wp_runD [OF job_store.put [OF plant_job_store plant_new_ok assms] run] run
  show "plant_ok (plant_store_job j (plant_new dup [] df))"
    and "plant_jobs (plant_store_job j (plant_new dup [] df)) (job_ID j) = Some j"
    and "\<forall>i. i \<noteq> job_ID j \<longrightarrow> plant_jobs (plant_store_job j (plant_new dup [] df)) i = plant_jobs (plant_new dup [] df) i"
    by (simp_all add: plant_store_job_def)
qed

text \<open>A request for a service.\<close>

definition shop_request :: request where
  "shop_request = \<lparr>rq_Method = ''POST'', rq_Path = [''v1'', ''provision''], rq_limit = [],
     rq_Body = Some \<lparr>req_ServiceName = ''shop'', req_Resource = []\<rparr>\<rparr>"

lemma shop_request_ok [simp]: "request_ok shop_request"
  by (simp add: request_ok_def shop_request_def utf8_valid_ascii is_ascii_def)

lemma shop_request_checked [simp]:
  "checkRequest (rq_Body shop_request) = Inr \<lparr>req_ServiceName = ''shop'', req_Resource = ResourcePostgres\<rparr>"
  by (simp add: checkRequest_def shop_request_def)

end
