(* ===== verification/Broker_Guarantees.thy ===== *)
theory Broker_Guarantees
  imports Plant
begin

text \<open>
  The guarantees of the broker's HTTP surface (\<open>internal/api\<close>) for every store and queue that keep
  their contracts, with calls that may fail at any point. The concrete instances are on the plant, with
  commands to Redis that are refused or lose their reply.
\<close>

section \<open>Accepting jobs\<close>

text \<open>C8. POST /v1/provision: a bad request is answered 400 and changes nothing. Otherwise the new job has
  a 16-digit id and its record is written before its message is sent; 202 is answered only when both
  calls succeeded, so an accepted job is recorded as pending and has a message waiting. Any failure is
  answered 500, and then the job is at most recorded, possibly as failed, and possibly enqueued; with a store
  that takes every \<open>Put\<close> it is on record as failed, with the detail that says why.\<close>

theorem provision_request_contract:
  assumes "broker_env S jobs qview I" "I w" "request_ok r" "run_state (handleProvision S r) w = (res, w')"
  shows "I w' \<and>
    (case checkRequest (rq_Body r) of
       Inl msg \<Rightarrow> res = writeError 400 msg \<and> jobs w' = jobs w \<and> qview w' = qview w
     | Inr req \<Rightarrow> \<exists>i t. length i = 16 \<and> submitted (new_job i req t) res (jobs w) (qview w) (jobs w') (qview w') \<and>
         (puts_succeed (sv_store S) I \<and> rs_Code res = 500 \<longrightarrow>
            (\<exists>t'. jobs w' i = Some (enqueue_failed_job (new_job i req t) t'))))"
  using wp_runD [OF broker_env.handleProvision_contract [OF assms(1-3)] assms(4)] by (auto split: sum.splits)

theorem provision_request_contract_witness:
  "\<exists>res w' i t. run_state (handleProvision plant_server shop_request) (plant_new False [Fine, ReplyLost] []) = (res, w') \<and>
     plant_ok w' \<and> length i = 16 \<and>
     submitted (new_job i \<lparr>req_ServiceName = ''shop'', req_Resource = ResourcePostgres\<rparr> t) res
       (plant_jobs (plant_new False [Fine, ReplyLost] [])) (plant_qview (plant_new False [Fine, ReplyLost] []))
       (plant_jobs w') (plant_qview w')"
proof -
  obtain res w' where run:
    "run_state (handleProvision plant_server shop_request) (plant_new False [Fine, ReplyLost] []) = (res, w')" by fastforce
  from provision_request_contract [OF pb.broker_env_axioms plant_new_ok shop_request_ok run] run show ?thesis by auto
qed

section \<open>Tearing down\<close>

text \<open>C9. DELETE /v1/provision/id: 404 only when there is no such job, 500 when a call failed. A deleted
  job is reported with 200, a job that is being deleted with 202, both without any change. Every other
  job is first recorded as deleting and then a teardown message is sent; 202 is answered only when both
  succeeded.\<close>

theorem teardown_request_contract:
  assumes "broker_env S jobs qview I" "I w" "run_state (handleDeprovision S i) w = (res, w')"
  shows "I w' \<and>
    (rs_Code res = 404 \<and> jobs w i = None \<and> jobs w' = jobs w \<and> qview w' = qview w \<or>
     rs_Code res = 500 \<and> jobs w' = jobs w \<and> qview w' = qview w \<or>
     (\<exists>j. jobs w i = Some j \<and> torn_down j res (jobs w) (qview w) (jobs w') (qview w')))"
  by (rule wp_runD [OF broker_env.handleDeprovision_contract [OF assms(1,2)] assms(3)])

definition shop_job :: "status \<Rightarrow> job" where
  "shop_job s = (bench_job s)\<lparr>job_ServiceName := ''shop''\<rparr>"

lemma shop_job_ok [simp]: "s \<in> {StatusPending, StatusReady, StatusDeleting} \<Longrightarrow> job_ok (shop_job s)"
  unfolding shop_job_def bench_job_def job_ok_def
  by (elim insertE emptyE)
     (simp_all add: StatusPending_def StatusReady_def StatusDeleting_def ResourcePostgres_def utf8_valid_ascii is_ascii_def
       int64_range_def time_ok_def)

lemma shop_job_sel [simp]: "job_ID (shop_job s) = ''j1''" "job_Status (shop_job s) = s"
  by (simp_all add: shop_job_def bench_job_def)

theorem teardown_request_contract_witness:
  "\<exists>res w'. run_state (handleDeprovision plant_server ''j1'') (plant_store_job (shop_job StatusReady) (plant_new False [] [])) =
       (res, w') \<and> plant_ok w' \<and> rs_Code res \<noteq> 404"
proof -
  let ?w = "plant_store_job (shop_job StatusReady) (plant_new False [] [])"
  obtain res w' where run: "run_state (handleDeprovision plant_server ''j1'') ?w = (res, w')" by fastforce
  have w: "plant_ok ?w" "plant_jobs ?w ''j1'' = Some (shop_job StatusReady)"
    using plant_store_job [of "shop_job StatusReady" False "[]"] by simp_all
  from teardown_request_contract [OF pb.broker_env_axioms w(1) run] w(2) run show ?thesis
    by (auto simp: torn_down_def teardown_sent_def)
qed

text \<open>C37. A teardown that fails once is never tried again: when tearing down reports an error the worker
  keeps the job in its state, which DELETE made deleting, and acknowledges the message; and no number of
  further DELETE requests for a deleting job sends a message or changes a record.\<close>

fun delete_times :: "nat \<Rightarrow> 'w server \<Rightarrow> string \<Rightarrow> ('w, unit) state" where
  "delete_times 0 S i = State_Monad.return ()"
| "delete_times (Suc n) S i = do { _ \<leftarrow> handleDeprovision S i; delete_times n S i }"

lemma delete_times_deleting:
  assumes "broker_env S jobs qview I" "I w" "jobs w i = Some j" "job_Status j = StatusDeleting"
  shows "wp (delete_times n S i) (\<lambda>_ w'. I w' \<and> jobs w' = jobs w \<and> qview w' = qview w) w"
  using assms(2,3)
proof (induction n arbitrary: w)
  case (Suc n)
  have rest: "wp (delete_times n S i) (\<lambda>_ w'. I w' \<and> jobs w' = jobs w \<and> qview w' = qview w) w1"
    if "I w1" "jobs w1 = jobs w" "qview w1 = qview w" for w1
    using Suc.IH [OF that(1)] Suc.prems(2) that by simp
  show ?case unfolding delete_times.simps wp_bind
    by (rule wp_mono [OF broker_env.handleDeprovision_contract [OF assms(1) Suc.prems(1)]])
       (use Suc.prems(2) assms(4) in \<open>auto simp: torn_down_def intro!: rest\<close>)
qed simp

lemma calls_teardown_failed:
  "calls M msg tr \<Longrightarrow> EvDeprovision j (Some e) \<in> set tr \<Longrightarrow>
     \<exists>t p a. [EvPut (j\<lparr>job_Detail := teardown_detail e, job_UpdatedAt := t\<rparr>) p, EvAck msg a] = drop (length tr - 2) tr"
  by (erule calls.cases) (auto simp: numeral_2_eq_2)

theorem failed_teardown_is_stuck:
  assumes "run_state (handle (traced_worker W) msg) (s, []) = (r, (s', tr))" "EvDeprovision j (Some e) \<in> set tr"
    and "broker_env S jobs qview I" "I w" "jobs w i = Some k" "job_Status k = StatusDeleting"
    and "run_state (delete_times n S i) w = (u, w')"
  shows "(\<exists>t p a. drop (length tr - 2) tr =
      [EvPut (j\<lparr>job_Detail := teardown_detail e, job_UpdatedAt := t\<rparr>) p, EvAck msg a]) \<and>
    jobs w' = jobs w \<and> qview w' = qview w"
proof
  from calls_teardown_failed [OF handle_trace [OF assms(1)] assms(2)]
  show "\<exists>t p a. drop (length tr - 2) tr =
      [EvPut (j\<lparr>job_Detail := teardown_detail e, job_UpdatedAt := t\<rparr>) p, EvAck msg a]" by metis
  from wp_runD [OF delete_times_deleting [OF assms(3-6)] assms(7)]
  show "jobs w' = jobs w \<and> qview w' = qview w" by simp
qed

lemma bench_run_teardown:
  "EvDeprovision (bench_job StatusDeleting) (Some (NewErr ''busy'')) \<in>
     set (snd (snd (bench_run (Ret (None, None)) (Some (NewErr ''busy'')) (bench_job StatusDeleting) ActionDeprovision)))"
  by code_simp

theorem failed_teardown_is_stuck_witness:
  "\<exists>w'. run_state (delete_times 3 plant_server ''j1'') (plant_store_job (shop_job StatusDeleting) (plant_new False [] [])) = ((), w') \<and>
     plant_jobs w' ''j1'' = Some (shop_job StatusDeleting)"
proof -
  let ?w = "plant_store_job (shop_job StatusDeleting) (plant_new False [] [])"
  obtain u w' where run: "run_state (delete_times 3 plant_server ''j1'') ?w = (u, w')"
    by (metis surj_pair)
  have w: "plant_ok ?w" "plant_jobs ?w ''j1'' = Some (shop_job StatusDeleting)"
    using plant_store_job [of "shop_job StatusDeleting" False "[]"] by simp_all
  obtain r s' tr where bench:
    "bench_run (Ret (None, None)) (Some (NewErr ''busy'')) (bench_job StatusDeleting) ActionDeprovision = (r, (s', tr))"
    by (metis surj_pair)
  have ev: "EvDeprovision (bench_job StatusDeleting) (Some (NewErr ''busy'')) \<in> set tr"
    using bench_run_teardown unfolding bench snd_conv .
  from failed_teardown_is_stuck [OF bench ev pb.broker_env_axioms w _ run] w(2) run show ?thesis by auto
qed

section \<open>Reading\<close>

text \<open>C33. GET /v1/provision, unless it answers 500, lists just what the store's \<open>List\<close> returned, which is every
  stored job and no other (a store whose \<open>List\<close> repeats a job repeats it here), in order of creation, whichever of
  the orders that \<open>sort.Slice\<close> allows it picks among jobs of the same time. GET /v1/dead, unless it answers 500,
  returns the oldest dead letters, at most as many as the limit, which is between 1 and 1000. Neither changes
  anything.\<close>

theorem listings_are_complete:
  assumes "broker_env S jobs qview I" "I w" "sort_Slice_ok srt"
    and "run_state (handleList srt S) w = (res, w')" "run_state (handleListDead S v) w = (res2, w2)"
  shows "jobs w' = jobs w \<and> qview w' = qview w \<and> jobs w2 = jobs w \<and> qview w2 = qview w \<and>
    (rs_Code res = 500 \<or> (\<exists>js js0 w0. res = writeJSON 200 (BodyJobs (length js) js) \<and> set js = ran (jobs w) \<and>
       run_state (store_List (sv_store S)) w = (Inr js0, w0) \<and> mset js = mset js0 \<and>
       sorted_wrt (\<lambda>a b. job_CreatedAt a \<le> job_CreatedAt b) js)) \<and>
    (rs_Code res2 = 500 \<or> (\<exists>es. res2 = writeJSON 200 (BodyDead (length es) es) \<and>
       es = take (nat (dead_limit v)) (qv_dead (qview w)))) \<and> 1 \<le> dead_limit v \<and> dead_limit v \<le> 1000"
proof -
  have "1 \<le> dead_limit v \<and> dead_limit v \<le> 1000" by (simp add: dead_limit_def split: option.split)
  with wp_runD [OF broker_env.handleList_contract [OF assms(1-3)] assms(4)]
    wp_runD [OF broker_env.handleListDead_contract [OF assms(1,2)] assms(5)]
  show ?thesis by blast
qed

text \<open>The witness: two jobs, the younger one stored first, on a Redis whose \<open>SCAN\<close> returns every key twice.\<close>

definition old_job :: job where
  "old_job = (shop_job StatusReady)\<lparr>job_ID := ''j0'', job_CreatedAt := - 5\<rparr>"

definition two_jobs :: plant where
  "two_jobs = plant_store_job old_job (plant_store_job (shop_job StatusReady) (plant_new True [] []))"

lemma two_jobs_ok:
  "plant_ok two_jobs" "shop_job StatusReady \<in> ran (plant_jobs two_jobs)" "old_job \<in> ran (plant_jobs two_jobs)"
proof -
  let ?w = "plant_store_job (shop_job StatusReady) (plant_new True [] [])"
  have w: "plant_ok ?w" "plant_jobs ?w ''j1'' = Some (shop_job StatusReady)"
    using plant_store_job [of "shop_job StatusReady" True "[]"] by simp_all
  have job: "job_ok old_job" "job_ID old_job = ''j0''"
    using shop_job_ok [of StatusReady] by (auto simp: old_job_def job_ok_def time_ok_def utf8_valid_ascii is_ascii_def)
  obtain e where put: "run_state (store_Put plant_store old_job) ?w = (e, two_jobs)"
    by (simp add: two_jobs_def plant_store_job_def prod_eq_iff)
  have "fst (run_state (store_Put plant_store old_job) ?w) = None" by code_simp
  with wp_runD [OF job_store.put [OF plant_job_store w(1) job(1)] put] put
  have jobs: "plant_ok two_jobs" "plant_jobs two_jobs = (plant_jobs ?w)(''j0'' \<mapsto> old_job)" by (simp_all add: job(2))
  have "plant_jobs two_jobs ''j1'' = Some (shop_job StatusReady)" "plant_jobs two_jobs ''j0'' = Some old_job"
    unfolding jobs(2) using w(2) by simp_all
  with jobs(1) show "plant_ok two_jobs" "shop_job StatusReady \<in> ran (plant_jobs two_jobs)" "old_job \<in> ran (plant_jobs two_jobs)"
    by (auto intro: ranI)
qed

lemma two_jobs_listed: "rs_Code (fst (run_state (handleList sort_by plant_server) two_jobs)) = 200"
  by code_simp

theorem listings_are_complete_witness:
  "\<exists>js w'. run_state (handleList sort_by plant_server) two_jobs = (writeJSON 200 (BodyJobs (length js) js), w') \<and>
     {old_job, shop_job StatusReady} \<subseteq> set js \<and> sorted_wrt (\<lambda>a b. job_CreatedAt a \<le> job_CreatedAt b) js"
proof -
  obtain res w' res2 w2 where run: "run_state (handleList sort_by plant_server) two_jobs = (res, w')"
    "run_state (handleListDead plant_server ''5'') two_jobs = (res2, w2)" by (metis surj_pair)
  have "rs_Code res \<noteq> 500" using two_jobs_listed run(1) by simp
  with listings_are_complete [OF pb.broker_env_axioms two_jobs_ok(1) sort_by_ok run] two_jobs_ok(2,3) run(1)
  show ?thesis by auto
qed

end
