(* ===== verification/Storage_Guarantees.thy ===== *)
theory Storage_Guarantees
  imports Plant
begin

text \<open>
  The guarantees of the job store (\<open>internal/store\<close>) and of the job queue (\<open>internal/queue\<close>) for every
  Redis that behaves as documented: what is put is got back, listing ends and is complete, the two
  stores cannot be told apart, no message is lost, messages arrive in order, dead letters are read back.
\<close>

section \<open>The store\<close>

text \<open>C22. What was stored last is what is read back: after a \<open>Put\<close> that reported no error, reading the
  same id returns that very job and reading another id what was stored there before, unless the read
  reports an error, which is then not \<open>ErrNotFound\<close> for an id that is stored.\<close>

theorem redis_store_roundtrip:
  assumes "redis_kv R kv I todo rank" "codec_ok C" "I w" "records_ok C (kv w)" "job_ok j"
    and "run_state (RedisStore_Put R C j) w = (None, w1)" "run_state (RedisStore_Get R C i) w1 = (r, w2)"
  shows "case r of
      Inr j' \<Rightarrow> if i = job_ID j then j' = j else stored C (kv w) i = Some j'
    | Inl e \<Rightarrow> errors_is e ErrNotFound \<longrightarrow> i \<noteq> job_ID j \<and> stored C (kv w) i = None"
proof -
  have rs: "redis_job_store R kv I todo rank C"
    by (intro redis_job_store.intro redis_job_store_axioms.intro assms(1,2))
  note sinv = redis_job_store.sinv_def [OF rs]
  have "redis_job_store.sinv kv I C w" using assms(3,4) by (simp add: sinv)
  from wp_runD [OF redis_job_store.put_contract [OF rs this assms(5)] assms(6)]
  have w1: "redis_job_store.sinv kv I C w1" "stored C (kv w1) = (stored C (kv w))(job_ID j \<mapsto> j)" by simp_all
  from wp_runD [OF redis_job_store.get_contract [OF rs w1(1)] assms(7)] w1(2)
  show ?thesis by (auto split: sum.splits if_splits)
qed

theorem redis_store_roundtrip_witness:
  "\<exists>w1 r w2. run_state (RedisStore_Put plant_redis text_codec (bench_job StatusReady)) (plant_new True [] []) = (None, w1) \<and>
     run_state (RedisStore_Get plant_redis text_codec ''j1'') w1 = (r, w2) \<and>
     (case r of Inr j \<Rightarrow> j = bench_job StatusReady | Inl e \<Rightarrow> \<not> errors_is e ErrNotFound)"
proof -
  let ?j = "bench_job StatusReady" and ?w = "plant_new True [] []"
  obtain e w1 r w2 where run: "run_state (RedisStore_Put plant_redis text_codec ?j) ?w = (e, w1)"
    "run_state (RedisStore_Get plant_redis text_codec ''j1'') w1 = (r, w2)" by (metis surj_pair)
  from run(1) have e: "e = None"
    by (simp add: RedisStore_Put_def text_codec_def plant_redis_def on_redis_def plant_new_def redis_srv_def
        command_err_def command_def srv_Set_def err_of_def)
  have w: "plant_inv ?w" "records_ok text_codec (plant_kv ?w)" "job_ok ?j"
    using plant_new_ok [of True "[]" "[]"]
    by (simp_all add: plant_ok_def bench_job_ok StatusReady_def utf8_valid_ascii is_ascii_def)
  have id: "job_ID ?j = ''j1''" by (simp add: bench_job_def)
  from redis_store_roundtrip [OF plant_kv_laws text_codec_ok w run(1) [unfolded e] run(2)] run e
  show ?thesis by (auto simp: id split: sum.splits)
qed

text \<open>C24. \<open>List\<close> ends: with more calls of \<open>SCAN\<close> than the server's iteration takes, the loop has ended,
  with an error or with exactly the stored jobs, even when \<open>SCAN\<close> repeats keys.\<close>

theorem redis_list_ends_complete:
  assumes "redis_kv R kv I todo rank" "I w" "rank w 0 < n" "run_state (RedisStore_List n R C) w = (r, w')"
  shows "kv w' = kv w \<and> (\<exists>x. r = Some x \<and> (case x of Inr js \<Rightarrow> set js = ran (stored C (kv w)) | Inl _ \<Rightarrow> True))"
  using wp_runD [OF redis_kv.list_ends [OF assms(1,2)] assms(4)] assms(3)
  by (auto split: option.splits sum.splits)

theorem redis_list_ends_complete_witness:
  "\<exists>x w'. run_state (RedisStore_List 2 plant_redis text_codec)
       (plant_store_job (bench_job StatusReady) (plant_new True [] [])) = (Some x, w')"
proof -
  let ?w = "plant_store_job (bench_job StatusReady) (plant_new True [] [])"
  obtain r w' where run: "run_state (RedisStore_List 2 plant_redis text_codec) ?w = (r, w')" by (metis surj_pair)
  have "job_ok (bench_job StatusReady)" by (simp add: bench_job_ok StatusReady_def utf8_valid_ascii is_ascii_def)
  then have "plant_inv ?w" by (intro plant_ok_inv plant_store_job)
  moreover have "srv_rank (pl_redis ?w) 0 < 2"
    by (simp add: srv_rank_def plant_store_job_def plant_store_def redis_store_def RedisStore_Put_def text_codec_def
        plant_redis_def on_redis_def plant_new_def redis_srv_def command_err_def command_def srv_Set_def gm_put_def)
  ultimately show ?thesis using redis_list_ends_complete [OF plant_kv_laws _ _ run] run by auto
qed

section \<open>Both stores are one map\<close>

text \<open>The three calls of \<open>store.Store\<close>. What \<open>List\<close> returns is compared as a set: neither store promises an order, and
  the Redis store may repeat a job.\<close>

datatype store_op = OpPut job | OpGet string | OpList

datatype store_reply = Stored | Found job | Missing | Listed "job set" | Broke

fun store_call :: "'w store_if \<Rightarrow> store_op \<Rightarrow> ('w, store_reply) state" where
  "store_call st (OpPut j) =
     do { e \<leftarrow> store_Put st j; State_Monad.return (if e = None then Stored else Broke) }"
| "store_call st (OpGet i) =
     do { r \<leftarrow> store_Get st i;
          State_Monad.return (case r of Inr j \<Rightarrow> Found j
            | Inl e \<Rightarrow> if errors_is e ErrNotFound then Missing else Broke) }"
| "store_call st OpList =
     do { r \<leftarrow> store_List st; State_Monad.return (case r of Inr js \<Rightarrow> Listed (set js) | Inl _ \<Rightarrow> Broke) }"

fun store_calls :: "'w store_if \<Rightarrow> store_op list \<Rightarrow> ('w, store_reply list) state" where
  "store_calls st [] = State_Monad.return []"
| "store_calls st (c # cs) = do { r \<leftarrow> store_call st c; rs \<leftarrow> store_calls st cs; State_Monad.return (r # rs) }"

fun op_ok :: "store_op \<Rightarrow> bool" where
  "op_ok (OpPut j) = job_ok j"
| "op_ok (OpGet i) = True"
| "op_ok OpList = True"

text \<open>The same calls on a plain map.\<close>

fun map_call :: "store_op \<Rightarrow> (string \<Rightarrow> job option) \<Rightarrow> store_reply \<times> (string \<Rightarrow> job option)" where
  "map_call (OpPut j) m = (Stored, m(job_ID j \<mapsto> j))"
| "map_call (OpGet i) m = (case m i of None \<Rightarrow> Missing | Some j \<Rightarrow> Found j, m)"
| "map_call OpList m = (Listed (ran m), m)"

fun map_calls :: "store_op list \<Rightarrow> (string \<Rightarrow> job option) \<Rightarrow> store_reply list \<times> (string \<Rightarrow> job option)" where
  "map_calls [] m = ([], m)"
| "map_calls (c # cs) m = (case map_call c m of (r, m') \<Rightarrow> (case map_calls cs m' of (rs, m'') \<Rightarrow> (r # rs, m'')))"

context job_store
begin

lemma store_call_map:
  "inv w \<Longrightarrow> op_ok c \<Longrightarrow> wp (store_call st c) (\<lambda>r w'. inv w' \<and> (r \<noteq> Broke \<longrightarrow> (r, jobs w') = map_call c (jobs w))) w"
proof (cases c)
  case (OpPut j)
  assume "inv w" "op_ok c"
  with OpPut show ?thesis by (auto intro!: wp_mono [OF put] split: if_splits)
next
  case (OpGet i)
  assume "inv w"
  then show ?thesis unfolding OpGet store_call.simps wp_bind wp_return
    by (auto intro!: wp_mono [OF get] split: sum.splits option.splits)
next
  case OpList
  assume "inv w"
  then show ?thesis unfolding OpList store_call.simps wp_bind wp_return
    by (auto intro!: wp_mono [OF list] split: sum.splits)
qed

lemma store_calls_map:
  "inv w \<Longrightarrow> list_all op_ok cs \<Longrightarrow>
     wp (store_calls st cs) (\<lambda>rs w'. inv w' \<and> (Broke \<notin> set rs \<longrightarrow> (rs, jobs w') = map_calls cs (jobs w))) w"
proof (induction cs arbitrary: w)
  case (Cons c cs)
  have rest: "wp (store_calls st cs) (\<lambda>rs w'. inv w' \<and> (Broke \<notin> set (r # rs) \<longrightarrow> (r # rs, jobs w') = map_calls (c # cs) (jobs w))) w1"
    if "inv w1" "r \<noteq> Broke \<longrightarrow> (r, jobs w1) = map_call c (jobs w)" for r w1
    by (rule wp_mono [OF Cons.IH [OF that(1)]])
       (use that(2) Cons.prems(2) in \<open>auto split: prod.splits simp: prod_eq_iff\<close>)
  show ?case unfolding store_calls.simps wp_bind wp_return
    by (rule wp_mono [OF store_call_map]) (use Cons.prems rest in auto)
qed simp

end

text \<open>C20. The Redis store and the in-memory store cannot be told apart by calls that succeed: the same sequence of
  \<open>Put\<close>, \<open>Get\<close> and \<open>List\<close> on two stores with the same content gives the same replies (\<open>ErrNotFound\<close> included, and
  listings compared as sets of jobs) and leaves the same content, and these are the replies of a plain map, as long as no call
  reports another error.\<close>

theorem stores_agree:
  assumes "redis_kv R kv I todo rank" "codec_ok C" "range_order rng"
    and "I w" "records_ok C (kv w)" "mem_inv s" "mem_view s = stored C (kv w)" "list_all op_ok cs"
    and "run_state (store_calls (redis_store n R C) cs) w = (rs, w')" "Broke \<notin> set rs"
    and "run_state (store_calls (mem_store rng) cs) s = (ms, s')" "Broke \<notin> set ms"
  shows "rs = ms \<and> mem_view s' = stored C (kv w') \<and> (rs, stored C (kv w')) = map_calls cs (stored C (kv w))"
proof -
  have rs: "redis_job_store R kv I todo rank C"
    by (intro redis_job_store.intro redis_job_store_axioms.intro assms(1,2))
  have inv: "redis_job_store.sinv kv I C w" using assms(4,5) by (simp add: redis_job_store.sinv_def [OF rs])
  have "job_store (redis_store n R C) (\<lambda>w. stored C (kv w)) (redis_job_store.sinv kv I C)"
    by (rule redis_job_store.store_contract [OF rs])
  from wp_runD [OF job_store.store_calls_map [OF this inv assms(8)] assms(9)]
    wp_runD [OF job_store.store_calls_map [OF mem_store_contract [OF assms(3)] assms(6,8)] assms(11)]
  show ?thesis using assms(7,10,12) by (simp add: prod_eq_iff)
qed

lemma store_run_fine:
  "Broke \<notin> set (fst (run_state (store_calls plant_store [OpPut (bench_job StatusReady), OpGet ''j1'', OpGet ''j2'', OpList])
     (plant_new True [] [])))"
  by code_simp

theorem stores_agree_witness:
  "\<exists>rs w' ms s'. run_state (store_calls plant_store [OpPut (bench_job StatusReady), OpGet ''j1'', OpGet ''j2'', OpList]) (plant_new True [] []) = (rs, w') \<and>
     run_state (store_calls (mem_store id) [OpPut (bench_job StatusReady), OpGet ''j1'', OpGet ''j2'', OpList]) NewMem = (ms, s') \<and>
     Broke \<notin> set rs \<and> rs = [Stored, Found (bench_job StatusReady), Missing, Listed {bench_job StatusReady}]"
proof -
  let ?j = "bench_job StatusReady" and ?w = "plant_new True [] []"
  let ?cs = "[OpPut ?j, OpGet ''j1'', OpGet ''j2'', OpList]" and ?rs = "[Stored, Found ?j, Missing, Listed {?j}]"
  obtain rs w' where run: "run_state (store_calls plant_store ?cs) ?w = (rs, w')" by (metis surj_pair)
  have id: "job_ID ?j = ''j1''" by (simp add: bench_job_def)
  have mem: "\<exists>s'. run_state (store_calls (mem_store id) ?cs) NewMem = (?rs, s')"
    by (simp add: mem_Put_run mem_Get_run mem_List_run mem_view_def NewMem_def id gm_put_def gm_get_def)
  then obtain s' where mrun: "run_state (store_calls (mem_store id) ?cs) NewMem = (?rs, s')" by blast
  have w: "plant_inv ?w" "records_ok text_codec (plant_kv ?w)" "job_ok ?j" "mem_view NewMem = stored text_codec (plant_kv ?w)"
    using plant_new_ok [of True "[]" "[]"]
    by (simp_all add: plant_ok_def bench_job_ok StatusReady_def utf8_valid_ascii is_ascii_def)
       (simp add: fun_eq_iff mem_view_def NewMem_def stored_def plant_new_def)
  have fine: "Broke \<notin> set rs" using store_run_fine run by simp
  have "rs = ?rs"
    using stores_agree [OF plant_kv_laws text_codec_ok _ w(1,2) mem_inv_new w(4) _ run [unfolded plant_store_def] fine mrun] w(3)
    by simp
  with run mrun fine show ?thesis by blast
qed

end
