(* ===== verification/Queue_Guarantees.thy ===== *)
theory Queue_Guarantees
  imports Plant
begin

text \<open>
  The guarantees of the job queue (\<open>internal/queue\<close>) on every Redis whose streams behave as
  documented, with commands that may fail or lose their reply: no message is lost, messages arrive in
  order, a message is taken over only when idle, dead letters are read back.
\<close>

section \<open>Sequences of queue operations\<close>

datatype queue_op =
    QEnqueue string action
  | QDequeue string duration
  | QReclaim string duration int
  | QAck message
  | QDeadLetter message string int
  | QListDead int

fun queue_call :: "'w queue_if \<Rightarrow> queue_op \<Rightarrow> ('w, unit) state" where
  "queue_call q (QEnqueue i a) = do { _ \<leftarrow> queue_Enqueue q i a; State_Monad.return () }"
| "queue_call q (QDequeue c b) = do { _ \<leftarrow> queue_Dequeue q c b; State_Monad.return () }"
| "queue_call q (QReclaim c d n) = do { _ \<leftarrow> queue_Reclaim q c d n; State_Monad.return () }"
| "queue_call q (QAck m) = do { _ \<leftarrow> queue_Ack q m; State_Monad.return () }"
| "queue_call q (QDeadLetter m d n) = do { _ \<leftarrow> queue_DeadLetter q m d n; State_Monad.return () }"
| "queue_call q (QListDead n) = do { _ \<leftarrow> queue_ListDead q n; State_Monad.return () }"

fun queue_calls :: "'w queue_if \<Rightarrow> queue_op list \<Rightarrow> ('w, unit) state" where
  "queue_calls q [] = State_Monad.return ()"
| "queue_calls q (c # cs) = do { _ \<leftarrow> queue_call q c; queue_calls q cs }"

text \<open>The operations that may not take the message \<open>m\<close> away; \<open>attempts\<close> is a Go \<open>int\<close>.\<close>

fun spares :: "message \<Rightarrow> queue_op \<Rightarrow> bool" where
  "spares m (QAck m') \<longleftrightarrow> msg_ID m' \<noteq> msg_ID m"
| "spares m (QDeadLetter m' d n) \<longleftrightarrow> int64_range n"
| "spares m _ \<longleftrightarrow> True"

context job_queue
begin

lemma queue_call_outstanding:
  assumes "inv w" "m \<in> outstanding (qview w)" "spares m c"
  shows "wp (queue_call q c) (\<lambda>_ w'. inv w' \<and> m \<in> outstanding (qview w')) w"
proof -
  note keep = enqueue_outstanding [OF assms(1)] dequeue_outstanding [OF assms(1)] reclaim_outstanding [OF assms(1)]
    deadletter_outstanding [OF assms(1)]
  have list: "wp (queue_ListDead q n) (\<lambda>_ w'. inv w' \<and> m \<in> outstanding (qview w')) w" for n
    by (rule wp_mono [OF listdead [OF assms(1)]]) (use assms(2) in simp)
  have ack: "wp (queue_Ack q m') (\<lambda>_ w'. inv w' \<and> m \<in> outstanding (qview w')) w" if "msg_ID m' \<noteq> msg_ID m" for m'
    by (rule wp_mono [OF ack_outstanding [OF assms(1)]]) (use assms(2) that in auto)
  show ?thesis using assms(2,3)
    by (cases c) (auto intro: list ack wp_mono [OF keep(1)] wp_mono [OF keep(2)] wp_mono [OF keep(3)]
        wp_mono [OF keep(4)])
qed

lemma queue_calls_outstanding:
  "inv w \<Longrightarrow> m \<in> outstanding (qview w) \<Longrightarrow> list_all (spares m) cs \<Longrightarrow>
     wp (queue_calls q cs) (\<lambda>_ w'. inv w' \<and> m \<in> outstanding (qview w')) w"
proof (induction cs arbitrary: w)
  case (Cons c cs)
  then show ?case by (auto intro!: wp_mono [OF queue_call_outstanding [where c = c]])
qed simp

end

text \<open>C7. No message is lost: once a message is waiting or delivered, no sequence of queue operations by any
  number of workers takes it away, whichever of the commands fail or lose their reply, except an
  acknowledgement of that very message.\<close>

theorem message_outstanding_until_acked:
  assumes "redis_job_queue R view idle I Y" "I w" "sv_group (view w) StreamKey Group"
    and "m \<in> outstanding (queue_of T (view w))" "list_all (spares m) cs"
    and "run_state (queue_calls (redis_queue R Y T) cs) w = (u, w')"
  shows "m \<in> outstanding (queue_of T (view w'))"
proof -
  have "redis_job_queue.qinv view I w" using assms(2,3) by (simp add: redis_job_queue.qinv_def [OF assms(1)])
  from wp_runD [OF job_queue.queue_calls_outstanding [OF redis_job_queue.queue_contract [OF assms(1)] this assms(4,5)] assms(6)]
  show ?thesis by simp
qed

definition waiting_entry :: xmessage where
  "waiting_entry = \<lparr>xm_ID = entry_id 0, xm_Values = [(''job_id'', AnyString ''j1''), (''action'', AnyString ''provision'')]\<rparr>"

definition plant_pending :: "fault list \<Rightarrow> plant" where
  "plant_pending fs = (plant_new False fs [])\<lparr>pl_redis := (pl_redis (plant_new False fs []))
     \<lparr>srv_groups := [((StreamKey, Group), ([], [(waiting_entry, ''w0'', 0)]))]\<rparr>\<rparr>"

lemma plant_pending_ok [simp]: "plant_ok (plant_pending fs)"
  by (simp add: plant_pending_def waiting_entry_def plant_ok_def plant_new_def plant_inv_def srv_inv_def ds_inv_def
      ds_view_def ids_unique_def time_ok_def group_ok_def ids_below_def NewRegistry_def records_ok_def srv_view_def gm_get_def)

lemma plant_pending_view [simp]:
  "qv_waiting (plant_qview (plant_pending fs)) = []" "qv_dead (plant_qview (plant_pending fs)) = []"
  "qv_pending (plant_qview (plant_pending fs)) = {\<lparr>msg_ID = entry_id 0, msg_JobID = ''j1'', msg_Action = ActionProvision\<rparr>}"
  by (simp_all add: plant_pending_def plant_new_def queue_of_def srv_view_def group_of_def gm_get_def entries_of_def
      waiting_entry_def messageFrom_def str_field_def ActionProvision_def)

lemma plant_group: "plant_ok w \<Longrightarrow> sv_group (plant_view w) StreamKey Group"
  by (simp add: plant_ok_def)

theorem message_outstanding_until_acked_witness:
  "\<exists>w'. run_state (queue_calls plant_queue [QReclaim ''w1'' 0 10, QAck \<lparr>msg_ID = ''9-0'', msg_JobID = ''j1'', msg_Action = ActionProvision\<rparr>,
       QDeadLetter \<lparr>msg_ID = ''9-0'', msg_JobID = ''j1'', msg_Action = ActionProvision\<rparr> ''gone'' 3, QDequeue ''w2'' 0])
       (plant_pending [ReplyLost, Fine, Refuse]) = ((), w') \<and>
     \<lparr>msg_ID = entry_id 0, msg_JobID = ''j1'', msg_Action = ActionProvision\<rparr> \<in> outstanding (plant_qview w')"
proof -
  let ?other = "\<lparr>msg_ID = ''9-0'', msg_JobID = ''j1'', msg_Action = ActionProvision\<rparr>"
    and ?w = "plant_pending [ReplyLost, Fine, Refuse]" and ?m = "\<lparr>msg_ID = entry_id 0, msg_JobID = ''j1'', msg_Action = ActionProvision\<rparr>"
  let ?cs = "[QReclaim ''w1'' 0 10, QAck ?other, QDeadLetter ?other ''gone'' 3, QDequeue ''w2'' 0]"
  obtain u w' where run: "run_state (queue_calls plant_queue ?cs) ?w = (u, w')" by (metis surj_pair)
  have u: "u = ()" by (rule unit_eq)
  have m: "?m \<in> outstanding (plant_qview ?w)" by (simp add: outstanding_def)
  have "''9-0'' \<noteq> entry_id 0" by code_simp
  then have cs: "list_all (spares ?m) ?cs" by (simp add: int64_range_def)
  have "?m \<in> outstanding (plant_qview w')"
    by (rule message_outstanding_until_acked [OF pq.redis_job_queue_axioms plant_ok_inv plant_group m cs
          run [unfolded plant_queue_def]]) simp_all
  with run [unfolded u] show ?thesis by (intro exI conjI)
qed

section \<open>Order\<close>

fun enqueue_each :: "'w queue_if \<Rightarrow> (string \<times> action) list \<Rightarrow> ('w, goerr option list) state" where
  "enqueue_each q [] = State_Monad.return []"
| "enqueue_each q ((i, a) # xs) =
     do { e \<leftarrow> queue_Enqueue q i a; es \<leftarrow> enqueue_each q xs; State_Monad.return (e # es) }"

fun dequeue_each :: "'w queue_if \<Rightarrow> (string \<times> duration) list \<Rightarrow> ('w, (goerr + message option) list) state" where
  "dequeue_each q [] = State_Monad.return []"
| "dequeue_each q ((c, b) # xs) =
     do { r \<leftarrow> queue_Dequeue q c b; rs \<leftarrow> dequeue_each q xs; State_Monad.return (r # rs) }"

definition asks :: "message \<Rightarrow> string \<times> action" where
  "asks m = (msg_JobID m, msg_Action m)"

text \<open>An empty action is read back as \<open>provision\<close>, for messages of older producers.\<close>

definition as_asked :: "string \<times> action \<Rightarrow> string \<times> action" where
  "as_asked = (\<lambda>(i, a). (i, if a = [] then ActionProvision else a))"

lemma enqueued_asks:
  "enqueued i a v v' \<Longrightarrow> map asks (qv_waiting v') = map asks (qv_waiting v) @ [as_asked (i, a)]"
  by (auto simp: enqueued_def asks_def as_asked_def)

context job_queue
begin

lemma enqueue_each_waiting:
  "inv w \<Longrightarrow> wp (enqueue_each q xs) (\<lambda>es w'. inv w' \<and>
     (set es \<subseteq> {None} \<longrightarrow> map asks (qv_waiting (qview w')) = map asks (qv_waiting (qview w)) @ map as_asked xs)) w"
proof (induction xs arbitrary: w)
  case (Cons x xs)
  obtain i a where x: "x = (i, a)" by fastforce
  have rest: "wp (enqueue_each q xs) (\<lambda>es w'. inv w' \<and> (set (e # es) \<subseteq> {None} \<longrightarrow>
      map asks (qv_waiting (qview w')) = map asks (qv_waiting (qview w)) @ map as_asked (x # xs))) w1"
    if "inv w1" "enqueued i a (qview w) (qview w1) \<or> e \<noteq> None \<and> qview w1 = qview w" for e w1
    by (rule wp_mono [OF Cons.IH [OF that(1)]])
       (use that(2) in \<open>auto simp: x enqueued_asks\<close>)
  show ?case unfolding x enqueue_each.simps wp_bind wp_return
    by (rule wp_mono [OF enqueue [OF Cons.prems]]) (use rest in \<open>auto simp: x\<close>)
qed simp

lemma dequeue_each_waiting:
  "inv w \<Longrightarrow> wp (dequeue_each q xs) (\<lambda>rs w'. inv w' \<and> (set rs \<subseteq> range Inr \<longrightarrow>
     rs = map (\<lambda>m. Inr (Some m)) (take (length xs) (qv_waiting (qview w))) @
       replicate (length xs - length (qv_waiting (qview w))) (Inr None))) w"
proof (induction xs arbitrary: w)
  case (Cons x xs)
  obtain c b where x: "x = (c, b)" by fastforce
  have rest: "wp (dequeue_each q xs) (\<lambda>rs w'. inv w' \<and> (set (r # rs) \<subseteq> range Inr \<longrightarrow>
      r # rs = map (\<lambda>m. Inr (Some m)) (take (length ((c, b) # xs)) (qv_waiting (qview w))) @
        replicate (length ((c, b) # xs) - length (qv_waiting (qview w))) (Inr None))) w1"
    if "inv w1" and r: "case r of Inr None \<Rightarrow> qv_waiting (qview w) = [] \<and> qview w1 = qview w
          | Inr (Some m) \<Rightarrow> dequeued m (qview w) (qview w1)
          | Inl e \<Rightarrow> True" for r w1
    by (rule wp_mono [OF Cons.IH [OF that(1)]])
       (use r in \<open>auto simp: dequeued_def split: sum.splits option.splits\<close>)
  show ?case unfolding x dequeue_each.simps wp_bind wp_return
    by (rule wp_mono [OF dequeue [OF Cons.prems]], rule rest) (auto split: sum.splits option.splits)
qed simp

lemma in_order:
  assumes "inv w" "qv_waiting (qview w) = []"
  shows "wp (do { es \<leftarrow> enqueue_each q xs; rs \<leftarrow> dequeue_each q cs; State_Monad.return (es, rs) })
    (\<lambda>(es, rs) _. set es \<subseteq> {None} \<longrightarrow> set rs \<subseteq> range Inr \<longrightarrow>
       map (map_sum id (map_option asks)) rs = map (\<lambda>x. Inr (Some (as_asked x))) (take (length cs) xs) @
         replicate (length cs - length xs) (Inr None)) w"
proof -
  have read: "wp (dequeue_each q cs) (\<lambda>rs _. set es \<subseteq> {None} \<longrightarrow> set rs \<subseteq> range Inr \<longrightarrow>
      map (map_sum id (map_option asks)) rs = map (\<lambda>x. Inr (Some (as_asked x))) (take (length cs) xs) @
        replicate (length cs - length xs) (Inr None)) w1"
    if w1: "inv w1" "set es \<subseteq> {None} \<longrightarrow> map asks (qv_waiting (qview w1)) = map as_asked xs" for es :: "goerr option list" and w1
  proof (rule wp_mono [OF dequeue_each_waiting [OF w1(1)]], intro impI, goal_cases)
    case (1 rs w')
    from 1(2) w1(2) have waiting: "map asks (qv_waiting (qview w1)) = map as_asked xs" by simp
    then have len: "length (qv_waiting (qview w1)) = length xs" by (rule map_eq_imp_length_eq)
    from 1(1,3) have rs: "rs = map (\<lambda>m. Inr (Some m)) (take (length cs) (qv_waiting (qview w1))) @
        replicate (length cs - length xs) (Inr None)" by (simp add: len)
    have "map (\<lambda>m. Inr (Some (asks m))) (take (length cs) (qv_waiting (qview w1))) =
        map (\<lambda>y. Inr (Some y)) (take (length cs) (map asks (qv_waiting (qview w1))))" by (simp add: take_map)
    then show ?case unfolding rs waiting by (simp add: take_map comp_def)
  qed
  show ?thesis by (simp, rule wp_mono [OF enqueue_each_waiting [OF assms(1)]]) (use read assms(2) in simp)
qed

end

text \<open>C21. First in, first out: jobs enqueued while no message is waiting, each without an error, are delivered by
  calls that report no error, to whichever consumers ask, in the order and with the actions they were enqueued
  with, each once, and then the queue reports itself empty. (An empty action arrives as \<open>provision\<close>.)\<close>

theorem messages_in_order:
  assumes "redis_job_queue R view idle I Y" "I w" "sv_group (view w) StreamKey Group"
    and "qv_waiting (queue_of T (view w)) = []"
    and "run_state (do { es \<leftarrow> enqueue_each (redis_queue R Y T) xs; rs \<leftarrow> dequeue_each (redis_queue R Y T) cs;
           State_Monad.return (es, rs) }) w = ((es, rs), w')"
    and "set es \<subseteq> {None}" "set rs \<subseteq> range Inr"
  shows "map (map_sum id (map_option asks)) rs = map (\<lambda>x. Inr (Some (as_asked x))) (take (length cs) xs) @
    replicate (length cs - length xs) (Inr None)"
proof -
  have "redis_job_queue.qinv view I w" using assms(2,3) by (simp add: redis_job_queue.qinv_def [OF assms(1)])
  from wp_runD [OF job_queue.in_order [OF redis_job_queue.queue_contract [OF assms(1)] this assms(4)] assms(5)] assms(6,7)
  show ?thesis by simp
qed

definition order_run :: "(plant, goerr option list \<times> (goerr + message option) list) state" where
  "order_run =
     do { es \<leftarrow> enqueue_each plant_queue [(''j2'', []), (''j3'', ActionDeprovision)];
          rs \<leftarrow> dequeue_each plant_queue [(''w1'', 0), (''w2'', 0), (''w1'', 0)]; State_Monad.return (es, rs) }"

text \<open>None of its five calls reports an error.\<close>

lemma order_run_fine:
  "case run_state order_run (plant_pending []) of ((es, rs), w') \<Rightarrow> set es \<subseteq> {None} \<and> length rs = 3 \<and> \<not> list_ex isl rs"
  by code_simp

theorem messages_in_order_witness:
  "\<exists>es rs w'. run_state order_run (plant_pending []) = ((es, rs), w') \<and> set es \<subseteq> {None} \<and> set rs \<subseteq> range Inr \<and>
     map (map_sum id (map_option asks)) rs =
       [Inr (Some (''j2'', ActionProvision)), Inr (Some (''j3'', ActionDeprovision)), Inr None]"
proof -
  let ?w = "plant_pending []"
  obtain es rs w' where run: "run_state order_run ?w = ((es, rs), w')" by (metis surj_pair)
  have w: "plant_inv ?w" "sv_group (plant_view ?w) StreamKey Group" "qv_waiting (plant_qview ?w) = []"
    by (simp_all add: plant_ok_inv plant_group)
  have es: "set es \<subseteq> {None}" and r: "\<not> list_ex isl rs" using order_run_fine run by simp_all
  have "x \<in> range Inr" if "x \<in> set rs" for x
    by (rule sum.exhaust [of x]) (use that r in \<open>auto simp: list_ex_iff\<close>)
  then have rs: "set rs \<subseteq> range Inr" by blast
  from messages_in_order [OF pq.redis_job_queue_axioms w run [unfolded order_run_def plant_queue_def] es rs] run es rs
  show ?thesis by (simp add: as_asked_def)
qed

section \<open>Taking over\<close>

text \<open>C34. A message is taken over from another worker only when it is pending and has been idle for at
  least \<open>minIdle\<close>, at most \<open>count\<close> messages at a time, each once; taking over removes nothing.\<close>

theorem reclaim_only_idle:
  assumes "redis_job_queue R view idle I Y" "I w" "sv_group (view w) StreamKey Group"
    and "run_state (RedisQueue_Reclaim R c d n) w = (Inr ms, w')"
  shows "(\<forall>m \<in> set ms. idle w StreamKey Group (msg_ID m) \<ge> d) \<and> set ms \<subseteq> qv_pending (queue_of T (view w)) \<and>
    int (length ms) \<le> max 0 n \<and> queue_of T (view w') = queue_of T (view w)"
proof -
  have "redis_job_queue.qinv view I w" using assms(2,3) by (simp add: redis_job_queue.qinv_def [OF assms(1)])
  from wp_runD [OF redis_job_queue.reclaim_contract [OF assms(1) this] assms(4)]
    wp_runD [OF redis_job_queue.reclaim_idle [OF assms(1,2)] assms(4)]
  show ?thesis by auto
qed

theorem reclaim_only_idle_witness:
  "\<exists>ms w'. run_state (RedisQueue_Reclaim plant_redis ''w1'' 0 10) (plant_pending []) = (Inr ms, w') \<and>
     (\<forall>m \<in> set ms. srv_idle (pl_redis (plant_pending [])) StreamKey Group (msg_ID m) \<ge> 0) \<and>
     plant_qview w' = plant_qview (plant_pending [])"
proof -
  let ?w = "plant_pending []"
  have "\<exists>ms w'. run_state (RedisQueue_Reclaim plant_redis ''w1'' 0 10) ?w = (Inr ms, w')"
    by (simp add: RedisQueue_Reclaim_def plant_redis_def on_redis_def redis_srv_def command_def srv_XAutoClaim_def Let_def
        plant_pending_def plant_new_def gm_get_def)
  then obtain ms w' where run: "run_state (RedisQueue_Reclaim plant_redis ''w1'' 0 10) ?w = (Inr ms, w')" by blast
  have w: "plant_inv ?w" "sv_group (plant_view ?w) StreamKey Group" by (simp_all add: plant_ok_inv plant_group)
  from reclaim_only_idle [OF pq.redis_job_queue_axioms w run, of int_time_text] run show ?thesis by blast
qed

section \<open>Dead letters\<close>

context job_queue
begin

text \<open>A letter just written, and not trimmed, is the last of a listing that shows all of them.\<close>

lemma dead_letter_last:
  assumes "inv w1" "dead_lettered m d n t v (qview w1)" "int (length (qv_dead v)) < limit"
  shows "wp (queue_ListDead q limit) (\<lambda>r _. case r of Inl _ \<Rightarrow> True
       | Inr es \<Rightarrow> es \<noteq> [] \<and> de_JobID (last es) = msg_JobID m \<and> de_Action (last es) = msg_Action m \<and>
           de_Detail (last es) = d \<and> de_Attempts (last es) = n \<and> de_Timestamp (last es) = t) w1"
proof -
  from assms(3) have pos: "limit > 0" by linarith
  from assms(2) obtain e k where e: "de_JobID e = msg_JobID m" "de_Action e = msg_Action m" "de_Detail e = d" "de_Attempts e = n"
    "de_Timestamp e = t" and v: "qview w1 = v\<lparr>qv_dead := drop k (qv_dead v @ [e])\<rparr>"
    and len: "int (length (qv_dead (qview w1))) \<ge> min deadStreamMaxLen (int (length (qv_dead v)) + 1)"
    unfolding dead_lettered_def by blast
  from len have ne: "drop k (qv_dead v @ [e]) \<noteq> []" by (auto simp: v deadStreamMaxLen_def)
  then have "k < length (qv_dead v @ [e])" by (meson drop_all leI)
  then have last: "last (drop k (qv_dead v @ [e])) = e" by (simp only: last_drop last_snoc)
  have "take (nat limit) (drop k (qv_dead v @ [e])) = drop k (qv_dead v @ [e])"
    using assms(3) by (intro take_all) simp
  with pos ne last e show ?thesis
    by (intro wp_mono [OF listdead [OF assms(1)]]) (auto simp: v split: sum.splits)
qed

end

text \<open>C35. Dead letters are read back: after a dead letter was written without error, a listing that succeeds and whose
  limit exceeds the number of letters there were shows it last, with the job, the action, the detail, the
  number of attempts and the time at which it was written, although all of them travel as text. (With a smaller
  limit the listing, which starts with the oldest letters, need not show it.) The law of the time layout is that
  \<open>time.Parse\<close> with \<open>RFC3339Nano\<close> undoes \<open>Format\<close> with the same layout.\<close>

theorem dead_letters_read_back:
  assumes "redis_job_queue R view idle I Y" "I w" "sv_group (view w) StreamKey Group" "int64_range n"
    and "int (length (qv_dead (queue_of T (view w)))) < limit"
    and "layout_ok T" "run_state (sys_now Y) w = (t, w0)" "time_ok t"
    and "run_state (do { e \<leftarrow> RedisQueue_DeadLetter R Y T m d n; r \<leftarrow> RedisQueue_ListDead R T limit;
           State_Monad.return (e, r) }) w = ((None, Inr es), w')"
  shows "es \<noteq> [] \<and> de_JobID (last es) = msg_JobID m \<and> de_Action (last es) = msg_Action m \<and>
    de_Detail (last es) = d \<and> de_Attempts (last es) = n \<and> de_Timestamp (last es) = t"
proof -
  have w: "redis_job_queue.qinv view I w" using assms(2,3) by (simp add: redis_job_queue.qinv_def [OF assms(1)])
  obtain w1 where sent: "run_state (RedisQueue_DeadLetter R Y T m d n) w = (None, w1)"
    and listed: "run_state (queue_ListDead (redis_queue R Y T) limit) w1 = (Inr es, w')"
    using assms(9) by (auto simp: redis_queue_def split: prod.splits)
  from wp_runD [OF redis_job_queue.deadletter_written [OF assms(1) w assms(4,7)] sent]
  have w1: "redis_job_queue.qinv view I w1" "dead_lettered m d n t (queue_of T (view w)) (queue_of T (view w1))"
    by (simp_all add: stamp_id [OF assms(6,8)])
  from wp_runD [OF job_queue.dead_letter_last [OF redis_job_queue.queue_contract [OF assms(1)] w1 assms(5)] listed]
  show ?thesis by simp
qed

theorem dead_letters_read_back_witness:
  "\<exists>t w0 es w'. run_state (sys_now plant_sys) (plant_pending []) = (t, w0) \<and>
     run_state (do { e \<leftarrow> RedisQueue_DeadLetter plant_redis plant_sys int_time_text
         \<lparr>msg_ID = ''1-0'', msg_JobID = ''j1'', msg_Action = ActionProvision\<rparr> ''no image'' (-7);
       r \<leftarrow> RedisQueue_ListDead plant_redis int_time_text 5; State_Monad.return (e, r) }) (plant_pending []) = ((None, Inr es), w') \<and>
     de_Attempts (last es) = - 7 \<and> de_Timestamp (last es) = t"
proof -
  let ?m = "\<lparr>msg_ID = ''1-0'', msg_JobID = ''j1'', msg_Action = ActionProvision\<rparr>" and ?w = "plant_pending []"
  have "\<exists>es w'. run_state (do { e \<leftarrow> RedisQueue_DeadLetter plant_redis plant_sys int_time_text ?m ''no image'' (-7);
       r \<leftarrow> RedisQueue_ListDead plant_redis int_time_text 5; State_Monad.return (e, r) }) ?w = ((None, Inr es), w')"
    by (simp add: RedisQueue_DeadLetter_def RedisQueue_ListDead_def plant_redis_def plant_sys_def on_redis_def redis_srv_def
        srv_sys_def command_def srv_XAdd_def srv_XRangeN_def Let_def plant_pending_def plant_new_def err_of_def)
  then obtain es w' where run: "run_state (do { e \<leftarrow> RedisQueue_DeadLetter plant_redis plant_sys int_time_text ?m ''no image'' (-7);
       r \<leftarrow> RedisQueue_ListDead plant_redis int_time_text 5; State_Monad.return (e, r) }) ?w = ((None, Inr es), w')" by blast
  obtain t w0 where now: "run_state (sys_now plant_sys) ?w = (t, w0)" by (metis surj_pair)
  have w: "plant_inv ?w" "sv_group (plant_view ?w) StreamKey Group" by (simp_all add: plant_ok_inv plant_group)
  have t: "time_ok t" using wp_runD [OF keepsD [OF plant_sys_keeps(1) w(1)] now] by simp
  from dead_letters_read_back [OF pq.redis_job_queue_axioms w _ _ int_time_text_ok now t run] run now show ?thesis
    by (auto simp: int64_range_def)
qed

end
