(* ===== verification/Processes.thy ===== *)
theory Processes
  imports Xds_Admin Api Redis_Store Redis_Queue Worker Provisioner
begin

text \<open>
  The four commands: \<open>cmd/broker\<close>, \<open>cmd/worker\<close>, \<open>cmd/xds\<close> and \<open>cmd/echo\<close>. Each \<open>main\<close> is the order
  of its start-up calls, with \<open>os.Exit(1)\<close> as an outcome, followed by what the process then does with what
  happens to it, in the order in which it happens: requests, the end of a listener, a signal, rounds of the
  loops it runs in the background. The result of a process is its exit code, \<open>None\<close> while it is running: 0 when
  \<open>main\<close> returns, 1 for \<open>os.Exit(1)\<close>, 2 for a panic. \<open>getenv\<close> is \<open>os.Getenv\<close>, \<open>parse\<close> is \<open>time.ParseDuration\<close>,
  \<open>ping\<close> is \<open>rdb.Ping\<close>. Requests are handled one after the other, so that none is in flight when a server is shut
  down; the error of \<open>Shutdown\<close> is only logged.
\<close>

datatype 'a process = Exit1 | Up 'a

text \<open>
  What happens to a server: it gets work, \<open>ListenAndServe\<close> returns, or the process is told to stop
  (\<open>SIGINT\<close>, \<open>SIGTERM\<close>).
\<close>

datatype 'r event = Work 'r | HttpEnds "goerr option" | Signal

definition server_failed :: "goerr option \<Rightarrow> bool" where
  "server_failed err = (case err of None \<Rightarrow> False | Some e \<Rightarrow> \<not> errors_is e ErrServerClosed)"

section \<open>The broker\<close>

definition broker_start ::
  "('w, goerr option) state \<Rightarrow> nat \<Rightarrow> 'w redis_if \<Rightarrow> 'w sys_if \<Rightarrow> time_text \<Rightarrow> codec \<Rightarrow> ('w, 'w server process) state" where
  "broker_start ping n R Y T C =
     do {
       err \<leftarrow> ping;
       (if err \<noteq> None then State_Monad.return Exit1
        else do {
          err2 \<leftarrow> EnsureGroup R;
          State_Monad.return
            (if err2 \<noteq> None then Exit1
             else Up \<lparr>sv_store = redis_store n R C, sv_queue = redis_queue R Y T, sv_sys = Y\<rparr>)
        })
     }"

fun broker_serve :: "sort_if \<Rightarrow> 'w server \<Rightarrow> request event list \<Rightarrow> ('w, response list \<times> int option) state" where
  "broker_serve srt S [] = State_Monad.return ([], None)"
| "broker_serve srt S (Work r # evs) =
     do {
       res \<leftarrow> Routes srt S r;
       (ress, x) \<leftarrow> broker_serve srt S evs;
       State_Monad.return (res # ress, x)
     }"
| "broker_serve srt S (HttpEnds err # evs) =
     (if server_failed err then State_Monad.return ([], Some 1) else broker_serve srt S evs)"
| "broker_serve srt S (Signal # evs) = State_Monad.return ([], Some 0)"

definition broker_main ::
  "('w, goerr option) state \<Rightarrow> nat \<Rightarrow> 'w redis_if \<Rightarrow> 'w sys_if \<Rightarrow> time_text \<Rightarrow> codec \<Rightarrow> sort_if \<Rightarrow>
   request event list \<Rightarrow> ('w, response list \<times> int option) state" where
  "broker_main ping n R Y T C srt evs =
     do {
       s \<leftarrow> broker_start ping n R Y T C;
       (case s of Exit1 \<Rightarrow> State_Monad.return ([], Some 1) | Up S \<Rightarrow> broker_serve srt S evs)
     }"

section \<open>The worker\<close>

definition worker_of ::
  "(string \<Rightarrow> string) \<Rightarrow> (string \<Rightarrow> duration option) \<Rightarrow> string option \<Rightarrow> nat \<Rightarrow> 'w redis_if \<Rightarrow> 'w sys_if \<Rightarrow>
   time_text \<Rightarrow> codec \<Rightarrow> 'w shell \<Rightarrow> ('w, endpointReq option) http_if \<Rightarrow> 'w worker" where
  "worker_of getenv parse host n R Y T C p H =
     (let addr = getenv ''XDS_ADDR'' in
      \<lparr>wk_Name = envOr getenv ''WORKER_NAME'' (hostname host @ ''-1''), wk_Store = redis_store n R C,
       wk_Queue = redis_queue R Y T, wk_Provision = shell_prov p,
       wk_XDS = Some (if addr \<noteq> [] then NewHTTP H addr else Noop), wk_Sys = Y,
       wk_BlockTimeout = 0, wk_ReclaimEvery = envDur getenv parse ''WORKER_RECLAIM_EVERY'' 0,
       wk_ReclaimMinIdle = envDur getenv parse ''WORKER_RECLAIM_MIN_IDLE'' 0, wk_MaxAttempts = 0\<rparr>)"

definition worker_start ::
  "(string \<Rightarrow> string) \<Rightarrow> (string \<Rightarrow> duration option) \<Rightarrow> string option \<Rightarrow> ('w, goerr option) state \<Rightarrow> nat \<Rightarrow> 'w redis_if \<Rightarrow>
   'w sys_if \<Rightarrow> time_text \<Rightarrow> codec \<Rightarrow> 'w shell \<Rightarrow> ('w, endpointReq option) http_if \<Rightarrow> ('w, 'w worker process) state" where
  "worker_start getenv parse host ping n R Y T C p H =
     do {
       err \<leftarrow> ping;
       (if err \<noteq> None then State_Monad.return Exit1
        else do {
          err2 \<leftarrow> EnsureGroup R;
          State_Monad.return
            (if err2 \<noteq> None then Exit1 else Up (worker_of getenv parse host n R Y T C p H))
        })
     }"

text \<open>
  \<open>Run\<close> starts \<open>reclaimLoop\<close> as a goroutine and then loops itself. \<open>sched\<close> says which of the two moves
  next: \<open>True\<close> is an iteration of \<open>Run\<close>; the first \<open>False\<close> is the start of \<open>reclaimLoop\<close>, whose
  \<open>time.NewTicker\<close> panics on an interval that is not positive, the others are its ticks. The process ends
  when \<open>Run\<close> returns or a panic is raised in either.
\<close>

datatype goroutine = Unstarted | Ticking | Ended

fun both_loops :: "bool list \<Rightarrow> goroutine \<Rightarrow> 'w worker \<Rightarrow> ('w, loop_end option) state" where
  "both_loops [] g w = State_Monad.return None"
| "both_loops (True # sched) g w =
     do {
       r \<leftarrow> run_iter w;
       (case r of Some e \<Rightarrow> State_Monad.return (Some e) | None \<Rightarrow> both_loops sched g w)
     }"
| "both_loops (False # sched) Unstarted w =
     (if wk_ReclaimEvery w \<le> 0 then State_Monad.return (Some Crashed) else both_loops sched Ticking w)"
| "both_loops (False # sched) Ticking w =
     do {
       r \<leftarrow> reclaim_tick w;
       (case r of
          Some Crashed \<Rightarrow> State_Monad.return (Some Crashed)
        | Some Stopped \<Rightarrow> both_loops sched Ended w
        | None \<Rightarrow> both_loops sched Ticking w)
     }"
| "both_loops (False # sched) Ended w = both_loops sched Ended w"

definition worker_process :: "bool list \<Rightarrow> 'w worker \<Rightarrow> ('w, loop_end option) state" where
  "worker_process sched w = both_loops sched Unstarted (applyDefaults w)"

text \<open>\<open>main\<close> returns when \<open>Run\<close> does; a signal shows as the end of the context.\<close>

definition worker_main ::
  "(string \<Rightarrow> string) \<Rightarrow> (string \<Rightarrow> duration option) \<Rightarrow> string option \<Rightarrow> ('w, goerr option) state \<Rightarrow> nat \<Rightarrow> 'w redis_if \<Rightarrow>
   'w sys_if \<Rightarrow> time_text \<Rightarrow> codec \<Rightarrow> 'w shell \<Rightarrow> ('w, endpointReq option) http_if \<Rightarrow> bool list \<Rightarrow> ('w, int option) state" where
  "worker_main getenv parse host ping n R Y T C p H sched =
     do {
       s \<leftarrow> worker_start getenv parse host ping n R Y T C p H;
       (case s of
          Exit1 \<Rightarrow> State_Monad.return (Some 1)
        | Up w \<Rightarrow> do {
            r \<leftarrow> worker_process sched w;
            State_Monad.return (map_option (\<lambda>e. case e of Stopped \<Rightarrow> 0 | Crashed \<Rightarrow> 2) r)
          })
     }"

section \<open>The control plane\<close>

text \<open>The synchronous part of \<open>startReconciler\<close>; the result is the interval handed to \<open>Run\<close>.\<close>

definition startReconciler ::
  "(string \<Rightarrow> string) \<Rightarrow> (string \<Rightarrow> duration option) \<Rightarrow> ('b, unit) http_if \<Rightarrow> (string \<Rightarrow> goerr + job list) \<Rightarrow>
   'c cache_if \<Rightarrow> range_if \<Rightarrow> int \<Rightarrow> ('b \<times> 'c registry, duration) state" where
  "startReconciler getenv parse H dec C R t =
     do {
       let brokerAddr = envOr getenv ''BROKER_ADDR'' ''localhost:8080'';
       let every = envDur getenv parse ''XDS_RECONCILE_EVERY'' (60 * second);
       _ \<leftarrow> Reconcile (broker_List H dec brokerAddr) C R t;
       State_Monad.return every
     }"

text \<open>\<open>lis\<close> is the error of \<open>net.Listen\<close> for the gRPC server.\<close>

definition xds_start ::
  "(string \<Rightarrow> string) \<Rightarrow> (string \<Rightarrow> duration option) \<Rightarrow> ('b, unit) http_if \<Rightarrow> (string \<Rightarrow> goerr + job list) \<Rightarrow>
   'c cache_if \<Rightarrow> range_if \<Rightarrow> goerr option \<Rightarrow> int \<Rightarrow> int \<Rightarrow> ('b \<times> 'c registry, duration process) state" where
  "xds_start getenv parse H dec C R lis t0 t1 =
     do {
       err \<leftarrow> on_part snd (\<lambda>r (b, _). (b, r)) (State (PushEmpty C R t0));
       (if err \<noteq> None then State_Monad.return Exit1
        else do {
          every \<leftarrow> startReconciler getenv parse H dec C R t1;
          State_Monad.return (if lis \<noteq> None then Exit1 else Up every)
        })
     }"

text \<open>
  The work of the process: requests to the admin API, the next step of the goroutine (the first pass of \<open>Run\<close>
  with the ticker that follows it, then one pass per tick), and the end of the gRPC server. The numbers are times.
\<close>

datatype xds_work =
    AdminRequest int string string "endpointReq option"
  | Background int
  | GrpcEnds "goerr option"

fun xds_serve ::
  "('b, goerr + job list) state \<Rightarrow> 'c cache_if \<Rightarrow> range_if \<Rightarrow> duration \<Rightarrow> goroutine \<Rightarrow> xds_work event list \<Rightarrow>
   ('b \<times> 'c registry, admin_resp list \<times> int option) state" where
  "xds_serve lister C R every g [] = State_Monad.return ([], None)"
| "xds_serve lister C R every g (Work (AdminRequest t m path b) # evs) =
     do {
       res \<leftarrow> on_part snd (\<lambda>r (b, _). (b, r)) (admin_routes C R t m path b);
       (ress, x) \<leftarrow> xds_serve lister C R every g evs;
       State_Monad.return (res # ress, x)
     }"
| "xds_serve lister C R every g (Work (Background t) # evs) =
     (if g = Ended then xds_serve lister C R every g evs
      else do {
        _ \<leftarrow> Reconcile lister C R t;
        (if g = Unstarted \<and> every = 0 then xds_serve lister C R every Ended evs
         else if g = Unstarted \<and> every < 0 then State_Monad.return ([], Some 2)
         else xds_serve lister C R every Ticking evs)
      })"
| "xds_serve lister C R every g (Work (GrpcEnds err) # evs) =
     (if err \<noteq> None then State_Monad.return ([], Some 1) else xds_serve lister C R every g evs)"
| "xds_serve lister C R every g (HttpEnds err # evs) =
     (if server_failed err then State_Monad.return ([], Some 1) else xds_serve lister C R every g evs)"
| "xds_serve lister C R every g (Signal # evs) = State_Monad.return ([], Some 0)"

definition xds_main ::
  "(string \<Rightarrow> string) \<Rightarrow> (string \<Rightarrow> duration option) \<Rightarrow> ('b, unit) http_if \<Rightarrow> (string \<Rightarrow> goerr + job list) \<Rightarrow>
   'c cache_if \<Rightarrow> range_if \<Rightarrow> goerr option \<Rightarrow> int \<Rightarrow> int \<Rightarrow> xds_work event list \<Rightarrow>
   ('b \<times> 'c registry, admin_resp list \<times> int option) state" where
  "xds_main getenv parse H dec C R lis t0 t1 evs =
     do {
       s \<leftarrow> xds_start getenv parse H dec C R lis t0 t1;
       (case s of
          Exit1 \<Rightarrow> State_Monad.return ([], Some 1)
        | Up every \<Rightarrow>
            xds_serve (broker_List H dec (envOr getenv ''BROKER_ADDR'' ''localhost:8080'')) C R every Unstarted evs)
     }"

section \<open>The echo workload\<close>

text \<open>
  The address it listens on, and its answer to a request: a status and a body. \<open>path\<close> is a cleaned path (\<open>ServeMux\<close> redirects any other), and
  a pattern for GET takes HEAD too.
\<close>

datatype echo_body = EchoJSON "(string, string) gomap" | EchoText string

definition echo_main :: "(string \<Rightarrow> string) \<Rightarrow> string \<times> (string \<Rightarrow> string \<Rightarrow> string \<Rightarrow> int \<times> echo_body)" where
  "echo_main getenv =
     (let service = envOr getenv ''SERVICE_NAME'' ''unknown''; jobID = envOr getenv ''JOB_ID'' ''unknown'';
          addr = envOr getenv ''ECHO_ADDR'' '':8080'' in
      (addr, \<lambda>m path host.
        let get = (m = ''GET'' \<or> m = ''HEAD'') in
        if path = ''/health''
        then (if get then (200, EchoJSON [(''status'', ''ok'')]) else (405, EchoText ''Method Not Allowed''))
        else if path = ''/whoami''
        then (if get then (200, EchoJSON [(''service'', service), (''job'', jobID), (''host'', host)])
              else (405, EchoText ''Method Not Allowed''))
        else (404, EchoText ''404 page not found'')))"

end
