(* ===== verification/Process_Guarantees.thy ===== *)
theory Process_Guarantees
  imports Processes Plant
begin

text \<open>
  The guarantees of the commands broker, worker and echo: what holds once a process is up, how the environment
  sets the intervals, and that the workload knows its job. Those of the control plane are in \<open>Control_Process\<close>.
\<close>

section \<open>Starting the broker and the worker\<close>

context redis_job_queue
begin

lemma EnsureGroup_again:
  assumes "qinv w"
  shows "wp (EnsureGroup R) (\<lambda>e w'. qinv w' \<and> view w' = view w) w"
proof -
  from assms have w: "inv w" "sv_group (view w) StreamKey Group" by (simp_all add: qinv_def)
  show ?thesis unfolding EnsureGroup_def wp_bind wp_return
    by (rule wp_mono [OF xgroup [OF w(1)]]) (use w(2) in \<open>auto simp: qinv_def group_made_def\<close>)
qed

lemma broker_start_group:
  assumes "inv w" "wp ping (\<lambda>_ w'. inv w' \<and> view w' = view w) w"
  shows "wp (broker_start ping n R Y T C) (\<lambda>p w'. inv w' \<and> (p \<noteq> Exit1 \<longrightarrow> qinv w')) w"
  unfolding broker_start_def wp_bind wp_return
  by (rule wp_mono [OF assms(2)])
     (auto simp: wp_bind wp_return intro!: wp_mono [OF EnsureGroup_ok])

lemma worker_start_late:
  assumes "qinv w" "wp ping (\<lambda>_ w'. inv w' \<and> view w' = view w) w"
  shows "wp (worker_start getenv parse host ping n R Y T C p H) (\<lambda>_ w'. qinv w' \<and> view w' = view w) w"
  unfolding worker_start_def wp_bind wp_return
proof (rule wp_mono [OF assms(2)])
  fix e w1 assume "inv w1 \<and> view w1 = view w"
  then have w1: "qinv w1" "view w1 = view w" using assms(1) by (simp_all add: qinv_def)
  then show "wp (if e \<noteq> None then State_Monad.return Exit1
      else do { err2 \<leftarrow> EnsureGroup R;
                State_Monad.return (if err2 \<noteq> None then Exit1 else Up (worker_of getenv parse host n R Y T C p H)) })
      (\<lambda>_ w'. qinv w' \<and> view w' = view w) w1"
    by (auto simp: wp_bind wp_return intro!: wp_mono [OF EnsureGroup_again])
qed

end

text \<open>C32. No job is missed by a worker that starts late. Once the broker is up, the consumer group exists, so
  that whatever the broker enqueues from then on waits for the group; and a worker that starts after that, however
  its start goes, leaves the waiting, the delivered and the dead messages as they are (the group it asks for is
  made to skip all earlier messages, but the one there is stays in place).
\<close>

theorem late_worker_misses_nothing:
  assumes "redis_job_queue R view idle I Y" "\<And>w. I w \<Longrightarrow> wp ping (\<lambda>_ w'. I w' \<and> view w' = view w) w"
    and "I w" "run_state (broker_start ping n R Y T C) w = (Up S, w1)"
  shows "sv_group (view w1) StreamKey Group \<and>
    (\<forall>w2 u w3. I w2 \<and> sv_group (view w2) StreamKey Group \<and>
       run_state (worker_start getenv parse host ping n R Y T C p H) w2 = (u, w3) \<longrightarrow>
       sv_group (view w3) StreamKey Group \<and> queue_of T (view w3) = queue_of T (view w2))"
proof (intro conjI allI impI; (elim conjE)?)
  note q = redis_job_queue.qinv_def [OF assms(1)]
  show "sv_group (view w1) StreamKey Group"
    using wp_runD [OF redis_job_queue.broker_start_group [OF assms(1,3) assms(2) [OF assms(3)]] assms(4)] by (simp add: q)
  fix w2 u w3
  assume w2: "I w2" "sv_group (view w2) StreamKey Group"
    and run: "run_state (worker_start getenv parse host ping n R Y T C p H) w2 = (u, w3)"
  have "redis_job_queue.qinv view I w2" by (simp add: q w2)
  from wp_runD [OF redis_job_queue.worker_start_late [OF assms(1) this assms(2) [OF w2(1)]] run]
  show "sv_group (view w3) StreamKey Group" "queue_of T (view w3) = queue_of T (view w2)" by (auto simp: q)
qed

text \<open>Redis before any process has started, and a transport that refuses every connection.\<close>

definition plant_bare :: plant where
  "plant_bare = (plant_new False [] [])\<lparr>pl_redis := (pl_redis (plant_new False [] []))\<lparr>srv_groups := []\<rparr>\<rparr>"

definition no_http :: "('w, 'b) http_if" where
  "no_http = \<lparr>ht_NewRequest = (\<lambda>_ _. None), ht_Do = (\<lambda>_ _ _. State_Monad.return (Inl (NewErr ''connection refused'')))\<rparr>"

lemma plant_bare_inv: "plant_inv plant_bare"
  using plant_ok_inv [OF plant_new_ok [of False "[]" "[]"]]
  by (simp add: plant_bare_def plant_inv_def srv_inv_def plant_new_def)

lemma plant_bare_up:
  "\<exists>S w1. run_state (broker_start (State_Monad.return None) 9 plant_redis plant_sys int_time_text text_codec) plant_bare = (Up S, w1)"
  by (simp add: broker_start_def EnsureGroup_def plant_redis_def on_redis_def redis_srv_def command_err_def command_def
      srv_XGroupCreate_def err_of_def plant_bare_def plant_new_def)

theorem late_worker_misses_nothing_witness:
  "\<exists>S w1 u w3. run_state (broker_start (State_Monad.return None) 9 plant_redis plant_sys int_time_text text_codec) plant_bare = (Up S, w1) \<and>
     run_state (worker_start (\<lambda>_. []) (\<lambda>_. None) None (State_Monad.return None) 9 plant_redis plant_sys int_time_text
        text_codec plant_shell no_http) (plant_new False [Refuse] []) = (u, w3) \<and>
     sv_group (plant_view w1) StreamKey Group \<and> sv_group (plant_view w3) StreamKey Group"
proof -
  obtain S w1 where up: "run_state (broker_start (State_Monad.return None) 9 plant_redis plant_sys int_time_text text_codec)
      plant_bare = (Up S, w1)" using plant_bare_up by blast
  obtain u w3 where run: "run_state (worker_start (\<lambda>_. []) (\<lambda>_. None) None (State_Monad.return None) 9 plant_redis plant_sys
      int_time_text text_codec plant_shell no_http) (plant_new False [Refuse] []) = (u, w3)" by (metis surj_pair)
  have "plant_ok (plant_new False [Refuse] [])" by simp
  then have "plant_inv (plant_new False [Refuse] [])" "sv_group (plant_view (plant_new False [Refuse] [])) StreamKey Group"
    by (simp_all add: plant_ok_def)
  with late_worker_misses_nothing [OF pq.redis_job_queue_axioms _ plant_bare_inv up] up run show ?thesis
    by (fastforce simp: wp_return)
qed

text \<open>
  The broker answers the requests that come before it is told to stop or its listener fails, and the exit code
  says which of the two it was.
\<close>

definition ends :: "'r event \<Rightarrow> bool" where
  "ends ev = (case ev of Work _ \<Rightarrow> False | HttpEnds err \<Rightarrow> server_failed err | Signal \<Rightarrow> True)"

lemma broker_serve_ends:
  "run_state (broker_serve srt S evs) w = ((ress, x), w') \<Longrightarrow>
     length ress = length (filter (\<lambda>ev. \<exists>r. ev = Work r) (takeWhile (Not \<circ> ends) evs)) \<and>
     x = (case dropWhile (Not \<circ> ends) evs of [] \<Rightarrow> None | ev # _ \<Rightarrow> if ev = Signal then Some 0 else Some 1)"
proof (induction evs arbitrary: w ress)
  case (Cons ev evs)
  then show ?case by (cases ev) (auto simp: ends_def split: prod.splits if_splits)
qed simp

section \<open>Intervals\<close>

lemma both_loops_ends:
  assumes "wk_ReclaimEvery w \<le> 0" "False \<in> set sched"
  shows "\<exists>e s'. run_state (both_loops sched Unstarted w) s = (Some e, s')"
  using assms(2)
proof (induction sched arbitrary: s)
  case (Cons b sched)
  show ?case
  proof (cases b)
    case True
    with Cons have "\<exists>e s'. run_state (both_loops sched Unstarted w) s1 = (Some e, s')" for s1 by simp
    then show ?thesis using True by (auto split: prod.split option.split)
  qed (simp add: assms(1))
qed simp

text \<open>C39. Intervals from the environment. A worker blocks for 5 seconds and tries a job 3 times; its reclaim
  interval is that of \<open>WORKER_RECLAIM_EVERY\<close>, and 30 seconds when that is unset, cannot be parsed or is zero. A
  negative interval parses: then the process ends as soon as its reclaim loop gets to run, and the control plane
  panics at its first step in the background with a negative \<open>XDS_RECONCILE_EVERY\<close>.
\<close>

theorem intervals_from_environment:
  "(let v = applyDefaults (worker_of getenv parse host n R Y T C p H) in
      wk_BlockTimeout v = 5 * second \<and> wk_MaxAttempts v = 3 \<and>
      wk_ReclaimEvery v =
        (case parse (getenv ''WORKER_RECLAIM_EVERY'') of
           None \<Rightarrow> 30 * second
         | Some d \<Rightarrow> if getenv ''WORKER_RECLAIM_EVERY'' = [] \<or> d = 0 then 30 * second else d) \<and>
      (wk_ReclaimEvery v < 0 \<longrightarrow> False \<in> set sched \<longrightarrow>
         (\<exists>e s'. run_state (worker_process sched (worker_of getenv parse host n R Y T C p H)) s = (Some e, s')))) \<and>
   (let every = envDur getenv parse ''XDS_RECONCILE_EVERY'' (60 * second) in
      every < 0 \<longrightarrow> fst (run_state (xds_serve lister K G every Unstarted (Work (Background t) # evs)) u) = ([], Some 2))"
proof -
  have "fst (run_state (xds_serve lister K G every Unstarted (Work (Background t) # evs)) u) = ([], Some 2)" if "every < 0" for every
    using that by (simp split: prod.split)
  moreover have "\<exists>e s'. run_state (worker_process sched (worker_of getenv parse host n R Y T C p H)) s = (Some e, s')"
    if "wk_ReclaimEvery (applyDefaults (worker_of getenv parse host n R Y T C p H)) < 0" "False \<in> set sched"
    unfolding worker_process_def by (rule both_loops_ends) (use that in simp_all)
  ultimately show ?thesis
    by (simp add: Let_def) (auto simp: applyDefaults_def worker_of_def envDur_def Let_def defaultBlockTimeout_def
        defaultMaxAttempts_def defaultReclaimEvery_def split: option.split)
qed

theorem intervals_from_environment_witness:
  "\<exists>e s'. run_state (worker_process [True, False, True] (worker_of (\<lambda>_. ''-1s'') (\<lambda>_. Some (- second)) None 9 plant_redis plant_sys
     int_time_text text_codec plant_shell no_http)) (plant_new False [] []) = (Some e, s')"
proof -
  let ?W = "worker_of (\<lambda>_. ''-1s'') (\<lambda>_. Some (- second)) None 9 plant_redis plant_sys int_time_text text_codec plant_shell no_http"
  have "wk_ReclaimEvery (applyDefaults ?W) < 0"
    by (simp add: applyDefaults_def worker_of_def envDur_def Let_def)
  then show ?thesis
    using intervals_from_environment [of "\<lambda>_. ''-1s''" "\<lambda>_. Some (- second)" None 9 plant_redis plant_sys int_time_text
        text_codec plant_shell no_http "[True, False, True]" "plant_new False [] []", THEN conjunct1]
    unfolding Let_def by (elim conjE) simp
qed

section \<open>The echo workload\<close>

text \<open>\<open>os.Getenv\<close> in a process that was started with these variables.\<close>

fun getenv_of :: "string list \<Rightarrow> string \<Rightarrow> string" where
  "getenv_of [] k = []"
| "getenv_of (v # vs) k = (if prefix (k @ ''='') v then drop (length k + 1) v else getenv_of vs k)"

text \<open>C40. The service a job gets is that of the job. With the variables that the provisioner passes to
  \<open>docker run\<close>, the workload listens on the port that the provisioner publishes, answers the readiness
  probe, and tells anyone who asks the service and the id of the job it was made for. Any other method is
  refused, and there is nothing else to ask for.
\<close>

theorem echo_tells_its_job:
  assumes "job_ServiceName j \<noteq> []" "job_ID j \<noteq> []" "env = getenv_of (flag_values ''-e'' (http_run_args p j))"
    and "echo_main env = (addr, serve)"
  shows "addr = '':8080'' \<and>
    serve ''GET'' ''/whoami'' host =
      (200, EchoJSON [(''service'', job_ServiceName j), (''job'', job_ID j), (''host'', host)]) \<and>
    serve ''GET'' ''/health'' host = (200, EchoJSON [(''status'', ''ok'')]) \<and>
    (fst (serve m path host) = 200 \<longleftrightarrow> m \<in> {''GET'', ''HEAD''} \<and> path \<in> {''/health'', ''/whoami''})"
proof -
  have "flag_values ''-e'' (http_run_args p j) = [''SERVICE_NAME='' @ job_ServiceName j, ''JOB_ID='' @ job_ID j]"
    by (simp add: flag_values_def run_flags_def http_run_args_def)
  then have "env ''SERVICE_NAME'' = job_ServiceName j" "env ''JOB_ID'' = job_ID j" "env ''ECHO_ADDR'' = []"
    by (simp_all add: assms(3))
  with assms(1,2,4) show ?thesis by (auto simp: echo_main_def envOr_def Let_def split: if_splits)
qed

theorem echo_tells_its_job_witness:
  "snd (echo_main (getenv_of (flag_values ''-e'' (http_run_args plant_shell (bench_job StatusReady))))) ''GET'' ''/whoami'' ''h'' =
     (200, EchoJSON [(''service'', ''svc''), (''job'', ''j1''), (''host'', ''h'')])"
  using echo_tells_its_job [of "bench_job StatusReady" _ plant_shell _ _ "''h''", OF _ _ refl surjective_pairing]
  by (simp add: bench_job_def)

end
