(* ===== verification/Served.thy ===== *)
theory Served
  imports Plant
begin

text \<open>
  The worker together with the docker provisioner: what the store says about ready jobs is true of the
  containers, and handling one message keeps it so, unless a teardown message meets a ready job. The locale
  \<open>serving_env\<close> joins the contracts of the worker's environment and of the docker host; the plant is an instance
  of it. That teardown messages meet no ready job is shown for whole runs in \<open>Served_Runs\<close>.
\<close>

section \<open>Records and containers agree\<close>

text \<open>
  Every job stored as ready is served by its two running containers, with the connection and the
  endpoint on record; and every container with a name of a job carries the label of that job.
\<close>

definition truthful :: "'w shell \<Rightarrow> (string \<Rightarrow> job option) \<Rightarrow> containers \<Rightarrow> bool" where
  "truthful p m c \<longleftrightarrow>
     (\<forall>i j. m i = Some j \<and> job_Status j = StatusReady \<longrightarrow>
        serves p c j \<lparr>res_Connection = job_Connection j, res_HTTP = job_HTTP j\<rparr>) \<and>
     (\<forall>j n ct. c n = Some ct \<and> n \<in> {postgresName j, httpName j} \<longrightarrow> ct_job ct = job_ID j)"

lemma truthful_ready:
  "truthful p m c \<Longrightarrow> m i = Some j \<Longrightarrow> job_Status j = StatusReady \<Longrightarrow>
     serves p c j \<lparr>res_Connection = job_Connection j, res_HTTP = job_HTTP j\<rparr>"
  unfolding truthful_def by blast

lemma truthful_label:
  "truthful p m c \<Longrightarrow> c n = Some ct \<Longrightarrow> n \<in> {postgresName j, httpName j} \<Longrightarrow> ct_job ct = job_ID j"
  unfolding truthful_def by blast

lemma truthfulI:
  assumes "\<And>i j. m i = Some j \<Longrightarrow> job_Status j = StatusReady \<Longrightarrow>
      serves p c j \<lparr>res_Connection = job_Connection j, res_HTTP = job_HTTP j\<rparr>"
    and "\<And>j n ct. c n = Some ct \<Longrightarrow> n \<in> {postgresName j, httpName j} \<Longrightarrow> ct_job ct = job_ID j"
  shows "truthful p m c"
  unfolding truthful_def using assms by blast

lemma serves_ID: "job_ID j = job_ID k \<Longrightarrow> serves p c j r \<longleftrightarrow> serves p c k r"
  by (simp add: serves_def postgresName_def httpName_def)

lemma grown_old:
  assumes "grown j m m'" "m n = Some ct"
  shows "\<exists>ct'. m' n = Some ct' \<and> kept ct ct'"
  using assms(1) [unfolded grown_def, rule_format, of n] assms(2) by (elim disjE) auto

lemma grown_new:
  assumes "grown j m m'" "m n = None" "m' n = Some ct"
  shows "n \<in> {postgresName j, httpName j} \<and> ct_job ct = job_ID j"
  using assms(1) [unfolded grown_def, rule_format, of n] assms(2,3) by (elim disjE) auto

lemma serves_grows:
  assumes "serves p m k r" "grown j m m'"
  shows "serves p m' k r"
proof -
  have "m' n = Some ct" if "m n = Some ct" "in_Running (ct_info ct)" for n ct
    using grown_old [OF assms(2) that(1)] that(2) by (auto simp: kept_def)
  with assms(1) show ?thesis unfolding serves_def by metis
qed

lemma truthful_grown:
  assumes "truthful p m c" "grown j c c'"
  shows "truthful p m c'"
proof (rule truthfulI)
  show "serves p c' k \<lparr>res_Connection = job_Connection k, res_HTTP = job_HTTP k\<rparr>"
    if "m i = Some k" "job_Status k = StatusReady" for i k
    by (rule serves_grows [OF truthful_ready [OF assms(1) that] assms(2)])
next
  fix k n ct assume n: "c' n = Some ct" "n \<in> {postgresName k, httpName k}"
  show "ct_job ct = job_ID k"
  proof (cases "c n")
    case None
    with grown_new [OF assms(2) None n(1)] n(2) show ?thesis by (auto simp: names_inject)
  next
    case (Some ct0)
    from grown_old [OF assms(2) Some] n(1) have "ct_job ct = ct_job ct0" by (auto simp: kept_def)
    with truthful_label [OF assms(1) Some n(2)] show ?thesis by simp
  qed
qed

lemma truthful_put:
  "truthful p m c \<Longrightarrow> (job_Status j = StatusReady \<Longrightarrow> serves p c j \<lparr>res_Connection = job_Connection j, res_HTTP = job_HTTP j\<rparr>) \<Longrightarrow>
     truthful p (m(i \<mapsto> j)) c"
  by (auto simp: truthful_def)

text \<open>Removing containers of a job that is not ready leaves every other job alone.\<close>

lemma truthful_removed:
  assumes "truthful p m c" "\<And>i k. m i = Some k \<Longrightarrow> job_ID k = i" "\<And>k. m (job_ID j) = Some k \<Longrightarrow> job_Status k \<noteq> StatusReady"
    and "\<And>n. c' n = c n \<or> c' n = None \<and> (\<exists>ct. c n = Some ct \<and> ct_job ct = job_ID j)"
  shows "truthful p m c'"
proof (rule truthfulI)
  fix i k assume k: "m i = Some k" "job_Status k = StatusReady"
  with assms(2,3) have ne: "job_ID k \<noteq> job_ID j" by metis
  have same: "c' n = c n" if "n \<in> {postgresName k, httpName k}" for n
    using assms(4) [of n] truthful_label [OF assms(1) _ that] ne by auto
  show "serves p c' k \<lparr>res_Connection = job_Connection k, res_HTTP = job_HTTP k\<rparr>"
    using truthful_ready [OF assms(1) k] same by (simp add: serves_def)
next
  fix k n ct assume "c' n = Some ct" "n \<in> {postgresName k, httpName k}"
  then show "ct_job ct = job_ID k"
    using assms(4) [of n] truthful_label [OF assms(1), of n ct k] by auto
qed

section \<open>The worker on a docker host\<close>

locale serving_env = worker_env W jobs inv + docker_host p cts inv
  for W :: "'w worker" and jobs :: "'w \<Rightarrow> string \<Rightarrow> job option" and inv :: "'w \<Rightarrow> bool"
    and p :: "'w shell" and cts :: "'w \<Rightarrow> containers" +
  assumes uses_shell: "wk_Provision W = shell_prov p"
    and put_cts: "inv w \<Longrightarrow> wp (store_Put (wk_Store W) j) (\<lambda>_ w'. cts w' = cts w) w"
    and get_cts: "inv w \<Longrightarrow> wp (store_Get (wk_Store W) i) (\<lambda>_ w'. cts w' = cts w) w"
    and ack_cts: "inv w \<Longrightarrow> wp (queue_Ack (wk_Queue W) m) (\<lambda>_ w'. cts w' = cts w) w"
    and dead_cts: "inv w \<Longrightarrow> wp (queue_DeadLetter (wk_Queue W) m d n) (\<lambda>_ w'. cts w' = cts w) w"
    and reg_cts: "inv w \<Longrightarrow> wp (xds_Register (the_XDS W) s h q) (\<lambda>_ w'. cts w' = cts w) w"
    and unreg_cts: "inv w \<Longrightarrow> wp (xds_Unregister (the_XDS W) s h q) (\<lambda>_ w'. cts w' = cts w) w"
    and now_cts: "inv w \<Longrightarrow> wp (sys_now (wk_Sys W)) (\<lambda>_ w'. cts w' = cts w) w"
begin

text \<open>\<open>holds X\<close>: the invariant holds, and \<open>X\<close> of the records and the containers.\<close>

definition holds :: "((string \<Rightarrow> job option) \<Rightarrow> containers \<Rightarrow> bool) \<Rightarrow> 'w \<Rightarrow> bool" where
  "holds X w \<longleftrightarrow> inv w \<and> X (jobs w) (cts w)"

lemma seq_call:
  assumes "keeps inv jobs G m" "\<And>w. inv w \<Longrightarrow> wp m (\<lambda>_ w'. cts w' = cts w) w" "holds X w"
    and "\<And>a w'. holds X w' \<Longrightarrow> G a \<Longrightarrow> Q a w'"
  shows "wp m Q w"
proof -
  have w: "inv w" using assms(3) by (simp add: holds_def)
  show ?thesis
    by (rule wp_mono [OF wp_conj [THEN iffD2, OF conjI, OF keepsD [OF assms(1) w] assms(2) [OF w]]], rule assms(4))
       (use assms(3) in \<open>auto simp: holds_def\<close>)
qed

lemma seq_store:
  assumes "holds X w" "job_ok j" "\<And>m c. X m c \<Longrightarrow> X (m(job_ID j \<mapsto> j)) c" "\<And>a w'. holds X w' \<Longrightarrow> Q a w'"
  shows "wp (store_Put (wk_Store W) j) Q w"
proof -
  have w: "inv w" using assms(1) by (simp add: holds_def)
  show ?thesis
    by (rule wp_mono [OF wp_conj [THEN iffD2, OF conjI, OF put [OF w assms(2)] put_cts [OF w]]], rule assms(4))
       (use assms(1,3) in \<open>auto simp: holds_def\<close>)
qed

lemmas seq_rules = seq_call [OF ack_keeps ack_cts] seq_call [OF dead_keeps dead_cts] seq_call [OF reg_keeps reg_cts]
  seq_call [OF unreg_keeps unreg_cts] seq_call [OF now_keeps now_cts]

lemma seq_provision:
  assumes "holds (truthful p) w" "job_ok j"
    and "\<And>x w'. holds (truthful p) w' \<Longrightarrow> provided_ok x \<Longrightarrow>
      (\<forall>a e. x = Ret (a, e) \<longrightarrow> e = None \<longrightarrow> (\<exists>r. a = Some r \<and> serves p (cts w') j r)) \<Longrightarrow> Q x w'"
  shows "wp (prov_Provision (wk_Provision W) j) Q w"
proof -
  have w: "inv w" using assms(1) by (simp add: holds_def)
  have "wp (prov_Provision (wk_Provision W) j) (\<lambda>x w'. (inv w' \<and> jobs w' = jobs w \<and> provided_ok x) \<and>
      (grown j (cts w) (cts w') \<and>
        (\<forall>a e. x = Ret (a, e) \<longrightarrow> e = None \<longrightarrow> (\<exists>r. a = Some r \<and> serves p (cts w') j r)))) w"
    unfolding wp_conj [of _ "\<lambda>x w'. inv w' \<and> jobs w' = jobs w \<and> provided_ok x"]
  proof (rule conjI)
    show "wp (prov_Provision (wk_Provision W) j) (\<lambda>x w'. inv w' \<and> jobs w' = jobs w \<and> provided_ok x) w"
      by (rule keepsD [OF prov_keeps [OF assms(2)] w])
    show "wp (prov_Provision (wk_Provision W) j) (\<lambda>x w'. grown j (cts w) (cts w') \<and>
        (\<forall>a e. x = Ret (a, e) \<longrightarrow> e = None \<longrightarrow> (\<exists>r. a = Some r \<and> serves p (cts w') j r))) w"
      unfolding uses_shell shell_prov_def prov_if.select_convs
      by (rule wp_mono [OF Shell_Provision_ok [OF w]]) auto
  qed
  then show ?thesis
    by (rule wp_mono) (use assms(1) in \<open>auto simp: holds_def intro!: assms(3) dest: truthful_grown\<close>)
qed

text \<open>The state in which the result of a successful call is on hand.\<close>

definition served :: "job \<Rightarrow> result \<Rightarrow> (string \<Rightarrow> job option) \<Rightarrow> containers \<Rightarrow> bool" where
  "served j r m c \<longleftrightarrow> truthful p m c \<and> serves p c j r"

lemma holds_served [elim]: "holds (served j r) w \<Longrightarrow> holds (truthful p) w"
  by (simp add: holds_def served_def)

lemma served_put:
  "served j r m c \<Longrightarrow> job_ID k = job_ID j \<Longrightarrow> job_Connection k = res_Connection r \<Longrightarrow> job_HTTP k = res_HTTP r \<Longrightarrow>
     served j r (m(job_ID k \<mapsto> k)) c"
  by (cases r) (auto simp: served_def serves_ID [of k j] intro!: truthful_put)

lemma provision_ready_truthful:
  assumes "holds (served j r) w" "job_ok j" "result_ok r"
  shows "wp (provision_ready W msg j (Some r)) (\<lambda>_. holds (truthful p)) w"
  unfolding provision_ready_def option.case using assms
  by (cases "res_HTTP r")
     (auto intro!: seq_rules [where X = "served j r"] seq_store [where X = "served j r"] served_put simp: result_ok_def)

lemma plain_put: "truthful p m c \<Longrightarrow> job_Status j \<noteq> StatusReady \<Longrightarrow> truthful p (m(i \<mapsto> j)) c"
  by (auto intro: truthful_put)

lemma provision_failed_truthful:
  assumes "holds (truthful p) w" "job_ok j" "error_ok e" "job_Status j \<noteq> StatusReady"
  shows "wp (provision_failed W msg j e) (\<lambda>_. holds (truthful p)) w"
  unfolding provision_failed_def using assms
  by (auto intro!: seq_rules [where X = "truthful p"] seq_store [where X = "truthful p"] plain_put simp: error_ok_def)

lemma provision_truthful:
  assumes "holds (truthful p) w" "job_ok j"
  shows "wp (provision W msg j) (\<lambda>_. holds (truthful p)) w"
proof -
  have fin: "wp (case x of Ret (res, err) \<Rightarrow> (case err of Some e \<Rightarrow> provision_failed W msg k e
        | None \<Rightarrow> provision_ready W msg k res) | Panic \<Rightarrow> State_Monad.return Panic) (\<lambda>_. holds (truthful p)) w1"
    if w1: "holds (truthful p) w1" "provided_ok x"
        "\<forall>a e. x = Ret (a, e) \<longrightarrow> e = None \<longrightarrow> (\<exists>r. a = Some r \<and> serves p (cts w1) k r)"
      and k: "job_ok k" "job_Status k = StatusProvisioning" for x k w1
  proof (cases x)
    case (Ret y)
    obtain res err where y: "y = (res, err)" by fastforce
    show ?thesis
    proof (cases err)
      case None
      with w1(3) Ret y obtain r where r: "res = Some r" "serves p (cts w1) k r" by auto
      with w1 have "holds (served k r) w1" by (simp add: holds_def served_def)
      moreover have "result_ok r" using w1(2) Ret y r by simp
      ultimately show ?thesis using provision_ready_truthful k Ret y None r by simp
    next
      case (Some e)
      then show ?thesis using provision_failed_truthful [OF w1(1) k(1)] w1(2) k Ret y by simp
    qed
  qed (use w1 in simp)
  have ok: "job_ok (begin_attempt j t)" if "time_ok t" for t
    using that assms(2) by (simp add: begin_attempt_def wrap64_range)
  have eq: "j\<lparr>job_Attempts := wrap64 (job_Attempts j + 1), job_Status := StatusProvisioning,
        job_Detail := [], job_UpdatedAt := t\<rparr> = begin_attempt j t" for t
    by (simp add: begin_attempt_def)
  have st: "job_Status (begin_attempt j t) = StatusProvisioning" for t by (simp add: begin_attempt_def)
  show ?thesis using assms
    by (auto simp: provision_def abandon_def Let_def eq wp_case_prod st wrap64_range
        intro!: seq_rules [where X = "truthful p"] seq_store [where X = "truthful p"] plain_put seq_provision fin ok)
qed

text \<open>The state in which the containers of job \<open>i\<close> may go: its record does not say ready.\<close>

definition idle_at :: "string \<Rightarrow> (string \<Rightarrow> job option) \<Rightarrow> containers \<Rightarrow> bool" where
  "idle_at i m c \<longleftrightarrow> truthful p m c \<and> (\<forall>k. m i = Some k \<longrightarrow> job_Status k \<noteq> StatusReady)"

lemma holds_idle [elim]: "holds (idle_at i) w \<Longrightarrow> holds (truthful p) w"
  by (simp add: holds_def idle_at_def)

lemma idle_put: "idle_at i m c \<Longrightarrow> job_Status j \<noteq> StatusReady \<Longrightarrow> idle_at i (m(k \<mapsto> j)) c"
  by (auto simp: idle_at_def intro: plain_put)

lemma seq_deprovision:
  assumes "holds (idle_at (job_ID j)) w" "job_ok j"
    and "\<And>e w'. holds (idle_at (job_ID j)) w' \<Longrightarrow> pred_option error_ok e \<Longrightarrow> Q e w'"
  shows "wp (prov_Deprovision (wk_Provision W) j) Q w"
proof -
  have w: "inv w" and idle: "idle_at (job_ID j) (jobs w) (cts w)" using assms(1) by (simp_all add: holds_def)
  have gone: "truthful p (jobs w) c'"
    if "\<And>n. c' n = cts w n \<or> c' n = None \<and> (\<exists>ct. cts w n = Some ct \<and> ct_job ct = job_ID j)" for c'
    by (rule truthful_removed [where j = j, OF _ _ _ that]) (use idle keyed [OF w] in \<open>auto simp: idle_at_def\<close>)
  have docker: "wp (prov_Deprovision (wk_Provision W) j) (\<lambda>_ w'. truthful p (jobs w) (cts w')) w"
    unfolding uses_shell shell_prov_def prov_if.select_convs
    by (rule wp_mono [OF Shell_Deprovision_ok [OF w]], elim conjE, rule gone, erule spec)
  show ?thesis
    by (rule wp_mono [OF wp_conj [THEN iffD2, OF conjI, OF keepsD [OF deprov_keeps [OF assms(2)] w] docker]], rule assms(3))
       (use idle in \<open>auto simp: holds_def idle_at_def\<close>)
qed

lemma deprovision_truthful:
  assumes "holds (idle_at (job_ID j)) w" "job_ok j" "job_Status j \<noteq> StatusReady"
  shows "wp (deprovision W msg j) (\<lambda>_. holds (truthful p)) w"
  using assms
  by (cases "job_HTTP j")
     (auto simp: deprovision_def wp_case_option error_ok_def split: option.split
       intro!: seq_rules [where X = "idle_at (job_ID j)"] seq_store [where X = "idle_at (job_ID j)"] idle_put seq_deprovision)

lemma handle_truthful:
  assumes "holds (truthful p) w"
    and "\<And>j. msg_Action msg = ActionDeprovision \<Longrightarrow> jobs w (msg_JobID msg) = Some j \<Longrightarrow> job_Status j \<noteq> StatusReady"
  shows "wp (handle W msg) (\<lambda>_. holds (truthful p)) w"
proof -
  have w: "inv w" using assms(1) by (simp add: holds_def)
  have found: "wp (if msg_Action msg = ActionDeprovision then deprovision W msg j else provision W msg j) (\<lambda>_. holds (truthful p)) w1"
    if w1: "holds (truthful p) w1" "jobs w1 = jobs w" "jobs w (msg_JobID msg) = Some j" for j w1
  proof -
    have j: "job_ID j = msg_JobID msg" "job_ok j" using keyed [OF w w1(3)] by simp_all
    have "holds (idle_at (job_ID j)) w1" if "msg_Action msg = ActionDeprovision"
      using w1 assms(2) [OF that] j by (auto simp: holds_def idle_at_def)
    then show ?thesis
      using deprovision_truthful [OF _ j(2) assms(2) [OF _ w1(3)]] provision_truthful [OF w1(1) j(2)] by simp
  qed
  have drop: "wp (queue_Ack (wk_Queue W) msg) (\<lambda>_. holds (truthful p)) w1" if "holds (truthful p) w1" for w1
    by (rule seq_rules(1) [OF _ that])
  show ?thesis
    unfolding handle_def wp_bind
  proof (rule wp_mono [OF wp_conj [THEN iffD2, OF conjI, OF get [OF w] get_cts [OF w]]], goal_cases)
    case (1 r w1)
    then have w1: "holds (truthful p) w1" "jobs w1 = jobs w" using assms(1) by (simp_all add: holds_def)
    show ?case
    proof (cases r)
      case (Inl e)
      with drop [OF w1(1)] show ?thesis by (simp add: wp_bind)
    next
      case (Inr j)
      with 1 found [OF w1, of j] show ?thesis by simp
    qed
  qed
qed

end

section \<open>The plant is such an environment\<close>

lemma plant_cts_kept:
  "keeps plant_inv (\<lambda>w. (a w, pl_docker w, pl_registry w)) G m \<Longrightarrow> plant_ok w \<Longrightarrow> wp m (\<lambda>_ w'. plant_cts w' = plant_cts w) w"
  by (rule wp_keeps_view [where J = plant_ok and I = plant_inv and h = "\<lambda>(_, d, _). ds_view d"], assumption)
     (simp_all add: plant_ok_inv)

interpretation pv: serving_env plant_worker plant_jobs plant_ok plant_shell plant_cts
proof (intro serving_env.intro pw.worker_env_axioms pd.docker_host_axioms serving_env_axioms.intro,
    unfold plant_worker_def the_XDS_def worker.select_convs option.case, goal_cases)
  case (2 w j)
  then show ?case by (rule plant_cts_kept [OF plant_store_keeps(1)])
next
  case (3 w i)
  then show ?case by (rule plant_cts_kept [OF plant_store_keeps(2)])
next
  case (4 w m)
  then show ?case by (rule plant_cts_kept [OF plant_queue_keeps(4)])
next
  case (5 w m d n)
  then show ?case by (rule plant_cts_kept [OF plant_queue_keeps(5)])
next
  case (6 w s h q)
  show ?case by (simp add: plant_xds_def wp_any)
next
  case (7 w s h q)
  show ?case by (simp add: plant_xds_def wp_any)
next
  case (8 w)
  then show ?case by (rule plant_cts_kept [OF plant_sys_keeps(1)])
qed simp

end
