(* ===== verification/Lifecycle.thy ===== *)
theory Lifecycle
  imports Processes Plant
begin

text \<open>
  The broker and the worker together on one store and one queue: runs in which requests, rounds of the
  worker's main loop and ticks of its reclaim loop follow each other in any order, one at a time. The locale
  \<open>platform\<close> joins the contracts of the broker's and of the worker's environment; the plant is an instance. The
  last section shows what the serial order hides: a teardown in the middle of a provisioning call.
\<close>

section \<open>Runs of the platform\<close>

text \<open>
  \<open>platform_run S Ws srt jobs w w'\<close>: from \<open>w\<close> the platform with the workers \<open>Ws\<close> can get to \<open>w'\<close>, one request,
  round or tick after the other. A POST draws a random id; it must not be the id of a stored job.
\<close>

inductive platform_run ::
  "'w server \<Rightarrow> 'w worker set \<Rightarrow> sort_if \<Rightarrow> ('w \<Rightarrow> string \<Rightarrow> job option) \<Rightarrow> 'w \<Rightarrow> 'w \<Rightarrow> bool"
  for S Ws srt jobs w where
  start: "platform_run S Ws srt jobs w w"
| request: "platform_run S Ws srt jobs w w1 \<Longrightarrow> request_ok r \<Longrightarrow> run_state (Routes srt S r) w1 = (res, w2) \<Longrightarrow>
    (route (rq_Method r) (rq_Path r) = RProvision \<Longrightarrow> jobs w1 (next_id S w1) = None) \<Longrightarrow>
    platform_run S Ws srt jobs w w2"
| worker: "platform_run S Ws srt jobs w w1 \<Longrightarrow> W \<in> Ws \<Longrightarrow> run_state (both_loops sched g W) w1 = (e, w2) \<Longrightarrow>
    platform_run S Ws srt jobs w w2"

section \<open>What can become of a job\<close>

text \<open>Jobs still to be provisioned, ready jobs, jobs marked for teardown, deleted jobs.\<close>

definition stage :: "status \<Rightarrow> nat" where
  "stage s = (if s = StatusReady then 1 else if s = StatusDeleting then 2 else if s = StatusDeleted then 3 else 0)"

definition follows :: "job \<Rightarrow> job \<Rightarrow> bool" where
  "follows j j' \<longleftrightarrow>
     job_ID j' = job_ID j \<and> job_ServiceName j' = job_ServiceName j \<and> job_Resource j' = job_Resource j \<and>
     job_CreatedAt j' = job_CreatedAt j \<and> stage (job_Status j) \<le> stage (job_Status j') \<and>
     (job_Status j = StatusDeleted \<longrightarrow> j' = j) \<and> (job_Status j' = StatusPending \<longrightarrow> job_Status j = StatusPending)"

definition all_follow :: "(string \<Rightarrow> job option) \<Rightarrow> (string \<Rightarrow> job option) \<Rightarrow> bool" where
  "all_follow m m' \<longleftrightarrow> (\<forall>i j. m i = Some j \<longrightarrow> (\<exists>j'. m' i = Some j' \<and> follows j j'))"

lemma follows_refl [simp]: "follows j j"
  by (simp add: follows_def)

lemma follows_trans:
  assumes jk: "follows j k" and kl: "follows k l"
  shows "follows j l"
proof (cases "job_Status j = StatusDeleted")
  case True
  with jk have "k = j" unfolding follows_def by blast
  with kl show ?thesis by simp
next
  case False
  from jk have 1: "job_ID k = job_ID j" "job_ServiceName k = job_ServiceName j" "job_Resource k = job_Resource j"
    "job_CreatedAt k = job_CreatedAt j" "stage (job_Status j) \<le> stage (job_Status k)"
    "job_Status k = StatusPending \<longrightarrow> job_Status j = StatusPending"
    unfolding follows_def by - (elim conjE, assumption)+
  from kl have 2: "job_ID l = job_ID k" "job_ServiceName l = job_ServiceName k" "job_Resource l = job_Resource k"
    "job_CreatedAt l = job_CreatedAt k" "stage (job_Status k) \<le> stage (job_Status l)"
    "job_Status l = StatusPending \<longrightarrow> job_Status k = StatusPending"
    unfolding follows_def by - (elim conjE, assumption)+
  from False 1(6) 2(6) le_trans [OF 1(5) 2(5)] show ?thesis
    by (simp add: follows_def 1(1-4) 2(1-4))
qed

lemma all_follow_refl [simp]: "all_follow m m"
  by (simp add: all_follow_def)

lemma all_follow_trans: "all_follow a b \<Longrightarrow> all_follow b c \<Longrightarrow> all_follow a c"
  unfolding all_follow_def using follows_trans by metis

lemma all_follow_put: "m i = Some j \<Longrightarrow> follows j j' \<Longrightarrow> all_follow m (m(i \<mapsto> j'))"
  by (auto simp: all_follow_def)

lemma stages [simp]:
  "stage StatusPending = 0" "stage StatusProvisioning = 0" "stage StatusFailed = 0" "stage StatusReady = 1"
  "stage StatusDeleting = 2" "stage StatusDeleted = 3"
  by (simp_all add: stage_def)

lemma stage_le [simp]: "stage s \<le> 3"
  by (simp add: stage_def)

lemma worker_step_follows: "worker_step M dep j j' \<Longrightarrow> follows j j'"
  by (erule worker_step.cases) (auto simp: follows_def begin_attempt_def stage_def)

text \<open>
  Along the diagram of \<open>model.go\<close>: provisioning messages take a job that has not failed, and teardown messages
  a job that is marked, only to where the diagram leads. It says nothing of failed jobs that are tried again.
\<close>

lemma diagram_paths:
  assumes "s = StatusPending \<or> s = StatusProvisioning"
  shows "lifecycle_doc\<^sup>*\<^sup>* s StatusProvisioning" "lifecycle_doc\<^sup>*\<^sup>* s StatusReady" "lifecycle_doc\<^sup>*\<^sup>* s StatusFailed"
proof -
  show p: "lifecycle_doc\<^sup>*\<^sup>* s StatusProvisioning" using assms lifecycle_doc.start by auto
  show "lifecycle_doc\<^sup>*\<^sup>* s StatusReady" by (rule rtranclp.rtrancl_into_rtrancl [OF p lifecycle_doc.done_])
  show "lifecycle_doc\<^sup>*\<^sup>* s StatusFailed" by (rule rtranclp.rtrancl_into_rtrancl [OF p lifecycle_doc.fail])
qed

lemma worker_keeps_the_diagram:
  assumes "worker_step M dep j j'"
    and "job_Status j \<in> (if dep then {StatusDeleting, StatusDeleted}
           else {StatusPending, StatusProvisioning, StatusReady, StatusDeleting, StatusDeleted})"
  shows "lifecycle_doc\<^sup>*\<^sup>* (job_Status j) (job_Status j')"
  using assms by cases (auto simp: begin_attempt_def intro: diagram_paths r_into_rtranclp lifecycle_doc.gone)

lemma mark_deleting_follows:
  "job_Status j \<noteq> StatusDeleted \<Longrightarrow> job_Status j \<noteq> StatusDeleting \<Longrightarrow> follows j (mark_deleting j t)"
  by (auto simp: follows_def mark_deleting_def stage_def)

text \<open>
  The shape of a record: one of the six statuses, a service, the one kind of resource there is; a pending job
  has not been tried and, like a deleted one, leads nowhere.
\<close>

definition shaped :: "job \<Rightarrow> bool" where
  "shaped j \<longleftrightarrow>
     job_Status j \<in> {StatusPending, StatusProvisioning, StatusReady, StatusFailed, StatusDeleting, StatusDeleted} \<and>
     job_ServiceName j \<noteq> [] \<and> job_Resource j = ResourcePostgres \<and>
     (job_Status j = StatusPending \<longrightarrow> job_Attempts j = 0) \<and>
     (job_Status j \<in> {StatusPending, StatusDeleted} \<longrightarrow> job_Connection j = None \<and> job_HTTP j = None)"

definition all_shaped :: "(string \<Rightarrow> job option) \<Rightarrow> bool" where
  "all_shaped m \<longleftrightarrow> (\<forall>i j. m i = Some j \<longrightarrow> shaped j)"

lemma all_shaped_put: "all_shaped m \<Longrightarrow> shaped j \<Longrightarrow> all_shaped (m(i \<mapsto> j))"
  by (simp add: all_shaped_def)

lemma worker_step_shaped: "worker_step M dep j j' \<Longrightarrow> shaped j \<Longrightarrow> shaped j'"
  by (erule worker_step.cases) (auto simp: shaped_def begin_attempt_def)

lemma mark_deleting_shaped: "shaped j \<Longrightarrow> shaped (mark_deleting j t)"
  by (auto simp: shaped_def mark_deleting_def)

lemma submitted_shaped:
  assumes "submitted (new_job i req t) res m v m' v'" "checkRequest b = Inr req" "all_shaped m"
  shows "all_shaped m'"
proof -
  have "shaped (new_job i req t)"
    "shaped ((new_job i req t)\<lparr>job_Status := StatusFailed, job_Detail := d, job_UpdatedAt := u\<rparr>)" for d u
    using checkRequest_ok [OF assms(2)] by (simp_all add: shaped_def new_job_def)
  with assms(1,3) show ?thesis
    by (auto simp: submitted_def accepted_def unsent_def intro: all_shaped_put)
qed

text \<open>A submission touches no record but the one of the new job.\<close>

lemma submitted_frame: "submitted (new_job i req t) res m v m' v' \<Longrightarrow> k \<noteq> i \<Longrightarrow> m' k = m k"
  by (auto simp: submitted_def accepted_def unsent_def new_job_def)

lemma submitted_follows: "submitted (new_job i req t) res m v m' v' \<Longrightarrow> m i = None \<Longrightarrow> all_follow m m'"
  unfolding all_follow_def by (metis submitted_frame follows_refl option.distinct(1))

text \<open>How the store may change: every job follows what it was, and no record loses its shape.\<close>

definition evolves :: "(string \<Rightarrow> job option) \<Rightarrow> (string \<Rightarrow> job option) \<Rightarrow> bool" where
  "evolves m m' \<longleftrightarrow> all_follow m m' \<and> (all_shaped m \<longrightarrow> all_shaped m')"

lemma evolves_refl [simp]: "evolves m m"
  by (simp add: evolves_def)

lemma evolves_trans: "evolves a b \<Longrightarrow> evolves b c \<Longrightarrow> evolves a c"
  by (auto simp: evolves_def intro: all_follow_trans)

lemma evolves_put:
  "m i = Some j \<Longrightarrow> follows j j' \<Longrightarrow> (shaped j \<Longrightarrow> shaped j') \<Longrightarrow> evolves m (m(i \<mapsto> j'))"
  using all_follow_put [of m i j j'] by (auto simp: evolves_def all_shaped_def)

context broker_env
begin

lemma torn_down_follows:
  assumes "m i = Some j" "job_ID j = i" "torn_down j res m v m' v'"
  shows "evolves m m'"
proof -
  have mark: "evolves m (m(job_ID (mark_deleting j t) \<mapsto> mark_deleting j t))"
    if "job_Status j \<noteq> StatusDeleted" "job_Status j \<noteq> StatusDeleting" for t
    using evolves_put [where m = m, OF assms(1) mark_deleting_follows [OF that] mark_deleting_shaped] assms(2)
    by (simp add: mark_deleting_def)
  from assms(3) mark show ?thesis by (auto simp: torn_down_def teardown_sent_def split: if_splits)
qed

lemma handleDeprovision_follows:
  assumes "inv w"
  shows "wp (handleDeprovision S i) (\<lambda>_ w'. inv w' \<and> evolves (jobs w) (jobs w')) w"
  by (rule wp_mono [OF handleDeprovision_contract [OF assms]])
     (use keyed [OF assms] in \<open>auto intro: torn_down_follows\<close>)

lemma Routes_follow:
  assumes "inv w" "request_ok r"
  shows "wp (Routes srt S r) (\<lambda>_ w'. inv w' \<and> (all_shaped (jobs w) \<longrightarrow> all_shaped (jobs w')) \<and>
    ((route (rq_Method r) (rq_Path r) = RProvision \<longrightarrow> jobs w (next_id S w) = None) \<longrightarrow> evolves (jobs w) (jobs w'))) w"
proof (cases "route (rq_Method r) (rq_Path r)")
  case RProvision
  show ?thesis unfolding Routes_def RProvision route.case
    by (rule wp_mono [OF handleProvision_contract [OF assms]])
       (auto split: sum.splits intro: submitted_shaped submitted_follows simp: evolves_def)
next
  case (RDeprovision i)
  show ?thesis unfolding Routes_def RDeprovision route.case
    by (rule wp_mono [OF handleDeprovision_follows [OF assms(1)]]) (simp add: evolves_def)
next
  case (RStatus i)
  show ?thesis unfolding Routes_def RStatus route.case
    by (rule wp_mono [OF handleStatus_contract [OF assms(1)]]) simp
next
  case RList
  show ?thesis unfolding Routes_def RList route.case handleList_def wp_bind wp_return
    by (rule wp_mono [OF list_all_jobs [OF assms(1)]]) simp
next
  case RListDead
  show ?thesis unfolding Routes_def RListDead route.case
    by (rule wp_mono [OF handleListDead_contract [OF assms(1)]]) simp
qed (simp_all add: Routes_def handleHealth_def assms)

end

section \<open>The platform\<close>

locale platform = broker_env S jobs qview inv + wk: worker_env W jobs inv
  for S :: "'w server" and jobs :: "'w \<Rightarrow> string \<Rightarrow> job option" and qview :: "'w \<Rightarrow> queue_view"
    and inv :: "'w \<Rightarrow> bool" and W :: "'w worker" +
  assumes dequeue_jobs: "keeps inv jobs any_result (queue_Dequeue (wk_Queue W) c b)"
    and reclaim_jobs: "keeps inv jobs any_result (queue_Reclaim (wk_Queue W) c d n)"
    and ctx_jobs: "keeps inv jobs any_result (sys_ctx_err (wk_Sys W))"
    and sleep_jobs: "keeps inv jobs any_result (sys_sleep (wk_Sys W) d)"
begin

text \<open>\<open>steady m\<close>: running \<open>m\<close> keeps the invariant and lets every job follow what it was.\<close>

definition steady :: "('w, 'a) state \<Rightarrow> bool" where
  "steady m \<longleftrightarrow> (\<forall>w. inv w \<longrightarrow> wp m (\<lambda>_ w'. inv w' \<and> evolves (jobs w) (jobs w')) w)"

lemma steadyD: "steady m \<Longrightarrow> inv w \<Longrightarrow> wp m (\<lambda>_ w'. inv w' \<and> evolves (jobs w) (jobs w')) w"
  by (simp add: steady_def)

lemma steady_keeps: "keeps inv jobs G m \<Longrightarrow> steady m"
  unfolding steady_def by (auto dest!: keepsD elim!: wp_mono)

lemma steady_return: "steady (State_Monad.return a)"
  by (simp add: steady_def)

lemma steady_bind:
  assumes "steady m" "\<And>a. steady (f a)"
  shows "steady (State_Monad.bind m f)"
  unfolding steady_def wp_bind
proof (intro allI impI)
  fix w assume w: "inv w"
  have "wp (f a) (\<lambda>_ w'. inv w' \<and> evolves (jobs w) (jobs w')) w1" if "inv w1 \<and> evolves (jobs w) (jobs w1)" for a w1
    by (rule wp_mono [OF steadyD [OF assms(2)]]) (use that in \<open>auto intro: evolves_trans\<close>)
  then show "wp m (\<lambda>a. wp (f a) (\<lambda>_ w'. inv w' \<and> evolves (jobs w) (jobs w'))) w"
    by (intro wp_mono [OF steadyD [OF assms(1) w]])
qed

lemma steady_handle: "steady (handle W msg)"
  unfolding steady_def
proof (intro allI impI, rule wp_mono [OF wk.handle_step], assumption, elim conjE disjE exE)
  fix w w' :: 'w and j j'
  assume w: "inv w'" "jobs w (msg_JobID msg) = Some j" "jobs w' = (jobs w)(msg_JobID msg \<mapsto> j')"
    "worker_step (wk_MaxAttempts W) (msg_Action msg = ActionDeprovision) j j'"
  show "inv w' \<and> evolves (jobs w) (jobs w')"
    unfolding w(3) using w(1) evolves_put [where m = "jobs w", OF w(2) worker_step_follows [OF w(4)] worker_step_shaped [OF w(4)]] by blast
qed simp

lemmas steady_calls = steady_keeps [OF dequeue_jobs] steady_keeps [OF reclaim_jobs] steady_keeps [OF ctx_jobs]
  steady_keeps [OF sleep_jobs] steady_handle steady_return steady_bind

lemma steady_run_iter: "steady (run_iter W)"
  unfolding run_iter_def
  by (intro steady_bind steady_calls) (auto intro!: steady_calls split: sum.split option.split)

lemma steady_reclaim_msgs: "steady (reclaim_msgs W ms)"
  by (induction ms) (auto intro!: steady_calls split: go.split)

lemma steady_reclaim_tick: "steady (reclaim_tick W)"
  unfolding reclaim_tick_def
  by (intro steady_bind steady_calls) (auto intro!: steady_calls steady_reclaim_msgs split: sum.split)

lemma steady_both_loops: "steady (both_loops sched g W)"
proof (induction sched arbitrary: g)
  case (Cons b sched)
  show ?case
    by (cases b; cases g)
       (auto intro!: Cons.IH steady_bind steady_return steady_run_iter steady_reclaim_tick split: option.split loop_end.split)
qed (simp add: steady_return)

end

lemma platform_run_follows:
  assumes "platform_run S Ws srt jobs w w'" "broker_env S jobs qview I" "\<And>W. W \<in> Ws \<Longrightarrow> platform S jobs qview I W" "I w"
  shows "I w' \<and> evolves (jobs w) (jobs w')"
  using assms(1)
proof (induction rule: platform_run.induct)
  case start
  show ?case by (simp add: assms(4))
next
  case (request w1 r res w2)
  then have w1: "I w1" "evolves (jobs w) (jobs w1)" by simp_all
  note out = wp_runD [OF broker_env.Routes_follow [OF assms(2) w1(1) request.hyps(2)] request.hyps(3)]
  have "evolves (jobs w1) (jobs w2)" using out request.hyps(4) by blast
  with w1 out show ?case by (auto intro: evolves_trans)
next
  case (worker w1 W sched g e w2)
  note W = assms(3) [OF worker.hyps(2)]
  have "I w2 \<and> evolves (jobs w1) (jobs w2)"
    using wp_runD [OF platform.steadyD [OF W platform.steady_both_loops [OF W]] worker.hyps(3)] worker.IH by simp
  with worker.IH show ?case by (auto intro: evolves_trans)
qed

section \<open>The platform on the plant\<close>

lemma plant_queue_jobs:
  "keeps plant_ok plant_jobs any_result (queue_Dequeue plant_queue c b)"
  "keeps plant_ok plant_jobs any_result (queue_Reclaim plant_queue c d n)"
  by (rule plant_queue_ok [OF plant_queue_keeps(2)], rule wp_mono [OF pq.jq.dequeue [folded plant_queue_def]], auto)
     (rule plant_queue_ok [OF plant_queue_keeps(3)], rule wp_mono [OF pq.jq.reclaim [folded plant_queue_def]], auto)

interpretation pp: platform plant_server plant_jobs plant_qview plant_ok plant_worker
proof (intro platform.intro platform_axioms.intro pb.broker_env_axioms pw.worker_env_axioms,
    unfold plant_worker_def worker.select_convs, goal_cases)
  case (1 c b)
  show ?case by (rule plant_queue_jobs)
next
  case (2 c d n)
  show ?case by (rule plant_queue_jobs)
next
  case 3
  show ?case
    by (rule keeps_image [OF keeps_weaken [OF plant_sys_ok(3)], where h = "\<lambda>((r, _), _). stored text_codec r"]) simp_all
next
  case (4 d)
  show ?case by (rule keeps_image [OF plant_sys_ok(4), where h = "\<lambda>((r, _), _). stored text_codec r"]) simp
qed

lemma plant_next_id: "plant_ok w \<Longrightarrow> length (next_id plant_server w) = 16"
  using wp_runD [OF pb.handleProvision_contract [OF _ shop_request_ok, of w] surjective_pairing] by simp

text \<open>C1. The life of a job, with handlers one at a time. Let the broker and any number of workers share a store and a
  queue that keep their contracts, and let requests, rounds of the workers' main loops and ticks of their reclaim
  loops follow each other in any order, each ended before the next begins, whatever calls fail; let every POST draw
  an id that is not in the store yet. Then every job on record stays on record under its id, with its service name, its
  kind of resource and its time of creation. It never goes back: a ready job is afterwards ready, deleting
  or deleted, a deleting job is deleting or deleted, a deleted job stays exactly as it is, and no job is
  ever pending again. (Handlers that overlap can break this: \<open>late_success_revives_a_deleted_job\<close> below.)
\<close>

theorem job_lifecycle:
  assumes "broker_env S jobs qview I" "\<And>W. W \<in> Ws \<Longrightarrow> platform S jobs qview I W" "I w"
    and "platform_run S Ws srt jobs w w'" "jobs w i = Some j"
  shows "\<exists>j'. jobs w' i = Some j' \<and> job_ID j' = i \<and> job_ServiceName j' = job_ServiceName j \<and>
    job_Resource j' = job_Resource j \<and> job_CreatedAt j' = job_CreatedAt j \<and>
    (job_Status j = StatusReady \<longrightarrow> job_Status j' \<in> {StatusReady, StatusDeleting, StatusDeleted}) \<and>
    (job_Status j = StatusDeleting \<longrightarrow> job_Status j' \<in> {StatusDeleting, StatusDeleted}) \<and>
    (job_Status j = StatusDeleted \<longrightarrow> j' = j) \<and>
    (job_Status j \<noteq> StatusPending \<longrightarrow> job_Status j' \<noteq> StatusPending)"
proof -
  have out: "I w'" "all_follow (jobs w) (jobs w')"
    using platform_run_follows [OF assms(4,1,2,3)] by (simp_all add: evolves_def)
  from out(2) assms(5) obtain j' where j': "jobs w' i = Some j'" "follows j j'" unfolding all_follow_def by blast
  have "job_ID j' = i"
    using job_store.keyed [OF broker_env.axioms(1) [OF assms(1)] out(1) j'(1)] by simp
  with j' show ?thesis
    by (intro exI [of _ j']) (auto simp: follows_def stage_def split: if_splits)
qed

theorem job_lifecycle_witness:
  "\<exists>res w1 e w2. run_state (Routes sort_by plant_server shop_request) (plant_store_job (bench_job StatusReady) (plant_new False [] [])) = (res, w1) \<and>
     run_state (both_loops [True, False, True] Ticking plant_worker) w1 = (e, w2) \<and>
     (\<exists>j'. plant_jobs w2 ''j1'' = Some j' \<and> job_Status j' \<in> {StatusReady, StatusDeleting, StatusDeleted})"
proof -
  let ?j = "bench_job StatusReady" and ?w = "plant_store_job (bench_job StatusReady) (plant_new False [] [])"
  obtain res w1 where post: "run_state (Routes sort_by plant_server shop_request) ?w = (res, w1)" by (metis surj_pair)
  obtain e w2 where work: "run_state (both_loops [True, False, True] Ticking plant_worker) w1 = (e, w2)" by (metis surj_pair)
  have ok: "job_ok ?j" by (simp add: bench_job_ok StatusReady_def utf8_valid_ascii is_ascii_def)
  have "length (job_ID ?j) \<noteq> length (next_id plant_server ?w)"
    unfolding plant_next_id [OF plant_store_job(1) [OF ok]] by (simp add: bench_job_def)
  then have "next_id plant_server ?w \<noteq> job_ID ?j" by metis
  then have "plant_jobs ?w (next_id plant_server ?w) = None"
    using plant_store_job(3) [OF ok] by (simp add: plant_new_def stored_def)
  then have "platform_run plant_server {plant_worker} sort_by plant_jobs ?w w1"
    by (intro platform_run.request [OF platform_run.start shop_request_ok post])
  then have "platform_run plant_server {plant_worker} sort_by plant_jobs ?w w2"
    by (rule platform_run.worker [OF _ _ work]) simp
  from job_lifecycle [where Ws = "{plant_worker}", OF pb.broker_env_axioms _ plant_store_job(1) [OF ok] this plant_store_job(2) [OF ok]]
    post work pp.platform_axioms
  show ?thesis by (auto simp: bench_job_def)
qed

text \<open>C23. Records stay well typed. Along the same runs, jobs made by new requests included, every record is filed
  under its own id and can be stored (its texts are UTF-8, its numbers 64-bit integers, its times within the
  years that JSON takes), has one of the six statuses, a service and the resource postgres; a pending job has no
  attempt on its count, and neither a pending nor a deleted job shows a connection or an endpoint.
\<close>

theorem records_stay_typed:
  assumes "broker_env S jobs qview I" "\<And>W. W \<in> Ws \<Longrightarrow> platform S jobs qview I W" "I w"
    and "platform_run S Ws srt jobs w w'" "all_shaped (jobs w)" "jobs w' i = Some j"
  shows "job_ID j = i \<and> job_ok j \<and> job_ServiceName j \<noteq> [] \<and> job_Resource j = ResourcePostgres \<and>
    job_Status j \<in> {StatusPending, StatusProvisioning, StatusReady, StatusFailed, StatusDeleting, StatusDeleted} \<and>
    (job_Status j = StatusPending \<longrightarrow> job_Attempts j = 0) \<and>
    (job_Status j \<in> {StatusPending, StatusDeleted} \<longrightarrow> job_Connection j = None \<and> job_HTTP j = None)"
proof -
  have out: "I w'" "all_shaped (jobs w')"
    using platform_run_follows [OF assms(4,1,2,3)] assms(5) by (simp_all add: evolves_def)
  from out(2) assms(6) have "shaped j" by (simp add: all_shaped_def)
  with job_store.keyed [OF broker_env.axioms(1) [OF assms(1)] out(1) assms(6)] show ?thesis
    by (auto simp: shaped_def)
qed

theorem records_stay_typed_witness:
  "\<exists>res w1 e w2. run_state (Routes sort_by plant_server shop_request) (plant_new False [] [ReplyLost]) = (res, w1) \<and>
     run_state (both_loops [True, False] Ticking plant_worker) w1 = (e, w2) \<and>
     (\<forall>i j. plant_jobs w2 i = Some j \<longrightarrow> job_ID j = i \<and> job_ok j)"
proof -
  let ?w = "plant_new False [] [ReplyLost]"
  obtain res w1 where post: "run_state (Routes sort_by plant_server shop_request) ?w = (res, w1)" by (metis surj_pair)
  obtain e w2 where work: "run_state (both_loops [True, False] Ticking plant_worker) w1 = (e, w2)" by (metis surj_pair)
  have none: "plant_jobs ?w = Map.empty" by (simp add: fun_eq_iff stored_def plant_new_def)
  have "platform_run plant_server {plant_worker} sort_by plant_jobs ?w w1"
    by (rule platform_run.request [OF platform_run.start shop_request_ok post]) (simp add: none)
  then have "platform_run plant_server {plant_worker} sort_by plant_jobs ?w w2"
    by (rule platform_run.worker [OF _ _ work]) simp
  from records_stay_typed [OF pb.broker_env_axioms _ plant_new_ok this] none pp.platform_axioms
  have "\<forall>i j. plant_jobs w2 i = Some j \<longrightarrow> job_ID j = i \<and> job_ok j" by (auto simp: all_shaped_def)
  with post work show ?thesis by blast
qed

section \<open>A teardown during the provisioning call\<close>

text \<open>
  The runs above let one message be handled at a time. Two workers, or the two loops of one worker, can be in
  the middle of different messages of the same job: here a DELETE and its teardown message are dealt with while
  the provisioner works on the job.
\<close>

definition bench_server :: "memStore server" where
  "bench_server = \<lparr>sv_store = mem_store id, sv_queue = bench_queue, sv_sys = bench_sys\<rparr>"

definition delete_and_tear_down :: "(memStore, response) state" where
  "delete_and_tear_down =
     do {
       res \<leftarrow> handleDeprovision bench_server ''j1'';
       _ \<leftarrow> handle (bench (Ret (None, None)) None) (bench_msg ActionDeprovision);
       State_Monad.return res
     }"

definition overtaken :: "memStore worker" where
  "overtaken =
     (bench (Ret (None, None)) None)
       \<lparr>wk_Provision :=
          \<lparr>prov_Provision = (\<lambda>_. do { _ \<leftarrow> delete_and_tear_down; State_Monad.return (Ret (Some bench_result, None)) }),
           prov_Deprovision = (\<lambda>_. State_Monad.return None)\<rparr>\<rparr>"

definition status_of :: "memStore \<Rightarrow> status option" where
  "status_of s = map_option job_Status (mem_view s ''j1'')"

text \<open>A lost teardown. While the provisioner works on a job, a DELETE marks it, and the worker that gets the
  teardown message removes its resource and records it as deleted. The first worker then stores the record it
  has held in its hands all along, with the status ready and the endpoint: the deleted job is on record as ready
  again, and the teardown message is gone.
\<close>

lemma late_success_revives_a_deleted_job:
  "(case run_state delete_and_tear_down (bench_world ((bench_job StatusProvisioning)\<lparr>job_Attempts := 1\<rparr>)) of
      (res, s1) \<Rightarrow> rs_Code res = 202 \<and> status_of s1 = Some StatusDeleted) \<and>
   (case run_state (handle overtaken (bench_msg ActionProvision)) (bench_world (bench_job StatusPending)) of
      (r, s2) \<Rightarrow> r = Ret () \<and> status_of s2 = Some StatusReady)"
  by code_simp

end
