(* ===== verification/Provisioner_Guarantees.thy ===== *)
theory Provisioner_Guarantees
  imports Plant
begin

text \<open>
  The guarantees of the docker provisioner (\<open>internal/provisioner\<close>) for every docker daemon that
  behaves as documented, with commands that may fail at any point: what \<open>Provision\<close> and \<open>Deprovision\<close>
  do to the containers, that the waits end, how errors are classified and names are made safe.
\<close>

section \<open>Provision and Deprovision\<close>

text \<open>C13. On a host where nobody else adds, starts or removes containers meanwhile, and where any command may fail,
  \<open>Provision\<close> returns either an error and no result, or a result and no error; with a result both containers of
  the job run and the result is what they show. It panics at most where an answer is not clear: \<open>docker inspect\<close> says
  \<open>no such\<close> of a container that is there, or the request of the probe cannot be built. However it ends, only
  containers with the two names of the job are created, with the label of the job, or started; all others stay.\<close>

theorem provision_serves_or_fails:
  assumes "docker_host p cts I" "I w" "run_state (Shell_Provision p j) w = (x, w')"
  shows "I w' \<and> grown j (cts w) (cts w') \<and>
    (case x of Panic \<Rightarrow> \<not> clear_answers p cts I
     | Ret (r, e) \<Rightarrow> (r = None \<and> e \<noteq> None) \<or> (e = None \<and> (\<exists>a. r = Some a \<and> serves p (cts w') j a)))"
  by (rule wp_runD [OF docker_host.Shell_Provision_ok [OF assms(1,2)] assms(3)])

theorem provision_serves_or_fails_witness:
  "\<exists>x w'. run_state (Shell_Provision plant_shell (bench_job StatusProvisioning)) (plant_new False [] [Fine, ReplyLost]) = (x, w') \<and>
     clear_answers plant_shell plant_cts plant_ok \<and> plant_ok w' \<and> x \<noteq> Panic"
proof -
  obtain x w' where run: "run_state (Shell_Provision plant_shell (bench_job StatusProvisioning))
      (plant_new False [] [Fine, ReplyLost]) = (x, w')" by (metis surj_pair)
  from provision_serves_or_fails [OF pd.docker_host_axioms plant_new_ok run] plant_clear run show ?thesis by auto
qed

text \<open>C25. \<open>Provision\<close> is idempotent: on a host with clear answers, where the job is served already, calling it again changes no container
  and returns the same result, or an error; so a message that is delivered twice does no harm.\<close>

theorem provision_again_changes_nothing:
  assumes "docker_host p cts I" "I w" "clear_answers p cts I" "serves p (cts w) j r"
    and "run_state (Shell_Provision p j) w = (x, w')"
  shows "cts w' = cts w \<and> ((\<exists>e. x = Ret (None, Some e)) \<or> x = Ret (Some r, None))"
  using wp_runD [OF docker_host.Shell_Provision_again [OF assms(1-4)] assms(5)] by blast

definition served_pg :: container where
  "served_pg = \<lparr>ct_id = ct_name 0, ct_job = ''j1'',
     ct_info = \<lparr>in_Running = True, in_Env = [''POSTGRES_USER=u'', ''POSTGRES_PASSWORD=p'', ''POSTGRES_DB=d''],
                in_Ports = [(''5432/tcp'', [\<lparr>HostIp = ''0.0.0.0'', HostPort = ''81''\<rparr>])]\<rparr>\<rparr>"

definition served_http :: container where
  "served_http = \<lparr>ct_id = ct_name 1, ct_job = ''j1'',
     ct_info = \<lparr>in_Running = True, in_Env = [],
                in_Ports = [(''8080/tcp'', [\<lparr>HostIp = ''127.0.0.1'', HostPort = ''82''\<rparr>])]\<rparr>\<rparr>"

definition plant_served :: plant where
  "plant_served = (plant_new False [] [])\<lparr>pl_docker :=
     \<lparr>ds_cts = [(postgresName (bench_job StatusReady), served_pg), (httpName (bench_job StatusReady), served_http)],
      ds_next = 2, ds_images = [], ds_faults = []\<rparr>\<rparr>"

lemma plant_served_cts:
  "plant_cts plant_served = [postgresName (bench_job StatusReady) \<mapsto> served_pg, httpName (bench_job StatusReady) \<mapsto> served_http]"
  by (auto simp: plant_served_def ds_view_def gm_get_def names_inject fun_eq_iff)

lemma plant_served_ok: "plant_ok plant_served"
proof -
  have info: "info_ok (ct_info served_pg)" "info_ok (ct_info served_http)"
    by (simp_all add: served_pg_def served_http_def info_ok_def binding_ok_def utf8_valid_ascii is_ascii_def)
  have "ids_unique (plant_cts plant_served)"
    by (simp add: ids_unique_def plant_served_cts served_pg_def served_http_def)
  moreover have "info_ok (ct_info ct) \<and> (\<exists>k < 2. ct_id ct = ct_name k)" if "plant_cts plant_served n = Some ct" for n ct
    using that info by (auto simp: plant_served_cts served_pg_def served_http_def split: if_splits)
  ultimately have "ds_inv (pl_docker plant_served)"
    by (simp add: ds_inv_def plant_served_def gm_wf_def names_inject)
  then show ?thesis using plant_new_ok [of False "[]" "[]"]
    by (simp add: plant_ok_def plant_inv_def plant_served_def)
qed

definition served_result :: result where
  "served_result = \<lparr>res_Connection = Some \<lparr>conn_Host = ''127.0.0.1'', conn_Port = 81, conn_Username = ''u'',
     conn_Password = ''p'', conn_Database = ''d''\<rparr>, res_HTTP = Some \<lparr>http_Host = ''127.0.0.1'', http_Port = 82\<rparr>\<rparr>"

lemma plant_serves: "serves plant_shell (plant_cts plant_served) (bench_job StatusReady) served_result"
proof -
  have "connectionFromInspect plant_shell (Some (ct_info served_pg)) =
      Ret (Inr \<lparr>conn_Host = ''127.0.0.1'', conn_Port = 81, conn_Username = ''u'', conn_Password = ''p'', conn_Database = ''d''\<rparr>)"
    "endpoint_of plant_shell (Some (ct_info served_http)) = Ret (Inr \<lparr>http_Host = ''127.0.0.1'', http_Port = 82\<rparr>)"
    by code_simp+
  then show ?thesis
    by (simp add: serves_def plant_served_cts names_inject served_result_def) (simp add: served_pg_def served_http_def)
qed

theorem provision_again_changes_nothing_witness:
  "\<exists>x w'. run_state (Shell_Provision plant_shell (bench_job StatusReady)) plant_served = (x, w') \<and>
     plant_cts w' = plant_cts plant_served"
proof -
  obtain x w' where run: "run_state (Shell_Provision plant_shell (bench_job StatusReady)) plant_served = (x, w')"
    by (metis surj_pair)
  from provision_again_changes_nothing [OF pd.docker_host_axioms plant_served_ok plant_clear plant_serves run] run show ?thesis by blast
qed

text \<open>C14. \<open>Deprovision\<close> removes containers of the job and no others, whatever fails, and all of them when it
  reports no error.\<close>

theorem deprovision_removes_exactly:
  assumes "docker_host p cts I" "I w" "run_state (Shell_Deprovision p j) w = (e, w')"
  shows "(\<forall>n. cts w' n = cts w n \<or> cts w' n = None \<and> (\<exists>ct. cts w n = Some ct \<and> ct_job ct = job_ID j)) \<and>
    (e = None \<longrightarrow> (\<forall>n. cts w' n = (case cts w n of None \<Rightarrow> None
       | Some ct \<Rightarrow> if ct_job ct = job_ID j then None else Some ct)))"
  using wp_runD [OF docker_host.Shell_Deprovision_ok [OF assms(1,2)] assms(3)] by blast

lemma deprovision_without_faults:
  "run_state (Shell_Deprovision plant_shell j) w = (e, w') \<Longrightarrow> ds_faults (pl_docker w) = [] \<Longrightarrow> e = None"
  by (auto simp: Shell_Deprovision_def plant_shell_simps on_docker_def on_part_def docker_sim_if_def docker_cmd_def
      sim_output_def sim_ps_def sim_combined_def sim_rm_def job_filter_def fine_out_def Let_def split: if_splits)

theorem deprovision_removes_exactly_witness:
  "\<exists>w'. run_state (Shell_Deprovision plant_shell (bench_job StatusReady)) plant_served = (None, w') \<and>
     plant_cts plant_served (postgresName (bench_job StatusReady)) = Some served_pg \<and> plant_cts w' = Map.empty"
proof -
  obtain e w' where run: "run_state (Shell_Deprovision plant_shell (bench_job StatusReady)) plant_served = (e, w')"
    by (metis surj_pair)
  have e: "e = None" by (rule deprovision_without_faults [OF run]) (simp add: plant_served_def)
  have "plant_cts w' n = None" for n
  proof -
    have "plant_cts w' n = (case plant_cts plant_served n of None \<Rightarrow> None
        | Some ct \<Rightarrow> if ct_job ct = job_ID (bench_job StatusReady) then None else Some ct)"
      using deprovision_removes_exactly [OF pd.docker_host_axioms plant_served_ok run] e by blast
    then show ?thesis by (auto simp: plant_served_cts served_pg_def served_http_def bench_job_def split: if_splits)
  qed
  then have "plant_cts w' = Map.empty" by (simp add: fun_eq_iff)
  moreover have "plant_cts plant_served (postgresName (bench_job StatusReady)) = Some served_pg"
    by (simp add: plant_served_cts names_inject)
  ultimately show ?thesis using run e by blast
qed

section \<open>The waits\<close>

text \<open>C26. Waiting ends: with a clock that does not run backwards, sleeps that take their time unless the
  context ends, and a context that reports its end, the wait for Postgres (30 s, every 500 ms) has ended
  after 62 rounds and the wait for the HTTP service (15 s, every 200 ms) after 77.\<close>

theorem waits_end:
  assumes "ticking (sh_sys p) clock cancelled I" "I w"
    and "ticking.patient clock I (dk_Run (sh_docker p) (pg_ready_args name user db))"
    and "\<And>url. ticking.patient clock I (hc_Get (sh_docker p) url)"
    and "run_state (waitForPostgres 62 p name user db (30 * second)) w = (r, w1)"
    and "run_state (waitForHTTP 77 p host port path (15 * second)) w = (r', w2)"
  shows "r \<noteq> None \<and> r' \<noteq> None"
proof -
  have "wp (waitForPostgres 62 p name user db (30 * second)) (\<lambda>r w'. I w' \<and> r \<noteq> None) w"
    by (rule ticking.waitForPostgres_ends [OF assms(1) refl assms(3,2)]) simp
  moreover have "wp (waitForHTTP 77 p host port path (15 * second)) (\<lambda>r w'. I w' \<and> r \<noteq> None) w"
    by (rule ticking.waitForHTTP_ends [OF assms(1) refl assms(4,2)]) simp
  ultimately show ?thesis using assms(5,6) by (auto dest: wp_runD)
qed

lemma plant_patient:
  "pt.patient (dk_Run (sh_docker plant_shell) args)" "pt.patient (hc_Get (sh_docker plant_shell) url)"
  unfolding pt.patient_def plant_shell_simps
  by (intro allI impI, rule wp_mono [OF keepsD [OF keeps_on_docker_ok [OF sim_exec_law]]], assumption, simp)
     (intro allI impI, rule wp_mono [OF keepsD [OF keeps_on_docker_ok [OF sim_get_law]]], assumption, simp)

theorem waits_end_witness:
  "\<exists>r w1. run_state (waitForPostgres 62 plant_shell ''pg'' ''u'' ''d'' (30 * second)) (plant_new False [] [Refuse, Refuse]) = (Some r, w1)"
proof -
  let ?w = "plant_new False [] [Refuse, Refuse]"
  obtain r w1 r' w2 where run:
    "run_state (waitForPostgres 62 plant_shell ''pg'' ''u'' ''d'' (30 * second)) ?w = (r, w1)"
    "run_state (waitForHTTP 77 plant_shell ''127.0.0.1'' 80 ''/healthz'' (15 * second)) ?w = (r', w2)" by (metis surj_pair)
  have tick: "ticking (sh_sys plant_shell) (\<lambda>w. srv_clock (pl_redis w)) (\<lambda>w. srv_clock (pl_redis w) \<ge> last_time) plant_ok"
    using pt.ticking_axioms by (simp add: plant_shell_def NewShell_def)
  from waits_end [OF tick plant_new_ok plant_patient run] have "r \<noteq> None" by blast
  with run(1) show ?thesis by auto
qed

section \<open>Errors and names\<close>

text \<open>Classification: no error stays no error; an error whose lower-case text has one of the transient
  patterns becomes transient, with the text kept after a prefix; any other error is handed on as it is.
  So the worker retries exactly the errors with such a text and those that were transient before.\<close>

lemma classify_by_pattern:
  "Classify uni None = None \<and>
   (\<exists>e'. Classify uni (Some e) = Some e' \<and> (errors_is e' ErrTransient \<longleftrightarrow>
      (\<exists>p \<in> set transientPatterns. contains (to_lower uni (err_msg e)) p) \<or> errors_is e ErrTransient) \<and>
      (e' = e \<or> err_msg e' = ''transient error: '' @ err_msg e))"
  by (simp add: Classify_Some looks_transient_def)

lemma to_lower_ident: "list_all is_ident s \<Longrightarrow> to_lower uni s = s"
proof -
  assume s: "list_all is_ident s"
  have one: "(of_char c :: nat) < 128 \<and> ascii_lower c = c" if "is_ident c" for c
    using that by (auto simp: is_ident_def is_digit_def ascii_lower_def)
  with s have "is_ascii s" by (auto simp: is_ascii_def list_all_iff)
  with s one show ?thesis by (auto simp: to_lower_ascii list_all_iff intro: map_idI)
qed

text \<open>C38. Database identifiers are safe: whatever the service name, the sanitized name is not empty, has at
  most 32 characters and only lower-case letters, digits and underscores; a name of that kind is only
  cut to 32 characters; and names of containers identify the job and the kind.\<close>

theorem names_are_safe:
  "sanitize uni s \<noteq> [] \<and> length (sanitize uni s) \<le> 32 \<and> list_all is_ident (sanitize uni s) \<and>
   (s \<noteq> [] \<and> list_all is_ident s \<longrightarrow> sanitize uni s = take 32 s) \<and>
   (postgresName j = postgresName k \<longleftrightarrow> job_ID j = job_ID k) \<and> (httpName j = httpName k \<longleftrightarrow> job_ID j = job_ID k) \<and>
   postgresName j \<noteq> httpName k"
proof -
  have "sanitize uni s = take 32 s" if s: "s \<noteq> []" "list_all is_ident s"
  proof -
    have "to_lower uni s = s" by (rule to_lower_ident [OF s(2)])
    with s show ?thesis by (simp add: sanitize_def Let_def sanitize_loop_ident)
  qed
  with sanitize_spec [of uni s] show ?thesis by (simp add: names_inject)
qed

theorem names_are_safe_witness: "sanitize id ''my_app2'' = ''my_app2''"
  using names_are_safe [of id "''my_app2''" "bench_job StatusReady" "bench_job StatusReady"]
  by (simp add: is_ident_def is_digit_def)

end
