(* ===== verification/Served_Runs.thy ===== *)
theory Served_Runs
  imports Served Lifecycle Provisioner_Guarantees
begin

text \<open>
  Ready means served, along whole runs of the platform: requests, rounds of the workers and reclaim ticks in any
  order, one at a time. A teardown message never meets a ready job, because DELETE marks the job before it sends the
  message and no job becomes ready again. The locale \<open>serving_platform\<close> joins the platform with the docker host; the
  plant is an instance.
\<close>

section \<open>Messages and records agree\<close>

text \<open>
  \<open>told m msg\<close>: the job of a teardown message is on record as being deleted or as deleted. \<open>sound p m c X\<close>: ready
  jobs are served, containers carry the label of their job, and all the messages of \<open>X\<close> are told.
\<close>

definition told :: "(string \<Rightarrow> job option) \<Rightarrow> message \<Rightarrow> bool" where
  "told m msg \<longleftrightarrow> (msg_Action msg = ActionDeprovision \<longrightarrow>
     (\<exists>j. m (msg_JobID msg) = Some j \<and> job_Status j \<in> {StatusDeleting, StatusDeleted}))"

definition sound :: "'w shell \<Rightarrow> (string \<Rightarrow> job option) \<Rightarrow> containers \<Rightarrow> message set \<Rightarrow> bool" where
  "sound p m c X \<longleftrightarrow> truthful p m c \<and> (\<forall>msg \<in> X. told m msg)"

lemma status_stage: "job_Status j \<in> {StatusDeleting, StatusDeleted} \<longleftrightarrow> 2 \<le> stage (job_Status j)"
  by (simp add: stage_def)

lemma told_follows: "told m msg \<Longrightarrow> all_follow m m' \<Longrightarrow> told m' msg"
  unfolding told_def all_follow_def status_stage follows_def by (meson le_trans)

lemma told_provision [simp]: "msg_Action msg = ActionProvision \<Longrightarrow> told m msg"
  by (simp add: told_def)

lemma told_spares: "told m msg \<Longrightarrow> msg_Action msg = ActionDeprovision \<Longrightarrow> m (msg_JobID msg) = Some j \<Longrightarrow>
    job_Status j \<noteq> StatusReady"
  by (auto simp: told_def)

text \<open>A new message is for a job that is to be provisioned, or told.\<close>

definition news_told :: "(string \<Rightarrow> job option) \<Rightarrow> queue_view \<Rightarrow> queue_view \<Rightarrow> bool" where
  "news_told m v v' \<longleftrightarrow> (\<forall>msg \<in> outstanding v'. msg \<in> outstanding v \<or> told m msg)"

definition no_new_ready :: "(string \<Rightarrow> job option) \<Rightarrow> (string \<Rightarrow> job option) \<Rightarrow> bool" where
  "no_new_ready m m' \<longleftrightarrow> (\<forall>i j. m' i = Some j \<and> job_Status j = StatusReady \<longrightarrow> m i = Some j)"

lemma news_told_refl [simp]: "news_told m v v"
  by (simp add: news_told_def)

lemma no_new_ready_refl [simp]: "no_new_ready m m"
  by (simp add: no_new_ready_def)

lemma no_new_ready_put: "job_Status j \<noteq> StatusReady \<Longrightarrow> no_new_ready m (m(i \<mapsto> j))"
  by (simp add: no_new_ready_def)

lemma truthful_no_new_ready: "truthful p m c \<Longrightarrow> no_new_ready m m' \<Longrightarrow> truthful p m' c"
  unfolding truthful_def no_new_ready_def by blast

lemma news_told_enqueued:
  "enqueued i a v v' \<Longrightarrow> (\<And>msg. msg_JobID msg = i \<Longrightarrow> msg_Action msg = (if a = [] then ActionProvision else a) \<Longrightarrow> told m msg) \<Longrightarrow>
     news_told m v v'"
  by (auto simp: enqueued_def news_told_def outstanding_def)

lemma submitted_told:
  assumes "submitted (new_job i req t) res m v m' v'"
  shows "no_new_ready m m' \<and> news_told m' v v'"
proof -
  have "news_told m' v v'" if "enqueued k ActionProvision v v'" for k
    by (rule news_told_enqueued [OF that]) auto
  moreover have "job_Status (new_job i req t) \<noteq> StatusReady" by (simp add: new_job_def)
  ultimately show ?thesis
    using assms by (auto simp: submitted_def accepted_def unsent_def intro!: no_new_ready_put)
qed

lemma torn_down_told:
  assumes "torn_down j res m v m' v'"
  shows "no_new_ready m m' \<and> news_told m' v v'"
proof -
  have sent: "news_told (m(job_ID k \<mapsto> k)) v v'"
    if "enqueued (job_ID k) ActionDeprovision v v'" "job_Status k = StatusDeleting" for k
    by (rule news_told_enqueued [OF that(1)]) (use that(2) in \<open>auto simp: told_def\<close>)
  have "job_Status (mark_deleting j t) = StatusDeleting" for t by (simp add: mark_deleting_def)
  with assms sent show ?thesis
    by (auto simp: torn_down_def teardown_sent_def split: if_splits intro!: no_new_ready_put)
qed

context broker_env
begin

lemma Routes_told:
  assumes "inv w" "request_ok r"
  shows "wp (Routes srt S r) (\<lambda>_ w'. no_new_ready (jobs w) (jobs w') \<and> news_told (jobs w') (qview w) (qview w')) w"
proof (cases "route (rq_Method r) (rq_Path r)")
  case RProvision
  show ?thesis unfolding Routes_def RProvision route.case
    by (rule wp_mono [OF handleProvision_contract [OF assms]])
       (auto split: sum.splits dest: submitted_told)
next
  case (RDeprovision i)
  show ?thesis unfolding Routes_def RDeprovision route.case
    by (rule wp_mono [OF handleDeprovision_contract [OF assms(1)]]) (auto dest: torn_down_told)
next
  case (RStatus i)
  show ?thesis unfolding Routes_def RStatus route.case
    by (rule wp_mono [OF handleStatus_contract [OF assms(1)]]) simp
next
  case RList
  show ?thesis unfolding Routes_def RList route.case handleList_def wp_bind wp_return
    by (rule wp_mono [OF list_all_jobs [OF assms(1)]]) simp
next
  case RListDead
  show ?thesis unfolding Routes_def RListDead route.case
    by (rule wp_mono [OF handleListDead_contract [OF assms(1)]]) simp
qed (simp_all add: Routes_def handleHealth_def)

end

section \<open>The platform on a docker host\<close>

text \<open>The broker touches no container.\<close>

locale serving_broker = broker_env S jobs qview inv
  for S :: "'w server" and jobs :: "'w \<Rightarrow> string \<Rightarrow> job option" and qview :: "'w \<Rightarrow> queue_view" and inv :: "'w \<Rightarrow> bool"
    and cts :: "'w \<Rightarrow> containers" +
  assumes broker_cts: "broker_env S jobs qview (\<lambda>w. inv w \<and> cts w = c)"
begin

lemma Routes_sound:
  assumes "inv w" "request_ok r" "sound p (jobs w) (cts w) (outstanding (qview w))"
    and "route (rq_Method r) (rq_Path r) = RProvision \<Longrightarrow> jobs w (next_id S w) = None"
  shows "wp (Routes srt S r) (\<lambda>_ w'. inv w' \<and> sound p (jobs w') (cts w') (outstanding (qview w'))) w"
proof -
  have "wp (Routes srt S r) (\<lambda>_ w'. cts w' = cts w) w"
    by (rule wp_mono [OF broker_env.Routes_follow [OF broker_cts [of "cts w"] _ assms(2)]]) (simp_all add: assms(1))
  from wp_conj [THEN iffD2, OF conjI, OF wp_conj [THEN iffD2, OF conjI, OF Routes_follow [OF assms(1,2)] Routes_told [OF assms(1,2)]] this]
  show ?thesis
  proof (rule wp_mono, goal_cases)
    case (1 res w')
    then have w': "inv w'" "all_follow (jobs w) (jobs w')" "no_new_ready (jobs w) (jobs w')"
      "news_told (jobs w') (qview w) (qview w')" "cts w' = cts w"
      using assms(4) by (auto simp: evolves_def)
    have "truthful p (jobs w') (cts w')"
      unfolding w'(5) by (rule truthful_no_new_ready [OF _ w'(3)]) (use assms(3) in \<open>simp add: sound_def\<close>)
    moreover have "told (jobs w') msg" if "msg \<in> outstanding (qview w')" for msg
      using that w'(4) assms(3) told_follows [OF _ w'(2)] unfolding news_told_def sound_def by blast
    ultimately show ?case using w'(1) by (simp add: sound_def)
  qed
qed

end

text \<open>The worker with its queue, on the docker host: its calls add no message, and the calls that only fetch, ask or
  wait touch no container.\<close>

locale serving_platform = serving_broker S jobs qview inv cts + pf: platform S jobs qview inv W +
    sv: serving_env W jobs inv p cts + wq: job_queue "wk_Queue W" qview inv
  for S :: "'w server" and jobs :: "'w \<Rightarrow> string \<Rightarrow> job option" and qview :: "'w \<Rightarrow> queue_view" and inv :: "'w \<Rightarrow> bool"
    and cts :: "'w \<Rightarrow> containers" and W :: "'w worker" and p :: "'w shell" +
  assumes no_news: "worker_env W jobs (\<lambda>w. inv w \<and> outstanding (qview w) \<subseteq> Q)"
    and dequeue_cts: "inv w \<Longrightarrow> wp (queue_Dequeue (wk_Queue W) i b) (\<lambda>_ w'. cts w' = cts w) w"
    and reclaim_cts: "inv w \<Longrightarrow> wp (queue_Reclaim (wk_Queue W) i d n) (\<lambda>_ w'. cts w' = cts w) w"
    and ctx_frame: "keeps inv (\<lambda>w. (jobs w, cts w, qview w)) any_result (sys_ctx_err (wk_Sys W))"
    and sleep_frame: "keeps inv (\<lambda>w. (jobs w, cts w, qview w)) any_result (sys_sleep (wk_Sys W) d)"
begin

definition sound_at :: "'w \<Rightarrow> bool" where
  "sound_at w \<longleftrightarrow> inv w \<and> sound p (jobs w) (cts w) (outstanding (qview w))"

lemma handle_sound:
  assumes "sound_at w" "told (jobs w) msg"
  shows "wp (handle W msg) (\<lambda>_ w'. sound_at w' \<and> all_follow (jobs w) (jobs w')) w"
proof -
  have w: "inv w" "truthful p (jobs w) (cts w)" using assms(1) by (simp_all add: sound_at_def sound_def)
  have out: "wp (handle W msg) (\<lambda>_ w'. outstanding (qview w') \<subseteq> outstanding (qview w)) w"
    by (rule wp_mono [OF worker_env.handle_step [OF no_news [of "outstanding (qview w)"]]]) (use w in auto)
  have serve: "wp (handle W msg) (\<lambda>_. sv.holds (truthful p)) w"
    by (rule sv.handle_truthful) (use w told_spares [OF assms(2)] in \<open>auto simp: sv.holds_def\<close>)
  from wp_conj [THEN iffD2, OF conjI, OF wp_conj [THEN iffD2, OF conjI, OF out serve] pf.steadyD [OF pf.steady_handle w(1)]]
  show ?thesis
  proof (rule wp_mono, goal_cases)
    case (1 r w')
    then have w': "outstanding (qview w') \<subseteq> outstanding (qview w)" "inv w'" "truthful p (jobs w') (cts w')"
      "all_follow (jobs w) (jobs w')" by (auto simp: sv.holds_def evolves_def)
    then show ?case using assms(1) told_follows [OF _ w'(4)] unfolding sound_at_def sound_def by blast
  qed
qed

text \<open>Calls that change nothing here, and the two that fetch messages.\<close>

lemma frame_sound:
  assumes "keeps inv (\<lambda>w. (jobs w, cts w, qview w)) any_result m" "sound_at w"
  shows "wp m (\<lambda>_ w'. sound_at w' \<and> jobs w' = jobs w) w"
proof -
  have "inv w" using assms(2) by (simp add: sound_at_def)
  from keepsD [OF assms(1) this] show ?thesis
    by (rule wp_mono) (use assms(2) in \<open>auto simp: sound_at_def\<close>)
qed

lemma dequeue_sound:
  assumes "sound_at w"
  shows "wp (queue_Dequeue (wk_Queue W) i b) (\<lambda>r w'. sound_at w' \<and> (\<forall>msg. r = Inr (Some msg) \<longrightarrow> told (jobs w') msg)) w"
proof -
  have w: "inv w" "\<forall>msg \<in> outstanding (qview w). told (jobs w) msg" using assms by (simp_all add: sound_at_def sound_def)
  have got: "msg \<in> outstanding v" if "dequeued msg v v'" for msg v v' using that by (auto simp: dequeued_def outstanding_def)
  from wp_conj [THEN iffD2, OF conjI, OF wp_conj [THEN iffD2, OF conjI, OF wp_conj [THEN iffD2, OF conjI,
      OF wq.dequeue [OF w(1)] wq.dequeue_outstanding [OF w(1)]] dequeue_cts [OF w(1)]] keepsD [OF pf.dequeue_jobs w(1)]]
  show ?thesis
    by (rule wp_mono) (use w assms got in \<open>auto simp: sound_at_def\<close>)
qed

lemma reclaim_sound:
  assumes "sound_at w"
  shows "wp (queue_Reclaim (wk_Queue W) i d n) (\<lambda>r w'. sound_at w' \<and> (\<forall>ms. r = Inr ms \<longrightarrow> (\<forall>msg \<in> set ms. told (jobs w') msg))) w"
proof -
  have w: "inv w" "\<forall>msg \<in> outstanding (qview w). told (jobs w) msg" using assms by (simp_all add: sound_at_def sound_def)
  from wp_conj [THEN iffD2, OF conjI, OF wp_conj [THEN iffD2, OF conjI,
      OF wq.reclaim [OF w(1)] reclaim_cts [OF w(1)]] keepsD [OF pf.reclaim_jobs w(1)]]
  show ?thesis
    by (rule wp_mono) (use w assms in \<open>auto simp: sound_at_def outstanding_def subset_iff\<close>)
qed

lemma seq_sound:
  "sound_at w \<Longrightarrow> (\<And>a w'. sound_at w' \<Longrightarrow> Q a w') \<Longrightarrow> wp (sys_ctx_err (wk_Sys W)) Q w"
  "sound_at w \<Longrightarrow> (\<And>a w'. sound_at w' \<Longrightarrow> Q' a w') \<Longrightarrow> wp (sys_sleep (wk_Sys W) d) Q' w"
  "sound_at w \<Longrightarrow> told (jobs w) msg \<Longrightarrow> (\<And>a w'. sound_at w' \<Longrightarrow> Q'' a w') \<Longrightarrow> wp (handle W msg) Q'' w"
  by (erule wp_mono [OF frame_sound [OF ctx_frame]], simp) (erule wp_mono [OF frame_sound [OF sleep_frame]], simp,
      erule (1) wp_mono [OF handle_sound], simp)

lemma run_iter_sound: "sound_at w \<Longrightarrow> wp (run_iter W) (\<lambda>_. sound_at) w"
  unfolding run_iter_def wp_bind
  by (erule seq_sound) (auto intro!: wp_mono [OF dequeue_sound] seq_sound split: sum.split option.split)

lemma reclaim_msgs_sound:
  "sound_at w \<Longrightarrow> \<forall>msg \<in> set ms. told (jobs w) msg \<Longrightarrow> wp (reclaim_msgs W ms) (\<lambda>_. sound_at) w"
proof (induction ms arbitrary: w)
  case (Cons msg ms)
  have rest: "wp (reclaim_msgs W ms) (\<lambda>_. sound_at) w2"
    if "sound_at w2" "all_follow (jobs w) (jobs w2)" for w2
    by (rule Cons.IH [OF that(1)]) (use Cons.prems(2) told_follows [OF _ that(2)] in auto)
  have "wp (handle W msg) (\<lambda>r. wp (case r of Panic \<Rightarrow> State_Monad.return (Some Crashed) | Ret _ \<Rightarrow> reclaim_msgs W ms) (\<lambda>_. sound_at)) w1"
    if "sound_at w1" "jobs w1 = jobs w" for w1
    by (rule wp_mono [OF handle_sound [OF that(1)]]) (use that Cons.prems(2) rest in \<open>auto split: go.split\<close>)
  then show ?case
    unfolding reclaim_msgs.simps wp_bind
    by (intro wp_mono [OF frame_sound [OF ctx_frame Cons.prems(1)]]) simp
qed simp

lemma reclaim_tick_sound: "sound_at w \<Longrightarrow> wp (reclaim_tick W) (\<lambda>_. sound_at) w"
  unfolding reclaim_tick_def wp_bind
  by (rule wp_mono [OF reclaim_sound], assumption)
     (auto intro!: reclaim_msgs_sound seq_sound split: sum.split)

lemma both_loops_sound: "sound_at w \<Longrightarrow> wp (both_loops sched g W) (\<lambda>_. sound_at) w"
proof (induction sched arbitrary: g w)
  case (Cons b sched)
  note step = wp_mono [OF run_iter_sound [OF Cons.prems]] wp_mono [OF reclaim_tick_sound [OF Cons.prems]]
  show ?case
    by (cases b; cases g) (use Cons in \<open>auto intro!: step split: option.split loop_end.split\<close>)
qed simp

end

lemma platform_run_sound:
  assumes "platform_run S Ws srt jobs w w'" "serving_broker S jobs qview I cts"
    and "\<And>W. W \<in> Ws \<Longrightarrow> serving_platform S jobs qview I cts W p" "I w" "sound p (jobs w) (cts w) (outstanding (qview w))"
  shows "I w' \<and> sound p (jobs w') (cts w') (outstanding (qview w'))"
  using assms(1)
proof (induction rule: platform_run.induct)
  case start
  show ?case by (simp add: assms(4,5))
next
  case (request w1 r res w2)
  then show ?case
    using wp_runD [OF serving_broker.Routes_sound [OF assms(2) _ request.hyps(2) _ request.hyps(4)] request.hyps(3)] by blast
next
  case (worker w1 W sched g e w2)
  note W = assms(3) [OF worker.hyps(2)]
  have "serving_platform.sound_at jobs qview I cts p w1"
    using worker.IH by (simp add: serving_platform.sound_at_def [OF W])
  from wp_runD [OF serving_platform.both_loops_sound [OF W this] worker.hyps(3)] show ?case
    by (simp add: serving_platform.sound_at_def [OF W])
qed

section \<open>The plant is such a platform\<close>

lemma plant_broker_cts: "broker_env plant_server plant_jobs plant_qview (\<lambda>w. plant_ok w \<and> plant_cts w = c)"
proof (intro broker_env.intro broker_env_axioms.intro)
  show "job_store (sv_store plant_server) plant_jobs (\<lambda>w. plant_ok w \<and> plant_cts w = c)"
    unfolding plant_server_def server.select_convs
    by (rule job_store_also [where ?I0.0 = plant_inv and ?P0.0 = "\<lambda>(_, d, _). ds_view d = c", OF plant_job_store plant_ok_inv _ plant_store_keeps]) auto
  show "job_queue (sv_queue plant_server) plant_qview (\<lambda>w. plant_ok w \<and> plant_cts w = c)"
    unfolding plant_server_def server.select_convs
    by (rule job_queue_also [where ?I0.0 = plant_inv and ?P0.0 = "\<lambda>(_, d, _). ds_view d = c", OF plant_job_queue plant_ok_inv _ plant_queue_keeps]) auto
next
  fix w assume w: "plant_ok w \<and> plant_cts w = c"
  note sys = keepsD [OF keeps_also [where P = "\<lambda>w. plant_cts w = c" and Q = "\<lambda>(_, d, _). ds_view d = c"]]
  show "wp (sys_now (sv_sys plant_server)) (\<lambda>t w'. (plant_ok w' \<and> plant_cts w' = c) \<and> plant_jobs w' = plant_jobs w \<and>
      plant_qview w' = plant_qview w \<and> time_ok t) w"
    unfolding plant_server_def server.select_convs by (rule wp_mono [OF sys [OF plant_sys_ok(1) _ w]]) (use w in auto)
  show "wp (sys_rand (sv_sys plant_server) len) (\<lambda>b w'. (plant_ok w' \<and> plant_cts w' = c) \<and> plant_jobs w' = plant_jobs w \<and>
      plant_qview w' = plant_qview w \<and> length b = len) w" for len
    unfolding plant_server_def server.select_convs by (rule wp_mono [OF sys [OF plant_sys_ok(2) _ w]]) (use w in auto)
qed (simp_all add: pb.put_queue pb.get_queue pb.list_queue pb.enqueue_jobs pb.listdead_jobs)

lemma keeps_bounded:
  assumes "keeps I v G m" "\<And>w. I w \<Longrightarrow> wp m (\<lambda>_ w'. f w' \<subseteq> f w) w"
  shows "keeps (\<lambda>w. I w \<and> f w \<subseteq> Q) v G m"
  unfolding keeps_def
proof (intro allI impI)
  fix w assume w: "I w \<and> f w \<subseteq> Q"
  then have "I w" by simp
  from wp_conj [THEN iffD2, OF conjI, OF keepsD [OF assms(1) this] assms(2) [OF this]]
  show "wp m (\<lambda>a w'. (I w' \<and> f w' \<subseteq> Q) \<and> v w' = v w \<and> G a) w" by (rule wp_mono) (use w in auto)
qed

abbreviation plant_out :: "plant \<Rightarrow> message set" where
  "plant_out w \<equiv> outstanding (plant_qview w)"

lemma plant_out_view:
  "keeps plant_ok v G m \<Longrightarrow> (\<And>w. plant_view w = h (v w)) \<Longrightarrow> plant_ok w \<Longrightarrow> wp m (\<lambda>_ w'. plant_out w' \<subseteq> plant_out w) w"
  by (rule wp_mono [OF keepsD [where I = plant_ok and v = v and G = G]]) auto

lemma plant_no_news: "worker_env plant_worker plant_jobs (\<lambda>w. plant_ok w \<and> plant_out w \<subseteq> Q)"
proof (intro worker_env.intro worker_env_axioms.intro)
  show "job_store (wk_Store plant_worker) plant_jobs (\<lambda>w. plant_ok w \<and> plant_out w \<subseteq> Q)"
    unfolding plant_worker_def worker.select_convs
    by (rule job_store_also [where ?I0.0 = plant_inv and ?P0.0 = "\<lambda>(v, _). outstanding (queue_of int_time_text v) \<subseteq> Q",
          OF plant_job_store plant_ok_inv _ plant_store_keeps]) auto
  show "keeps (\<lambda>w. plant_ok w \<and> plant_out w \<subseteq> Q) plant_jobs any_result (queue_Ack (wk_Queue plant_worker) m)" for m
    by (rule keeps_bounded [OF pw.ack_keeps], unfold plant_worker_def worker.select_convs,
        rule wp_mono [OF job_queue.ack [OF plant_job_queue]]) (auto simp: outstanding_def)
  show "keeps (\<lambda>w. plant_ok w \<and> plant_out w \<subseteq> Q) plant_jobs any_result (queue_DeadLetter (wk_Queue plant_worker) m d n)" for m d n
    by (rule keeps_bounded [OF pw.dead_keeps], unfold plant_worker_def worker.select_convs,
        rule wp_mono [OF pq.deadletter_jobs [folded plant_queue_def]]) (auto simp: plant_ok_eqs(2))
  show "keeps (\<lambda>w. plant_ok w \<and> plant_out w \<subseteq> Q) plant_jobs provided_ok (prov_Provision (wk_Provision plant_worker) j)"
    if "job_ok j" for j
    by (rule keeps_bounded [OF pw.prov_keeps [OF that]], unfold plant_worker_def worker.select_convs shell_prov_def prov_if.select_convs,
        rule plant_out_view [OF px.Provision_text [OF that], where h = snd]) auto
  show "keeps (\<lambda>w. plant_ok w \<and> plant_out w \<subseteq> Q) plant_jobs (pred_option error_ok) (prov_Deprovision (wk_Provision plant_worker) j)"
    if "job_ok j" for j
    by (rule keeps_bounded [OF pw.deprov_keeps [OF that]], unfold plant_worker_def worker.select_convs shell_prov_def prov_if.select_convs,
        rule plant_out_view [OF px.Deprovision_text, where h = snd]) auto
  show "keeps (\<lambda>w. plant_ok w \<and> plant_out w \<subseteq> Q) plant_jobs any_result (xds_Register (the_XDS plant_worker) s h q)" for s h q
    by (rule keeps_bounded [OF pw.reg_keeps]) (simp add: plant_worker_def the_XDS_def plant_xds_def wp_any)
  show "keeps (\<lambda>w. plant_ok w \<and> plant_out w \<subseteq> Q) plant_jobs any_result (xds_Unregister (the_XDS plant_worker) s h q)" for s h q
    by (rule keeps_bounded [OF pw.unreg_keeps]) (simp add: plant_worker_def the_XDS_def plant_xds_def wp_any)
  show "keeps (\<lambda>w. plant_ok w \<and> plant_out w \<subseteq> Q) plant_jobs time_ok (sys_now (wk_Sys plant_worker))"
    by (rule keeps_bounded [OF pw.now_keeps], unfold plant_worker_def worker.select_convs, rule plant_out_view [OF plant_sys_ok(1), where h = "\<lambda>((_, v), _). v"]) auto
qed

interpretation pr: serving_platform plant_server plant_jobs plant_qview plant_ok plant_cts plant_worker plant_shell
proof (intro serving_platform.intro serving_platform_axioms.intro serving_broker.intro serving_broker_axioms.intro
    pb.broker_env_axioms pp.platform_axioms pv.serving_env_axioms plant_broker_cts plant_no_news,
    unfold plant_worker_def worker.select_convs, goal_cases)
  case 1
  show ?case by (rule plant_job_queue)
next
  case (2 w c b)
  then show ?case by (rule plant_cts_kept [OF plant_queue_keeps(2)])
next
  case (3 w c d n)
  then show ?case by (rule plant_cts_kept [OF plant_queue_keeps(3)])
next
  case 4
  show ?case
    by (rule keeps_image [OF keeps_weaken [OF plant_sys_ok(3)],
          where h = "\<lambda>((r, v), d, _). (stored text_codec r, ds_view d, queue_of int_time_text v)"]) simp_all
next
  case (5 d)
  show ?case
    by (rule keeps_image [OF plant_sys_ok(4),
          where h = "\<lambda>((r, v), d, _). (stored text_codec r, ds_view d, queue_of int_time_text v)"]) simp
qed

section \<open>What the store says is so\<close>

text \<open>C2. Ready means served, with handlers one at a time. Let a broker and any number of workers with the docker
  provisioner share a store, a queue and a docker host that keep their contracts, with calls that may fail at any
  point, and start where ready jobs are served, containers carry the label of their job, and outstanding teardown
  messages are for jobs marked as being deleted or deleted: an empty platform, for one. After any run of requests,
  rounds of the workers and reclaim ticks (each POST with a fresh id), every job on record as ready is served by its two
  running containers, with the connection and the endpoint on record.\<close>

theorem ready_jobs_are_served:
  assumes "serving_broker S jobs qview I cts" "\<And>W. W \<in> Ws \<Longrightarrow> serving_platform S jobs qview I cts W p"
    and "I w" "sound p (jobs w) (cts w) (outstanding (qview w))" "platform_run S Ws srt jobs w w'"
    and "jobs w' i = Some j" "job_Status j = StatusReady"
  shows "serves p (cts w') j \<lparr>res_Connection = job_Connection j, res_HTTP = job_HTTP j\<rparr>"
proof -
  have "truthful p (jobs w') (cts w')" using platform_run_sound [OF assms(5,1,2,3,4)] by (simp add: sound_def)
  from truthful_ready [OF this assms(6,7)] show ?thesis .
qed

definition served_job :: job where
  "served_job = (bench_job StatusReady)\<lparr>job_Connection := res_Connection served_result, job_HTTP := res_HTTP served_result\<rparr>"

lemma served_job_ok: "job_ok served_job"
  by (simp add: served_job_def bench_job_def served_result_def job_ok_def conn_ok_def
      http_ok_def int64_range_def time_ok_def ResourcePostgres_def utf8_valid_ascii is_ascii_def StatusReady_def)

text \<open>The plant that serves one job, which is on record as ready.\<close>

definition plant_ready :: plant where
  "plant_ready = (plant_store_job served_job (plant_new False [] []))\<lparr>pl_docker := pl_docker plant_served\<rparr>"

lemma plant_ready_jobs: "plant_jobs plant_ready i = (if i = ''j1'' then Some served_job else None)"
  using plant_store_job(2) [OF served_job_ok, of False "[]"] plant_store_job(3) [OF served_job_ok, of False "[]"]
  by (auto simp: plant_ready_def served_job_def bench_job_def plant_new_def stored_def)

lemma plant_ready_ok: "plant_ok plant_ready"
  using plant_store_job(1) [OF served_job_ok, of False "[]"] plant_served_ok
  by (simp add: plant_ok_def plant_inv_def plant_ready_def)

lemma plant_ready_idle: "plant_out plant_ready = {}"
proof -
  have "wp (store_Put plant_store served_job) (\<lambda>_ w'. plant_view w' = plant_view (plant_new False [] [])) (plant_new False [] [])"
    by (rule wp_mono [OF keepsD [OF plant_store_keeps(1)]]) (auto simp: plant_ok_inv)
  then have "plant_view plant_ready = plant_view (plant_new False [] [])"
    by (auto simp: plant_ready_def plant_store_job_def wp_def split: prod.splits)
  then show ?thesis by (simp add: outstanding_def queue_of_def) (simp add: plant_new_def srv_view_def group_of_def gm_get_def)
qed

lemma served_truthful:
  assumes "\<And>i j. m i = Some j \<Longrightarrow> j = served_job"
  shows "truthful plant_shell m (plant_cts plant_served)"
proof (rule truthfulI)
  fix i j assume "m i = Some j"
  then have j: "j = served_job" by (rule assms)
  have eq: "\<lparr>res_Connection = job_Connection j, res_HTTP = job_HTTP j\<rparr> = served_result" "job_ID j = job_ID (bench_job StatusReady)"
    by (simp_all add: j served_job_def served_result_def)
  show "serves plant_shell (plant_cts plant_served) j \<lparr>res_Connection = job_Connection j, res_HTTP = job_HTTP j\<rparr>"
    unfolding eq(1) serves_ID [OF eq(2)] by (rule plant_serves)
next
  fix j n ct assume "plant_cts plant_served n = Some ct" "n \<in> {postgresName j, httpName j}"
  then show "ct_job ct = job_ID j"
    by (auto simp: plant_served_cts names_inject served_pg_def served_http_def bench_job_def split: if_splits)
qed

lemma plant_ready_sound: "sound plant_shell (plant_jobs plant_ready) (plant_cts plant_ready) (plant_out plant_ready)"
proof -
  have "plant_cts plant_ready = plant_cts plant_served" by (simp add: plant_ready_def)
  moreover have "truthful plant_shell (plant_jobs plant_ready) (plant_cts plant_served)"
    by (rule served_truthful) (simp add: plant_ready_jobs split: if_splits)
  ultimately show ?thesis by (simp add: sound_def plant_ready_idle)
qed

text \<open>The ready job, a new request that leaves it alone, and the worker at the new job.\<close>

theorem ready_jobs_are_served_witness:
  "\<exists>res w1 e w2. run_state (Routes sort_by plant_server shop_request) plant_ready = (res, w1) \<and>
     run_state (both_loops [True, False] Ticking plant_worker) w1 = (e, w2) \<and>
     plant_jobs w1 ''j1'' = Some served_job \<and> serves plant_shell (plant_cts w1) served_job served_result \<and>
     (\<forall>i j. plant_jobs w2 i = Some j \<longrightarrow> job_Status j = StatusReady \<longrightarrow>
        serves plant_shell (plant_cts w2) j \<lparr>res_Connection = job_Connection j, res_HTTP = job_HTTP j\<rparr>)"
proof -
  obtain res w1 where post: "run_state (Routes sort_by plant_server shop_request) plant_ready = (res, w1)" by (metis surj_pair)
  obtain e w2 where work: "run_state (both_loops [True, False] Ticking plant_worker) w1 = (e, w2)" by (metis surj_pair)
  have "length (next_id plant_server plant_ready) \<noteq> length ''j1''" using plant_next_id [OF plant_ready_ok] by simp
  then have new: "next_id plant_server plant_ready \<noteq> ''j1''" by metis
  have run1: "platform_run plant_server {plant_worker} sort_by plant_jobs plant_ready w1"
    by (rule platform_run.request [OF platform_run.start shop_request_ok post]) (simp add: plant_ready_jobs new)
  then have run2: "platform_run plant_server {plant_worker} sort_by plant_jobs plant_ready w2"
    by (rule platform_run.worker [OF _ _ work]) simp
  have kept: "plant_jobs w1 ''j1'' = Some served_job"
  proof -
    have "run_state (handleProvision plant_server shop_request) plant_ready = (res, w1)"
      using post by (simp add: Routes_def route_def is_get_def shop_request_def)
    from wp_runD [OF pb.handleProvision_contract [OF plant_ready_ok shop_request_ok] this] show ?thesis
      by (auto dest!: submitted_frame [where k = "''j1''"] simp: new [symmetric] plant_ready_jobs)
  qed
  note served = ready_jobs_are_served [OF pr.serving_broker_axioms _ plant_ready_ok plant_ready_sound, of "{plant_worker}"]
  have "serves plant_shell (plant_cts w1) served_job served_result"
    using served [OF _ run1 kept] pr.serving_platform_axioms by (simp add: served_job_def served_result_def bench_job_def)
  with post work kept served [OF _ run2] pr.serving_platform_axioms show ?thesis by blast
qed

end
