(* ===== verification/Control_Process.thy ===== *)
theory Control_Process
  imports Processes Control_Plane
begin

text \<open>
  The control plane as a process: when it starts, and what Envoy is given first, on any snapshot cache that keeps
  the contract \<open>snapshot_cache\<close>, pushes that are refused included.
\<close>

section \<open>Envoy in step with the registry\<close>

text \<open>What Envoy is given: the clusters and routes of a set of pairs.\<close>

definition envoy_sees :: "('c \<Rightarrow> snapshot option) \<Rightarrow> 'c registry \<Rightarrow> (string \<times> endpoint) set \<Rightarrow> bool" where
  "envoy_sees current r A \<longleftrightarrow>
     (\<exists>snap. current (reg_cache r) = Some snap \<and> (snap_clusters snap, snap_routes snap) = resources_spec A)"

definition in_step :: "('c \<Rightarrow> snapshot option) \<Rightarrow> 'c registry \<Rightarrow> bool" where
  "in_step current r \<longleftrightarrow> services_wf (reg_services r) \<and> envoy_sees current r (reg_abs (reg_services r))"

context snapshot_cache
begin

lemma PushEmpty_step:
  assumes "range_if_ok G" "PushEmpty C G t (NewRegistry c) = (None, r)"
  shows "reg_services r = [] \<and> in_step current r"
proof -
  have none: "reg_services r = []" using PushEmpty_services [of C G t "NewRegistry c", unfolded assms(2)] by (simp add: NewRegistry_def)
  with PushEmpty_current [OF assms(2)] buildLocked_resources [OF assms(1), of "NewRegistry c" t]
  show ?thesis by (simp add: in_step_def envoy_sees_def NewRegistry_def)
qed

lemma Reconcile_step:
  assumes "range_if_ok G" "in_step current r" "run_state (Reconcile lister C G t) (b, r) = (None, (b', r'))"
  shows "in_step current r'"
proof -
  have wf: "services_wf (reg_services r)" using assms(2) by (simp add: in_step_def)
  obtain res b1 where lst: "run_state lister b = (res, b1)" by (metis surj_pair)
  show ?thesis
  proof (cases res)
    case (Inl e)
    with assms(3) lst Reconcile_unreachable [of lister b e b1 C G t r] show ?thesis by simp
  next
    case (Inr jobs)
    note law = Reconcile_heals_law [OF snapshot_cache_axioms assms(1) wf lst [unfolded Inr] assms(3)]
    from law(2,6) assms(2) show ?thesis by (auto simp: in_step_def envoy_sees_def)
  qed
qed

end

section \<open>The background passes\<close>

text \<open>The background steps of the process are those of \<open>Reconciler.Run\<close>.\<close>

lemma ticking_is_Run:
  "\<exists>s'. run_state (reconcile_ticks lister K G ts) s = (Ret (), s') \<and>
     run_state (xds_serve lister K G every Ticking (map (Work \<circ> Background) ts)) s = (([], None), s')"
proof (induction ts arbitrary: s)
  case (Cons t ts)
  obtain e s1 where run: "run_state (Reconcile lister K G t) s = (e, s1)" by (metis surj_pair)
  from Cons.IH [of s1] show ?case by (auto simp: run)
qed simp

lemma background_is_Run:
  "run_state (xds_serve lister K G every Unstarted (map (Work \<circ> Background) (t # ts))) s =
     (case run_state (Reconciler_Run lister K G every t ts) s of
        (Ret _, s') \<Rightarrow> (([], None), s') | (Panic, s') \<Rightarrow> (([], Some 2), s'))"
proof -
  obtain e s1 where run: "run_state (Reconcile lister K G t) s = (e, s1)" by (metis surj_pair)
  obtain s2 where ticks: "run_state (reconcile_ticks lister K G ts) s1 = (Ret (), s2)"
    "run_state (xds_serve lister K G every Ticking (map (Work \<circ> Background) ts)) s1 = (([], None), s2)"
    using ticking_is_Run by blast
  have "run_state (xds_serve lister K G every Ended (map (Work \<circ> Background) us)) s1 = (([], None), s1)" for us
    by (induction us) auto
  with ticks show ?thesis by (auto simp: Reconciler_Run_def run)
qed

section \<open>The start\<close>

text \<open>C27. How the control plane starts, on any snapshot cache. It exits with 1 exactly when the first, empty push is
  refused or the port for Envoy is taken; a broker that cannot be listed does not stop it. After the empty push, a
  broker that cannot be listed leaves the registry empty and Envoy with a snapshot without routes. When the broker
  answers, exactly the endpoints of the ready jobs are registered, however often it lists them, and Envoy is given
  exactly their clusters and routes, unless the cache refuses that push: then it still has the empty snapshot. The first
  pass of \<open>Run\<close> does nothing if the broker lists the same jobs again and no routable pair twice.
\<close>

theorem control_plane_starts_in_step:
  assumes "snapshot_cache K current" "range_if_ok G"
    and "lister = broker_List H dec (envOr getenv ''BROKER_ADDR'' ''localhost:8080'')"
    and "run_state (xds_start getenv parse H dec K G lis t0 t1) (b, NewRegistry c) = (p, (b2, r2))"
  shows "case PushEmpty K G t0 (NewRegistry c) of
      (Some e, r1) \<Rightarrow> p = Exit1 \<and> b2 = b
    | (None, r1) \<Rightarrow>
        p = (if lis = None then Up (envDur getenv parse ''XDS_RECONCILE_EVERY'' (60 * second)) else Exit1) \<and>
        (case run_state lister b of
           (Inl e, b1) \<Rightarrow> b2 = b1 \<and> reg_services r2 = [] \<and> envoy_sees current r2 {}
         | (Inr jobs, b1) \<Rightarrow> b2 = b1 \<and> reg_abs (reg_services r2) = set (routable jobs) \<and>
             envoy_sees current r2 (if fst (run_state (Reconcile lister K G t1) (b, r1)) = None then set (routable jobs) else {}) \<and>
             (\<forall>t b3. distinct (routable jobs) \<and> run_state lister b2 = (Inr jobs, b3) \<longrightarrow>
                run_state (Reconcile lister K G t) (b2, r2) = (None, (b3, r2))))"
proof -
  obtain e r1 where push: "PushEmpty K G t0 (NewRegistry c) = (e, r1)" by (metis surj_pair)
  show ?thesis
  proof (cases e)
    case (Some x)
    with assms(4) push show ?thesis by (simp add: xds_start_def)
  next
    case None
    obtain err where pass: "run_state (Reconcile lister K G t1) (b, r1) = (err, (b2, r2))"
      and p: "p = (if lis = None then Up (envDur getenv parse ''XDS_RECONCILE_EVERY'' (60 * second)) else Exit1)"
      using assms(4) by (auto simp: xds_start_def startReconciler_def push None Let_def split: prod.splits simp flip: assms(3))
    have r1: "reg_services r1 = []" "in_step current r1"
      using snapshot_cache.PushEmpty_step [OF assms(1,2)] push None by simp_all
    then have wf: "services_wf (reg_services r1)" and seen: "envoy_sees current r1 {}" by (simp_all add: in_step_def)
    obtain res b1 where lst: "run_state lister b = (res, b1)" by (metis surj_pair)
    show ?thesis
    proof (cases res)
      case (Inl x)
      with Reconcile_unreachable [of lister b x b1 K G t1 r1] lst pass have "b2 = b1" "r2 = r1" by simp_all
      with r1 seen p lst Inl show ?thesis by (simp add: push None)
    next
      case (Inr jobs)
      note law = Reconcile_heals_law [OF assms(1,2) wf lst [unfolded Inr] pass]
      have abs: "reg_abs (reg_services r2) = set (routable jobs)"
        using law(4,6) r1(1) by (auto simp: reg_abs_def bucket_of_def)
      have sees: "envoy_sees current r2 (if err = None then set (routable jobs) else {})"
      proof (cases "err = None")
        case True
        with snapshot_cache.Reconcile_step [OF assms(1,2) r1(2) pass [unfolded True]] abs show ?thesis by (simp add: in_step_def)
      next
        case False
        with law(6) seen show ?thesis by (auto simp: envoy_sees_def)
      qed
      have "run_state (Reconcile lister K G t) (b2, r2) = (None, (b3, r2))"
        if "distinct (routable jobs)" "run_state lister b2 = (Inr jobs, b3)" for t b3
        by (rule Reconcile_quiet [OF assms(2) law(2) abs that(2,1)])
      with law(1) abs sees p lst pass Inr show ?thesis by (simp add: push None)
    qed
  qed
qed

definition broker_up :: "('w, 'b) http_if" where
  "broker_up =
     \<lparr>ht_NewRequest = (\<lambda>_ _. None),
      ht_Do = (\<lambda>_ _ _. State_Monad.return (Inr \<lparr>hr_StatusCode = 200, hr_Status = ''200 OK'', hr_Body = ''jobs''\<rparr>))\<rparr>"

theorem control_plane_starts_in_step_witness:
  "\<exists>b2 r2. run_state (xds_start (\<lambda>_. []) (\<lambda>_. None) broker_up (\<lambda>_. Inr [reg_live, reg_live]) simple_cache rng_rev None 1 2) ((), NewRegistry None) =
     (Up (60 * second), (b2, r2)) \<and> envoy_sees (\<lambda>c. c) r2 {(''b'', Endpoint ''h'' 1)}"
proof -
  let ?dec = "\<lambda>_. Inr [reg_live, reg_live]"
  let ?lister = "broker_List broker_up ?dec (envOr (\<lambda>_. []) ''BROKER_ADDR'' ''localhost:8080'')"
  obtain p b2 r2 where run: "run_state (xds_start (\<lambda>_. []) (\<lambda>_. None) broker_up ?dec simple_cache rng_rev None 1 2) ((), NewRegistry None) =
      (p, (b2, r2))" by (metis surj_pair)
  obtain r1 where push: "PushEmpty simple_cache rng_rev 1 (NewRegistry None) = (None, r1)"
    by (simp add: PushEmpty_def case_prod_beta simple_cache_push flip: built_def)
  have lst: "run_state ?lister () = (Inr [reg_live, reg_live], ())" by (simp add: broker_List_def broker_up_def)
  have jobs: "set (routable [reg_live, reg_live]) = {(''b'', Endpoint ''h'' 1)}"
    by (simp add: routable_def reg_live_def List.map_filter_def)
  have ok: "fst (run_state (Reconcile ?lister simple_cache rng_rev 2) ((), r1)) = None"
    by (simp add: Reconcile_def lst ReplaceAll_def case_prod_beta simple_cache_push flip: built_def)
  from control_plane_starts_in_step [OF sc.snapshot_cache_axioms rng_rev_ok refl run] run
  show ?thesis by (simp add: push lst jobs ok envDur_def)
qed

end
