(* ===== verification/End_To_End.thy ===== *)
theory End_To_End
  imports Served_Runs Control_Process
begin

text \<open>
  From a stored job to a request that Envoy forwards: the store, the broker's list handler, the client of the
  broker, the reconciler, the registry, the snapshot and the containers in one statement.
\<close>

section \<open>The broker behind its client\<close>

text \<open>
  A transport that carries a request to the broker's handler and brings the answer back; \<open>enc\<close> is the JSON
  encoder for bodies. \<open>segments\<close> cuts a cleaned path.
\<close>

fun segments :: "string \<Rightarrow> string \<Rightarrow> string list" where
  "segments acc [] = [acc]"
| "segments acc (c # s) = (if c = CHR ''/'' then acc # segments [] s else segments (acc @ [c]) s)"

definition broker_transport :: "(body \<Rightarrow> string) \<Rightarrow> sort_if \<Rightarrow> 'w server \<Rightarrow> string \<Rightarrow> ('w, unit) http_if" where
  "broker_transport enc srt S addr =
     \<lparr>ht_NewRequest = (\<lambda>_ _. None),
      ht_Do = (\<lambda>m url _. do {
        res \<leftarrow> Routes srt S
          \<lparr>rq_Method = m, rq_Path = segments [] (trim_prefix url (''http://'' @ addr @ ''/'')), rq_limit = [], rq_Body = None\<rparr>;
        State_Monad.return (Inr \<lparr>hr_StatusCode = rs_Code res, hr_Status = status_text (rs_Code res), hr_Body = enc (rs_Body res)\<rparr>)
      })\<rparr>"

text \<open>What the decoder of the client makes of the broker's listing.\<close>

definition listing_json :: "(body \<Rightarrow> string) \<Rightarrow> (string \<Rightarrow> goerr + job list) \<Rightarrow> bool" where
  "listing_json enc dec \<longleftrightarrow> (\<forall>n js. list_all job_ok js \<longrightarrow> dec (enc (BodyJobs n js)) = Inr js)"

lemma broker_List_transport:
  "run_state (broker_List (broker_transport enc srt S addr) dec addr) w =
     (case run_state (store_List (sv_store S)) w of
        (Inl _, w') \<Rightarrow> (Inl (NewErr (''broker /v1/provision -> '' @ status_text 500)), w')
      | (Inr js, w') \<Rightarrow>
          (case dec (enc (BodyJobs (length (srt created_before js)) (srt created_before js))) of
             Inl err \<Rightarrow> Inl (errorf_w ''decode response'' err) | Inr jobs \<Rightarrow> Inr jobs, w'))"
proof -
  have "trim_prefix (''http://'' @ addr @ ''/v1/provision'') (''http://'' @ addr @ ''/'') = ''v1/provision''"
    by (simp add: trim_prefix_def)
  then have "segments [] (trim_prefix (''http://'' @ addr @ ''/v1/provision'') (''http://'' @ addr @ ''/'')) = [''v1'', ''provision'']"
    by simp
  then show ?thesis
    by (simp add: broker_List_def broker_transport_def Routes_def route_def is_get_def handleList_def Let_def
        writeError_def writeJSON_def split: prod.split sum.split)
qed

text \<open>The listing is that of the store, and reading it leaves the records and the containers alone.\<close>

lemma inventory_listed:
  assumes "serving_broker S jobs qview I cts" "I w" "sort_Slice_ok srt" "listing_json enc dec"
    and "run_state (broker_List (broker_transport enc srt S addr) dec addr) w = (Inr js, w')"
  shows "set js = ran (jobs w) \<and> jobs w' = jobs w \<and> cts w' = cts w"
proof -
  obtain js0 where lst: "run_state (store_List (sv_store S)) w = (Inr js0, w')"
    and js: "dec (enc (BodyJobs (length (srt created_before js0)) (srt created_before js0))) = Inr js"
    using assms(5) unfolding broker_List_transport by (auto split: prod.splits sum.splits)
  have store: "job_store (sv_store S) jobs (\<lambda>w'. I w' \<and> cts w' = cts w)"
    by (rule broker_env.axioms(1) [OF serving_broker.broker_cts [OF assms(1)]])
  have out: "set js0 = ran (jobs w)" "jobs w' = jobs w" "cts w' = cts w"
    using wp_runD [OF job_store.list [OF store] lst] assms(2) by simp_all
  have srt: "set (srt created_before js0) = set js0" by (rule mset_eq_setD [OF sort_Slice_created(1) [OF assms(3)]])
  with out(1) have "list_all job_ok (srt created_before js0)"
    using job_store.keyed [OF store] assms(2) by (auto simp: list_all_iff ran_def)
  with assms(4) js have "js = srt created_before js0" by (simp add: listing_json_def)
  with out srt show ?thesis by simp
qed

section \<open>From a job to its container\<close>

lemma routable_ready:
  "(s, e) \<in> set (routable js) \<longleftrightarrow>
     (\<exists>j h. j \<in> set js \<and> job_Status j = StatusReady \<and> job_HTTP j = Some h \<and> s = job_ServiceName j \<and>
        e = Endpoint (http_Host h) (http_Port h))"
  by (force simp: routable_def List.map_filter_def split: if_splits)

lemma resources_of_service:
  assumes "finite A" "(s, e) \<in> A" "(cls, rts) = resources_spec A"
  shows "\<exists>cl \<in> set cls. cl_Name cl = s \<and> set (cl_LbEndpoints cl) = lb_of ` {e. (s, e) \<in> A}"
    and "\<forall>s \<in> fst ` A. slash_free s \<Longrightarrow> route_for rts (''/'' @ s @ ''/'' @ rest) = Some s"
proof -
  have mem: "s \<in> fst ` A" using assms(2) by force
  have fin: "finite (fst ` A)" "finite {e. (s, e) \<in> A}" using assms(1) by simp_all
  from assms(3) have cls: "cls = map (\<lambda>s. makeCluster s (map lb_of (sorted_list_of_set {e. (s, e) \<in> A}))) (sorted_list_of_set (fst ` A))"
    and rts: "rts = routeConfig_for (sorted_list_of_set (fst ` A))"
    by (simp_all add: resources_spec_def Let_def)
  show "\<exists>cl \<in> set cls. cl_Name cl = s \<and> set (cl_LbEndpoints cl) = lb_of ` {e. (s, e) \<in> A}"
    using mem fin by (auto simp: cls makeCluster_def)
  show "\<forall>s \<in> fst ` A. slash_free s \<Longrightarrow> route_for rts (''/'' @ s @ ''/'' @ rest) = Some s"
    unfolding rts by (rule route_for_spec) (use mem fin in simp_all)
qed

lemma ready_endpoint:
  assumes "truthful p m c" "m i = Some j" "job_Status j = StatusReady"
  shows "\<exists>h ct. job_HTTP j = Some h \<and> c (httpName j) = Some ct \<and> in_Running (ct_info ct) \<and>
    endpoint_of p (Some (ct_info ct)) = Ret (Inr h)"
  using truthful_ready [OF assms] by (auto simp: serves_def)

text \<open>C3. The whole way. Let the platform have run, handlers one at a time, from a state in which ready jobs are served and
  teardown messages are for marked jobs; let Envoy be in step with the registry; and let one reconcile pass list the
  broker's jobs and end without an error. Then for every job on record as ready Envoy has a cluster of the name of its
  service, and in it the endpoint on record, which is the one that the running container of the job publishes. If no
  listed service has a slash in its name, Envoy forwards every path under \<open>/service/\<close> to that cluster; and if the listing
  repeats no endpoint of the service, every endpoint of the cluster is that of a running container of a ready job of
  the service.
\<close>

theorem ready_jobs_are_reachable:
  assumes "serving_broker S jobs qview I cts" "\<And>W. W \<in> Ws \<Longrightarrow> serving_platform S jobs qview I cts W p"
    and "I w0" "sound p (jobs w0) (cts w0) (outstanding (qview w0))" "platform_run S Ws srt jobs w0 w"
    and "sort_Slice_ok srt" "listing_json enc dec" "snapshot_cache K current" "range_if_ok G" "in_step current r"
    and "lister = broker_List (broker_transport enc srt S addr) dec addr" "run_state lister w = (Inr js, w1)"
    and "run_state (Reconcile lister K G t) (w, r) = (None, (w2, r'))"
    and "jobs w2 i = Some j" "job_Status j = StatusReady" "s = job_ServiceName j"
  shows "\<exists>snap cl h ct. current (reg_cache r') = Some snap \<and> cl \<in> set (snap_clusters snap) \<and> cl_Name cl = s \<and>
    job_HTTP j = Some h \<and> makeLBEndpoint (http_Host h) (uint32_of (http_Port h)) \<in> set (cl_LbEndpoints cl) \<and>
    cts w2 (httpName j) = Some ct \<and> in_Running (ct_info ct) \<and> endpoint_of p (Some (ct_info ct)) = Ret (Inr h) \<and>
    ((\<forall>j' \<in> set js. slash_free (job_ServiceName j')) \<longrightarrow>
       route_for (snap_routes snap) (''/'' @ s @ ''/'' @ rest) = Some s) \<and>
    (distinct (filter (\<lambda>p. fst p = s) (routable js)) \<longrightarrow>
       (\<forall>lb \<in> set (cl_LbEndpoints cl). \<exists>k j' ct h. jobs w2 k = Some j' \<and> job_Status j' = StatusReady \<and> job_ServiceName j' = s \<and>
          cts w2 (httpName j') = Some ct \<and> in_Running (ct_info ct) \<and> endpoint_of p (Some (ct_info ct)) = Ret (Inr h) \<and>
          lb = makeLBEndpoint (http_Host h) (uint32_of (http_Port h))))"
proof -
  let ?A = "reg_abs (reg_services r')"
  have w: "I w" "truthful p (jobs w) (cts w)" using platform_run_sound [OF assms(5,1,2,3,4)] by (simp_all add: sound_def)
  have listed: "set js = ran (jobs w)" "jobs w1 = jobs w" "cts w1 = cts w"
    using inventory_listed [OF assms(1) w(1) assms(6,7)] assms(12) by (simp_all add: assms(11))
  have "services_wf (reg_services r)" using assms(10) by (simp add: in_step_def)
  note law = Reconcile_heals_law [OF assms(8,9) this assms(12,13)]
  have w2: "set js = ran (jobs w2)" "truthful p (jobs w2) (cts w2)" using listed w(2) law(1) by simp_all
  obtain snap where snap: "current (reg_cache r') = Some snap" "(snap_clusters snap, snap_routes snap) = resources_spec ?A"
    using snapshot_cache.Reconcile_step [OF assms(8,9,10,13)] by (auto simp: in_step_def envoy_sees_def)
  have fin: "finite ?A" by (rule finite_reg_abs [OF law(2)])
  from ready_endpoint [OF w2(2) assms(14,15)] obtain h ct where h: "job_HTTP j = Some h" "cts w2 (httpName j) = Some ct"
    "in_Running (ct_info ct)" "endpoint_of p (Some (ct_info ct)) = Ret (Inr h)" by blast
  have "(s, Endpoint (http_Host h) (http_Port h)) \<in> set (routable js)"
    unfolding routable_ready w2(1) using assms(14-16) h(1) by (auto simp: ran_def)
  then have own: "(s, Endpoint (http_Host h) (http_Port h)) \<in> ?A" using law(3) by blast
  from resources_of_service(1) [OF fin own snap(2)] obtain cl where
    cl: "cl \<in> set (snap_clusters snap)" "cl_Name cl = s" "set (cl_LbEndpoints cl) = lb_of ` {e. (s, e) \<in> ?A}" by auto
  have "route_for (snap_routes snap) (''/'' @ s @ ''/'' @ rest) = Some s" if "\<forall>j' \<in> set js. slash_free (job_ServiceName j')"
  proof (rule resources_of_service(2) [OF fin own snap(2)])
    show "\<forall>s \<in> fst ` ?A. slash_free s" unfolding law(4) using that by (auto simp: routable_ready)
  qed
  moreover have "\<exists>k j' ct h. jobs w2 k = Some j' \<and> job_Status j' = StatusReady \<and> job_ServiceName j' = s \<and>
       cts w2 (httpName j') = Some ct \<and> in_Running (ct_info ct) \<and> endpoint_of p (Some (ct_info ct)) = Ret (Inr h) \<and>
       lb = makeLBEndpoint (http_Host h) (uint32_of (http_Port h))"
    if "distinct (filter (\<lambda>p. fst p = s) (routable js))" "lb \<in> set (cl_LbEndpoints cl)" for lb
  proof -
    from that(2) cl(3) obtain e where e: "(s, e) \<in> ?A" "lb = lb_of e" by blast
    then have "(s, e) \<in> set (routable js)" using law(5) [OF that(1)] by blast
    then obtain k j' h where j': "jobs w2 k = Some j'" "job_Status j' = StatusReady" "job_HTTP j' = Some h"
      "s = job_ServiceName j'" "e = Endpoint (http_Host h) (http_Port h)"
      unfolding routable_ready w2(1) by (auto simp: ran_def)
    from ready_endpoint [OF w2(2) j'(1,2)] j' e(2) show ?thesis by (auto simp: lb_of_def)
  qed
  moreover have "makeLBEndpoint (http_Host h) (uint32_of (http_Port h)) \<in> set (cl_LbEndpoints cl)"
    using own cl(3) by (force simp: lb_of_def)
  ultimately show ?thesis using snap(1) cl(1,2) h by blast
qed

text \<open>The witness: the plant that serves one job, a POST, and then a reconcile pass.\<close>

definition listing_enc :: "body \<Rightarrow> string" where
  "listing_enc b = (case b of BodyJobs n js \<Rightarrow> pack (map (pack \<circ> job_fields) js) | _ \<Rightarrow> [])"

definition listing_dec :: "string \<Rightarrow> goerr + job list" where
  "listing_dec t =
     (case Option.bind (unpack t) (\<lambda>xs. those (map (\<lambda>x. Option.bind (unpack x) job_of) xs)) of
        Some js \<Rightarrow> Inr js | None \<Rightarrow> Inl (NewErr ''cannot decode''))"

lemma listing_json: "listing_json listing_enc listing_dec"
proof -
  have "those (map (\<lambda>x. Option.bind (unpack x) job_of) (map (pack \<circ> job_fields) js)) = Some js" for js
    by (induction js) simp_all
  then show ?thesis by (simp add: listing_json_def listing_enc_def listing_dec_def)
qed

text \<open>The store of that plant has one record and answers.\<close>

lemma plant_ready_redis:
  "pl_redis plant_ready = (pl_redis (plant_new False [] []))\<lparr>srv_kv := [(jobKey ''j1'', pack (job_fields served_job))]\<rparr>"
proof -
  have i: "job_ID served_job = ''j1''" by (simp add: served_job_def bench_job_def)
  show ?thesis
    unfolding plant_ready_def plant_store_job_def plant_store_def redis_store_def store_if.select_convs RedisStore_Put_def i
    by (simp add: text_codec_def plant_redis_def on_redis_def plant_new_def redis_srv_def command_err_def command_def
        srv_Set_def gm_put_def)
qed

lemma plant_ready_List: "run_state (store_List plant_store) plant_ready = (Inr [served_job], plant_ready)"
proof -
  let ?w = "plant_ready"
  have same: "?w\<lparr>pl_redis := pl_redis ?w\<rparr> = ?w" by simp
  have scan: "run_state (rd_Scan plant_redis 0 (jobKeyPrefix @ ''*'') 100) ?w = (Inr ([jobKey ''j1''], 0), ?w)"
    by (simp add: plant_redis_def on_redis_def on_part_def redis_srv_def command_def plant_ready_redis plant_new_def
        srv_Scan_def Let_def jobKey_def same [unfolded plant_ready_redis plant_new_def, simplified])
  have got: "run_state (rd_Get plant_redis (jobKey ''j1'')) ?w = (Inr (pack (job_fields served_job)), ?w)"
    by (simp add: plant_redis_def on_redis_def on_part_def redis_srv_def command_def plant_ready_redis plant_new_def
        srv_Get_def gm_get_def same [unfolded plant_ready_redis plant_new_def, simplified])
  have dec: "unmarshalJob text_codec (pack (job_fields served_job)) = Inr served_job" by (simp add: text_codec_def)
  have "run_state (list_from (Suc n) plant_redis text_codec 0 []) ?w = (Some (Inr [served_job]), ?w)" for n
    by (simp add: scan got dec)
  moreover have "(1000 :: nat) = Suc 999" by simp
  ultimately have "run_state (list_from 1000 plant_redis text_codec 0 []) ?w = (Some (Inr [served_job]), ?w)" by metis
  then show ?thesis by (simp add: plant_store_def redis_store_def RedisStore_List_def)
qed

lemma served_job_listed:
  "run_state (broker_List (broker_transport listing_enc sort_by plant_server ''b:1'') listing_dec ''b:1'') plant_ready =
     (Inr [served_job], plant_ready)"
proof -
  have "listing_dec (listing_enc (BodyJobs n [served_job])) = Inr [served_job]" for n
    using listing_json served_job_ok by (simp add: listing_json_def)
  then show ?thesis by (simp add: broker_List_transport plant_server_def plant_ready_List sort_by_def)
qed

theorem ready_jobs_are_reachable_witness:
  "\<exists>r1 w2 r' snap. PushEmpty simple_cache rng_rev 1 (NewRegistry None) = (None, r1) \<and>
     run_state (Reconcile (broker_List (broker_transport listing_enc sort_by plant_server ''b:1'') listing_dec ''b:1'') simple_cache rng_rev 2)
       (plant_ready, r1) = (None, (w2, r')) \<and>
     reg_cache r' = Some snap \<and> route_for (snap_routes snap) ''/svc/whoami'' = Some ''svc''"
proof -
  let ?lister = "broker_List (broker_transport listing_enc sort_by plant_server ''b:1'') listing_dec ''b:1''"
  obtain r1 where push: "PushEmpty simple_cache rng_rev 1 (NewRegistry None) = (None, r1)"
    by (simp add: PushEmpty_def case_prod_beta simple_cache_push flip: built_def)
  have step: "in_step (\<lambda>c. c) r1" using sc.PushEmpty_step [OF rng_rev_ok push] by simp
  obtain err w2 r' where run: "run_state (Reconcile ?lister simple_cache rng_rev 2) (plant_ready, r1) = (err, (w2, r'))"
    by (metis surj_pair)
  have "fst (run_state (Reconcile ?lister simple_cache rng_rev 2) (plant_ready, r1)) = None"
    by (simp add: Reconcile_def served_job_listed ReplaceAll_def case_prod_beta simple_cache_push flip: built_def)
  with run have ok: "run_state (Reconcile ?lister simple_cache rng_rev 2) (plant_ready, r1) = (None, (w2, r'))" by simp
  have w2: "w2 = plant_ready"
    using ok by (simp add: Reconcile_def served_job_listed split: prod.splits)
  have job: "plant_jobs w2 ''j1'' = Some served_job" "job_Status served_job = StatusReady" "''svc'' = job_ServiceName served_job"
    by (simp_all add: w2 plant_ready_jobs served_job_def bench_job_def)
  have slash: "\<forall>j \<in> set [served_job]. slash_free (job_ServiceName j)" by (simp add: job(3) [symmetric] slash_free_def)
  from ready_jobs_are_reachable [OF pr.serving_broker_axioms _ plant_ready_ok plant_ready_sound platform_run.start sort_by_ok
      listing_json sc.snapshot_cache_axioms rng_rev_ok step refl served_job_listed ok job, of "{}" "''whoami''"]
  show ?thesis using push ok slash by auto
qed

end
