(* ===== verification/Spec2Isabelle.thy ===== *)
theory Spec2Isabelle
  imports Broker_Guarantees Storage_Guarantees Queue_Guarantees Process_Guarantees Served_Runs End_To_End
begin

text \<open>
  \<^bold>\<open>Infraforge\<close>, a miniature platform-as-a-service in Go, modelled and verified. This theory holds no definitions;
  it puts the development together and describes it.

  \<^bold>\<open>The program.\<close> A client asks the \<^emph>\<open>broker\<close> (\<open>cmd/broker\<close>, \<open>internal/api\<close>) for a resource. The broker
  records a job in the \<^emph>\<open>store\<close> (\<open>internal/store\<close>, over Redis strings) and puts a message on the \<^emph>\<open>queue\<close>
  (\<open>internal/queue\<close>, a Redis stream with a consumer group). A \<^emph>\<open>worker\<close> (\<open>cmd/worker\<close>, \<open>internal/worker\<close>)
  takes the message, lets the \<^emph>\<open>provisioner\<close> (\<open>internal/provisioner\<close>, the docker command line) start a
  Postgres and an HTTP container (\<open>cmd/echo\<close>), stores the outcome, tells the \<^emph>\<open>control plane\<close> (\<open>cmd/xds\<close>,
  \<open>internal/xds\<close>, through \<open>internal/xdsclient\<close>) about the endpoint and acknowledges the message. The control
  plane gives Envoy a snapshot of clusters and routes, and its reconciler compares the registry with the
  broker's inventory (\<open>internal/brokerclient\<close>) from time to time. \<open>internal/model\<close> holds the shared types.

  \<^bold>\<open>How Go is read.\<close> (\<open>Infra_Prelude\<close>, \<open>Go_Numbers\<close>, \<open>Go_Text\<close>, \<open>Go_Map\<close>.) Effectful functions are values of
  the state monad over a type \<open>'w\<close> of worlds; errors are values (\<open>goerr\<close>, and \<open>goerr + 'a\<close> for a result next
  to an error); a panic is the outcome \<open>Panic\<close>, and a nil pointer is \<open>None\<close>. An \<open>int\<close> is an integer with
  its 64-bit wrap-around written out (\<open>wrap64\<close>). A Go map is an association list, and every loop over one
  takes the order of the range as an argument. Go interfaces are records of functions (\<open>Interfaces\<close>:
  \<open>store_if\<close>, \<open>queue_if\<close>, \<open>prov_if\<close>, \<open>xds_if\<close>, and \<open>sys_if\<close> for clock, randomness, context and sleep), so that
  every client is modelled for any implementation of what it calls.

  \<^bold>\<open>Which theory models what.\<close>

  \<^item> \<open>Job_Model\<close>: \<open>model.go\<close>. The records \<open>job\<close>, \<open>connectionInfo\<close>, \<open>httpEndpoint\<close>, \<open>provisionRequest\<close>, the
    statuses, the documented life cycle, and \<open>job_ok\<close>, the records that survive JSON.
  \<^item> \<open>Store\<close>: \<open>store.go\<close>. \<open>MemStore\<close> is a heap of records with a map of pointers into it. The contract of any
    store is the locale \<open>job_store\<close>.
  \<^item> \<open>Redis_Store\<close>: \<open>store/redis.go\<close> (\<open>RedisStore_Put\<close>, \<open>RedisStore_Get\<close>, \<open>RedisStore_List\<close> with its \<open>SCAN\<close> loop).
  \<^item> \<open>Redis_Queue\<close>: \<open>queue.go\<close>, every operation of \<open>RedisQueue\<close>, and the locale \<open>job_queue\<close>, the contract of any queue.
  \<^item> \<open>Provisioner\<close>: \<open>provisioner.go\<close> and \<open>docker.go\<close>: \<open>Classify\<close>, \<open>Shell_Provision\<close>, \<open>Shell_Deprovision\<close> and every helper,
    the two polling loops included.
  \<^item> \<open>Worker\<close>: \<open>worker.go\<close>: \<open>handle\<close> with \<open>provision\<close> and \<open>deprovision\<close> (every early return, every ignored error), the
    iteration \<open>run_iter\<close> of \<open>Run\<close> and the tick \<open>reclaim_tick\<close> of \<open>reclaimLoop\<close>.
  \<^item> \<open>Api\<close>: \<open>api.go\<close>: the routing and all handlers, with the comparison that \<open>handleList\<close> sorts by.
  \<^item> \<open>Xds_Registry\<close>: \<open>registry.go\<close>: the registry, \<open>Register\<close>, \<open>Unregister\<close>, \<open>ReplaceAll\<close>, \<open>PushEmpty\<close>, and how a snapshot
    is built. \<open>Xds_Push\<close>: the same methods as a critical section and a push that comes after the unlock
    (\<open>methods_are_two_steps\<close>), and the runs in which these steps of concurrent calls interleave (\<open>push_run\<close>).
  \<^item> \<open>Reconciler\<close>: \<open>reconciler.go\<close>. \<open>Xds_Admin\<close>: the admin API of \<open>cmd/xds/main.go\<close>, \<open>xdsclient/client.go\<close> and
    \<open>brokerclient/client.go\<close>, and the helpers that read the environment.
  \<^item> \<open>Processes\<close>: the four \<open>main\<close> functions: the order of their start-up calls, what they do with requests, ending
    listeners, signals and rounds of background work as these come, their exit codes, the worker's two loops
    interleaved by a schedule, and the echo workload.

  \<^bold>\<open>Code that is not part of the program\<close> enters as an argument with stated laws: Redis (\<open>Redis_Client\<close>: the locales
  \<open>redis_kv\<close> and \<open>redis_streams\<close>, in which any command may fail and a failed command may have been carried
  out), docker (\<open>docker_host\<close> in \<open>Docker_Laws\<close>, in which any command may fail and \<open>inspect\<close> may miss a container that is
  there, but nobody else adds or removes containers during a call; \<open>docker_text\<close> in \<open>Provisioner_Text\<close>), the clock (\<open>ticking\<close> in
  \<open>Provisioner_Laws\<close>), the snapshot cache (\<open>snapshot_cache\<close> in \<open>Xds_Push\<close>, which may refuse any snapshot), \<open>encoding/json\<close> (\<open>codec_ok\<close>),
  \<open>sort.Slice\<close> (\<open>sort_Slice_ok\<close> in \<open>Api_Contract\<close>), the layouts of \<open>time\<close> (\<open>layout_ok\<close> in \<open>Redis_Queue\<close>), \<open>net/http\<close>
  (\<open>http_if\<close>). \<open>Redis_Server\<close>, \<open>Docker_Sim\<close> and \<open>Record_Text\<close> are concrete stand-ins with scripts of faults; they
  show that the laws can hold together. \<open>Plant\<close> joins the program's own store, queue, provisioner, client, broker
  and worker over them and interprets every locale on that whole.

  \<^bold>\<open>What is shown.\<close>

  \<^item> \<open>Xds_Registry_Laws\<close>, \<open>Xds_Snapshot\<close>, \<open>Control_Plane\<close>: the nested maps stand for a set of pairs, of which the last call
    decides; \<open>ReplaceAll\<close> is exact and quiet where no endpoint is repeated; a snapshot depends on the registered pairs only, whatever order
    Go ranges in; its routes lead to live clusters and its paths to their services. However calls and their
    pushes interleave, Envoy only ever sees states that the registry was in; pushes that keep their
    order converge, others can leave Envoy behind for good. One reconcile pass repairs the registry, up to stale
    endpoints that a repeated entry of the listing hides. The client
    and the admin API together register exactly the given pair.
  \<^item> \<open>Worker_Order\<close>, \<open>Worker_Contract\<close>, \<open>Worker_Retry\<close>, \<open>Worker_Guarantees\<close>: the order of the calls of a handler, for every
    implementation (outcomes are stored before the acknowledgement, attempts before the provisioner is called,
    endpoints are registered after and unregistered before); \<open>worker_step\<close>, the abstract worker that every
    handled message refines; the bound on attempts over any sequence of deliveries.
  \<^item> \<open>Api_Contract\<close>, \<open>Broker_Guarantees\<close>: every branch of POST and DELETE and both listings, with calls failing anywhere.
  \<^item> \<open>Storage_Guarantees\<close>: the round trip through Redis, the end of the \<open>SCAN\<close> loop, and the equivalence of the two stores for all
    three calls.
  \<^item> \<open>Queue_Guarantees\<close>: no message is lost, each is delivered once and in order, and only idle ones are taken over.
  \<^item> \<open>Provisioner_Laws\<close>, \<open>Docker_Laws\<close>, \<open>Provisioner_Guarantees\<close>: a result means two running containers that show it; a
    panic needs an unclear answer (\<open>clear_answers\<close>); both calls are idempotent; teardown removes exactly the job's containers; the polling loops end; names are safe.
  \<^item> \<open>Lifecycle\<close>, \<open>Served\<close>, \<open>Served_Runs\<close>: broker, worker and docker together, along any run of the broker and any number
    of workers in which handlers come one at a time (\<open>platform_run\<close>). A job never goes back in its life, every record
    stays well typed, and a job on record as ready is served as recorded.
  \<^item> \<open>Process_Guarantees\<close>, \<open>Control_Process\<close>: the processes. They start in an order that loses nothing, and Envoy's first
    snapshot is that of the ready jobs, or empty if the broker or the cache does not answer.
  \<^item> \<open>End_To_End\<close>: from the store through the broker's listing, its client, the reconciler and the snapshot to the
    containers: after a pass without an error Envoy has the endpoints of all ready jobs, which their running containers
    publish, and, under the conditions stated there, forwards their paths to them and to nothing else.

  \<^bold>\<open>Bounds.\<close> \<open>Run\<close>, \<open>reclaimLoop\<close> and the server loop do not end by themselves, so their models are given the
  number of rounds, the schedule or the requests, and the theorems hold for all of them. The \<open>SCAN\<close> loop has fuel;
  \<open>redis_list_ends_complete\<close> shows that the rank of the scan is enough, and the plant uses 1000. The polling loops
  have a bound on their rounds (\<open>sh_rounds\<close>); by \<open>waits_end\<close> 62 and 77 rounds reach the deadlines of 30 and 15
  seconds, and the plant uses 80.

  \<^bold>\<open>Not modelled.\<close> Sockets and the gRPC service itself (that of go-control-plane); log lines and the adapter
  \<open>cacheLog\<close>, which has no other effect; the copies of \<open>envOr\<close> and \<open>envDur\<close> in the other commands, which have the text of
  those in \<open>cmd/xds\<close>; the text of JSON (a codec stands for it); timeouts of single HTTP and Redis calls, which appear as errors of
  the calls. Handlers of broker and worker (a request, a round, a tick) are atomic steps of the runs, so that no request is in flight at a shutdown, and
  \<open>both_loops\<close> and \<open>xds_serve\<close> interleave between them only: what happens when two of them work on the same job at the same
  time is shown for the registry's pushes (\<open>Xds_Push\<close>) and for a teardown during the provisioning call
  (\<open>late_success_revives_a_deleted_job\<close>), not in general. Mutexes are taken to make the methods they guard atomic.
\<close>

end
